(* ===== verification/Prelude.thy ===== *)
theory Prelude
  imports Main "HOL-Library.Word" "HOL-Library.Char_ord" "HOL-Library.List_Lexorder"
begin

text \<open>
  What every component of the development shares: the names of the machine types the Go code
  uses, the error-or-value sequencing of \<^verbatim>\<open>if err != nil { return err }\<close>, the signed 64-bit
  wrap-around of Go's \<^verbatim>\<open>int\<close>, the interface of an encoder paired with a decoder (as a locale),
  and generic lemmas on lists and sums.

  Go strings and byte slices are compared byte by byte; \<open>List_Lexorder\<close> over \<open>Char_ord\<close>, and over
  8-bit words, gives that order on \<open>string\<close> and on \<open>bytes\<close>.
\<close>

section \<open>Machine types\<close>

type_synonym byte = "8 word"
type_synonym bytes = "byte list"
type_synonym digest = bytes \<comment> \<open>Go's \<open>[32]byte\<close>; the length is an invariant of its producers\<close>
type_synonym u64 = "64 word"

named_theorems digest_simps \<open>lengths of digests and of encoded digests\<close>
named_theorems go_split \<open>case splits on the error-or-value results of the model\<close>

text \<open>
  Go's \<^verbatim>\<open>int\<close> is a signed 64-bit integer. Where an operation can overflow, the model applies
  \<open>wrap_int\<close> to the mathematical result.
\<close>

definition wrap_int :: "int \<Rightarrow> int" where
  "wrap_int x = (x + 2 ^ 63) mod 2 ^ 64 - 2 ^ 63"

definition int_range :: "int \<Rightarrow> bool" where
  "int_range x \<longleftrightarrow> - (2 ^ 63) \<le> x \<and> x < 2 ^ 63"

lemma wrap_int_id [simp]: "int_range x \<Longrightarrow> wrap_int x = x"
  by (simp add: wrap_int_def int_range_def)

lemma int_range_small: "0 \<le> x \<Longrightarrow> x \<le> 2 ^ 62 \<Longrightarrow> int_range x"
  by (simp add: int_range_def)

lemma wrap_int_range: "int_range (wrap_int x)"
  by (simp add: wrap_int_def int_range_def)

lemma wrap_int_high:
  assumes "2 ^ 63 \<le> x" and "x < 2 ^ 63 + 2 ^ 64"
  shows "wrap_int x = x - 2 ^ 64"
proof -
  have "(x + 2 ^ 63) mod 2 ^ 64 = (x + 2 ^ 63 - 2 ^ 64) mod 2 ^ 64" by (rule minus_mod_self2 [symmetric])
  also have "\<dots> = x + 2 ^ 63 - 2 ^ 64" using assms by (intro mod_pos_pos_trivial) simp_all
  finally show ?thesis by (simp add: wrap_int_def)
qed

lemma wrap_int_nat: "n < 2 ^ 64 \<Longrightarrow> wrap_int (int n) = (if n < 2 ^ 63 then int n else int n - 2 ^ 64)"
  using wrap_int_high [of "int n"] by (simp add: int_range_def)

lemma sint_wrap_int: "sint (w :: u64) = wrap_int (uint w)"
  by (simp add: sint_uint signed_take_bit_eq_take_bit_shift take_bit_eq_mod wrap_int_def)

section \<open>Error-or-value results\<close>

text \<open>
  A Go function returning \<^verbatim>\<open>(T, error)\<close> is a function into \<open>'e + 't\<close>; \<open>sbind\<close> is the
  early return on a non-nil error.
\<close>

definition sbind :: "'e + 'a \<Rightarrow> ('a \<Rightarrow> 'e + 'b) \<Rightarrow> 'e + 'b" where
  "sbind r f = (case r of Inl e \<Rightarrow> Inl e | Inr x \<Rightarrow> f x)"

lemma sbind_simps [simp]:
  "sbind (Inl e) f = Inl e"
  "sbind (Inr x) f = f x"
  by (simp_all add: sbind_def)

lemma sbind_Inr_conv: "sbind r f = Inr y \<longleftrightarrow> (\<exists>x. r = Inr x \<and> f x = Inr y)"
  by (cases r) simp_all

lemma sbind_cong [fundef_cong]:
  "r = r' \<Longrightarrow> (\<And>x. r' = Inr x \<Longrightarrow> f x = f' x) \<Longrightarrow> sbind r f = sbind r' f'"
  by (cases r') simp_all

text \<open>A callee's error wrapped into the caller's error type.\<close>

definition lift_error :: "('e \<Rightarrow> 'f) \<Rightarrow> 'e + 'a \<Rightarrow> 'f + 'a" where
  "lift_error f r = (case r of Inl e \<Rightarrow> Inl (f e) | Inr x \<Rightarrow> Inr x)"

lemma lift_error_Inr [simp]: "lift_error f r = Inr x \<longleftrightarrow> r = Inr x"
  by (auto simp: lift_error_def split: sum.splits)

definition sum_option :: "'e + 'a \<Rightarrow> 'a option" where
  "sum_option r = (case r of Inl _ \<Rightarrow> None | Inr x \<Rightarrow> Some x)"

lemma sum_option_Some [simp]: "sum_option r = Some x \<longleftrightarrow> r = Inr x"
  by (cases r) (simp_all add: sum_option_def)

text \<open>Running a fallible function over a slice stops at the first error.\<close>

fun smap :: "('a \<Rightarrow> 'e + 'b) \<Rightarrow> 'a list \<Rightarrow> 'e + 'b list" where
  "smap f [] = Inr []"
| "smap f (x # xs) = sbind (f x) (\<lambda>y. sbind (smap f xs) (\<lambda>ys. Inr (y # ys)))"

lemma smap_Inr_conv: "smap f xs = Inr ys \<longleftrightarrow> list_all2 (\<lambda>x y. f x = Inr y) xs ys"
  by (induction xs arbitrary: ys) (auto simp: sbind_Inr_conv list_all2_Cons1)

lemma smap_Inr_length: "smap f xs = Inr ys \<Longrightarrow> length ys = length xs"
  by (auto simp: smap_Inr_conv dest: list_all2_lengthD)

lemma smap_Inr_nth: "smap f xs = Inr ys \<Longrightarrow> i < length xs \<Longrightarrow> f (xs ! i) = Inr (ys ! i)"
  by (auto simp: smap_Inr_conv dest: list_all2_nthD)

section \<open>Encoders with decoders\<close>

text \<open>
  The contract of a serialisation: on the values it is meant for, the decoder returns what was
  encoded. A canonical codec moreover accepts no other byte string than the encoder's output, so
  a decoded value has one encoding only.
\<close>

locale codec =
  fixes enc :: "'a \<Rightarrow> 'b"
    and dec :: "'b \<Rightarrow> 'a option"
    and valid :: "'a \<Rightarrow> bool"
  assumes dec_enc: "valid x \<Longrightarrow> dec (enc x) = Some x"
begin

lemma enc_inj: "valid x \<Longrightarrow> valid y \<Longrightarrow> enc x = enc y \<Longrightarrow> x = y"
  by (metis dec_enc option.inject)

end

locale canonical_codec = codec +
  assumes enc_dec: "dec b = Some x \<Longrightarrow> enc x = b"
begin

lemma dec_inj: "dec b = Some x \<Longrightarrow> dec c = Some x \<Longrightarrow> b = c"
  using enc_dec by blast

lemma dec_iff: "valid x \<Longrightarrow> dec b = Some x \<longleftrightarrow> b = enc x"
  using enc_dec dec_enc by blast

end

section \<open>Big-endian numbers\<close>

text \<open>The number a byte string denotes, most significant byte first.\<close>

definition be_val :: "bytes \<Rightarrow> nat" where
  "be_val b = foldl (\<lambda>n c. n * 256 + unat c) 0 b"

lemma be_val_Nil [simp]: "be_val [] = 0"
  by (simp add: be_val_def)

lemma be_val_snoc [simp]: "be_val (xs @ [x]) = be_val xs * 256 + unat x"
  by (simp add: be_val_def)

lemma unat_byte: "unat (x :: byte) < 256"
  using unsigned_less [of x] by simp

lemma unat_u64: "unat (x :: u64) < 2 ^ 64"
  using unsigned_less [where w = x and ?'a = nat] by simp

lemma unat_word_inverse: "word_of_nat (unat (a :: byte)) = a"
  by simp

lemma unat_of_nat_byte: "n < 256 \<Longrightarrow> unat (word_of_nat n :: byte) = n"
  by (simp add: unat_of_nat)

lemma be_val_bound: "be_val b < 256 ^ length b"
proof (induction b rule: rev_induct)
  case (snoc x xs)
  then have "Suc (be_val xs) * 256 \<le> 256 ^ length xs * 256" by (intro mult_le_mono1) simp
  then show ?case using unat_byte [of x] by simp
qed simp

lemma be_val_Cons: "be_val (x # xs) = unat x * 256 ^ length xs + be_val xs"
proof (induction xs rule: rev_induct)
  case Nil
  show ?case by (simp add: be_val_def)
next
  case (snoc y ys)
  have "be_val (x # ys @ [y]) = be_val (x # ys) * 256 + unat y"
    using be_val_snoc [of "x # ys" y] by simp
  then show ?case by (simp add: snoc algebra_simps)
qed

lemma be_val_inj_length: "length xs = length ys \<Longrightarrow> be_val xs = be_val ys \<Longrightarrow> xs = ys"
proof (induction xs ys rule: rev_induct2)
  case (4 x xs y ys)
  then have eq: "be_val xs * 256 + unat x = be_val ys * 256 + unat y" by simp
  have "be_val xs = (be_val xs * 256 + unat x) div 256" using unat_byte [of x] by simp
  also have "\<dots> = be_val ys" using unat_byte [of y] by (simp add: eq)
  finally show ?case using 4 eq by (simp add: word_unat_eq_iff)
qed auto

lemma be_val_leading: "xs \<noteq> [] \<Longrightarrow> hd xs \<noteq> 0 \<Longrightarrow> 256 ^ (length xs - 1) \<le> be_val xs"
proof (cases xs)
  case (Cons x ys)
  moreover assume "hd xs \<noteq> 0"
  ultimately have "1 \<le> unat x" by (simp add: Suc_le_eq unat_gt_0)
  then have "1 * 256 ^ length ys \<le> unat x * 256 ^ length ys" by (rule mult_le_mono1)
  then have "256 ^ length ys \<le> unat x * 256 ^ length ys + be_val ys" by linarith
  with Cons show ?thesis by (simp add: be_val_Cons)
qed simp

lemma be_val_inj:
  assumes "xs \<noteq> []" "hd xs \<noteq> 0" "ys \<noteq> []" "hd ys \<noteq> 0" and "be_val xs = be_val ys"
  shows "xs = ys"
proof -
  have *: "length us \<le> length vs" if "us \<noteq> []" "hd us \<noteq> 0" "be_val us = be_val vs" for us vs
  proof -
    have "(256::nat) ^ (length us - 1) < 256 ^ length vs"
      using be_val_leading [OF that(1,2)] be_val_bound [of vs] that(3) by linarith
    then have "length us - 1 < length vs" by (rule power_less_imp_less_exp [rotated]) simp
    then show ?thesis by linarith
  qed
  from *[of xs ys] *[of ys xs] assms show ?thesis by (intro be_val_inj_length) auto
qed

lemma be_val_digits:
  "be_val (map (\<lambda>i. word_of_nat (m div 256 ^ i)) (rev [0..<k])) = m mod 256 ^ k"
proof (induction k)
  case (Suc k)
  have "m mod (256 ^ k * 256) = 256 ^ k * (m div 256 ^ k mod 256) + m mod 256 ^ k"
    by (rule mod_mult2_eq)
  with Suc show ?case by (simp add: be_val_Cons unat_of_nat mult.commute)
qed simp

text \<open>The number of binary digits, \<^verbatim>\<open>big.Int.BitLen\<close>, and the big-endian bytes of a fixed length.\<close>

fun nbits :: "nat \<Rightarrow> nat" where
  "nbits n = (if n = 0 then 0 else Suc (nbits (n div 2)))"

declare nbits.simps [simp del]

definition be_bytes :: "nat \<Rightarrow> nat \<Rightarrow> bytes" where
  "be_bytes k n = map (\<lambda>i. word_of_nat (n div 256 ^ i)) (rev [0..<k])"

lemma length_be_bytes [simp]: "length (be_bytes k n) = k"
  by (simp add: be_bytes_def)

lemma be_val_be_bytes: "n < 256 ^ k \<Longrightarrow> be_val (be_bytes k n) = n"
  by (simp add: be_bytes_def be_val_digits)

lemma be_bytes_be_val: "be_bytes (length b) (be_val b) = b"
  by (rule be_val_inj_length) (simp_all add: be_val_be_bytes be_val_bound)

text \<open>Byte strings without a leading zero, and \<^verbatim>\<open>big.Int.Bytes\<close>: zero is the empty string.\<close>

definition minimal :: "bytes \<Rightarrow> bool" where
  "minimal b \<longleftrightarrow> b = [] \<or> hd b \<noteq> 0"

fun big_bytes :: "nat \<Rightarrow> bytes" where
  "big_bytes n = (if n = 0 then [] else big_bytes (n div 256) @ [word_of_nat (n mod 256)])"

declare big_bytes.simps [simp del]

lemma minimal_val_0: "minimal b \<Longrightarrow> be_val b = 0 \<longleftrightarrow> b = []"
proof -
  assume b: "minimal b"
  show ?thesis
  proof (cases "b = []")
    case False
    then have "256 ^ (length b - 1) \<le> be_val b" using b be_val_leading [of b] by (simp add: minimal_def)
    moreover have "(0 :: nat) < 256 ^ (length b - 1)" by simp
    ultimately have "0 < be_val b" by (rule order.strict_trans2 [rotated])
    then show ?thesis using False by simp
  qed simp
qed

lemma minimal_unique: "minimal a \<Longrightarrow> minimal b \<Longrightarrow> be_val a = be_val b \<Longrightarrow> a = b"
  using be_val_inj [of a b] minimal_val_0 [of a] minimal_val_0 [of b] by (fastforce simp: minimal_def)

lemma big_bytes_Nil [simp]: "big_bytes n = [] \<longleftrightarrow> n = 0"
  by (subst big_bytes.simps) simp

lemma be_val_big_bytes [simp]: "be_val (big_bytes n) = n"
proof (induction n rule: big_bytes.induct)
  case (1 n)
  then show ?case by (subst big_bytes.simps) (simp add: unat_of_nat)
qed

lemma low_byte_nonzero: "0 < v \<Longrightarrow> v div 256 = 0 \<Longrightarrow> word_of_nat (v mod 256) \<noteq> (0 :: byte)"
  by (simp add: word_of_nat_eq_0_iff dvd_eq_mod_eq_0)

lemma minimal_big_bytes [simp]: "minimal (big_bytes n)"
proof (induction n rule: big_bytes.induct)
  case (1 n)
  then show ?case
    using low_byte_nonzero [of n] by (subst big_bytes.simps) (auto simp: minimal_def hd_append)
qed

lemma big_bytes_be_val: "minimal b \<Longrightarrow> big_bytes (be_val b) = b"
  by (rule minimal_unique) simp_all

lemma length_minimal: "minimal b \<Longrightarrow> be_val b < 256 ^ k \<Longrightarrow> length b \<le> k"
proof -
  assume b: "minimal b" "be_val b < 256 ^ k"
  show ?thesis
  proof (cases "b = []")
    case False
    then have "256 ^ (length b - 1) \<le> be_val b" using b(1) be_val_leading [of b] by (simp add: minimal_def)
    then have "(256 :: nat) ^ (length b - 1) < 256 ^ k" using b(2) by (rule le_less_trans)
    then have "length b - 1 < k" by (rule power_less_imp_less_exp [rotated]) simp
    then show ?thesis by linarith
  qed simp
qed

lemma length_big_bytes: "n < 256 ^ k \<Longrightarrow> length (big_bytes n) \<le> k"
  by (rule length_minimal) simp_all

end
