(* ===== verification/Sha256.thy ===== *)
theory Sha256
  imports Prelude
begin

text \<open>
  SHA-256 as the standard library computes it (FIPS 180-4): \<^verbatim>\<open>src/crypto/hash/sha256.go\<close> wraps
  \<^verbatim>\<open>crypto/sha256.Sum256\<close>, and every digest of the trust layer is one of these. Words are
  32-bit, additions wrap. The components use only that a digest has 32 bytes; the security
  statements name the colliding inputs explicitly instead of assuming that there are none.
\<close>

unbundle bit_operations_syntax

type_synonym w32 = "32 word"

section \<open>Compression function\<close>

definition rotr :: "nat \<Rightarrow> w32 \<Rightarrow> w32" where
  "rotr n x = word_rotr n x"

definition choose_bits :: "w32 \<Rightarrow> w32 \<Rightarrow> w32 \<Rightarrow> w32" where
  "choose_bits e f g = (e AND f) XOR (NOT e AND g)"

definition majority_bits :: "w32 \<Rightarrow> w32 \<Rightarrow> w32 \<Rightarrow> w32" where
  "majority_bits a b c = (a AND b) XOR (a AND c) XOR (b AND c)"

definition sha_K :: "w32 list" where
  "sha_K =
    [1116352408, 1899447441, 3049323471, 3921009573, 961987163, 1508970993, 2453635748,
     2870763221, 3624381080, 310598401, 607225278, 1426881987, 1925078388, 2162078206,
     2614888103, 3248222580, 3835390401, 4022224774, 264347078, 604807628, 770255983,
     1249150122, 1555081692, 1996064986, 2554220882, 2821834349, 2952996808, 3210313671,
     3336571891, 3584528711, 113926993, 338241895, 666307205, 773529912, 1294757372,
     1396182291, 1695183700, 1986661051, 2177026350, 2456956037, 2730485921, 2820302411,
     3259730800, 3345764771, 3516065817, 3600352804, 4094571909, 275423344, 430227734,
     506948616, 659060556, 883997877, 958139571, 1322822218, 1537002063, 1747873779,
     1955562222, 2024104815, 2227730452, 2361852424, 2428436474, 2756734187, 3204031479,
     3329325298]"

definition sha_init :: "w32 list" where
  "sha_init = [1779033703, 3144134277, 1013904242, 2773480762, 1359893119, 2600822924, 528734635, 1541459225]"

text \<open>The message schedule keeps the sixteen most recent words; each round yields the oldest.\<close>

definition next_sched :: "w32 list \<Rightarrow> w32 list" where
  "next_sched w =
    (let s0 = rotr 7 (w ! 1) XOR rotr 18 (w ! 1) XOR drop_bit 3 (w ! 1);
         s1 = rotr 17 (w ! 14) XOR rotr 19 (w ! 14) XOR drop_bit 10 (w ! 14)
     in tl w @ [w ! 0 + s0 + w ! 9 + s1])"

definition sha_round :: "w32 \<Rightarrow> w32 \<Rightarrow> w32 list \<Rightarrow> w32 list" where
  "sha_round k w st = (case st of
      [a, b, c, d, e, f, g, h] \<Rightarrow>
        (let t1 = h + (rotr 6 e XOR rotr 11 e XOR rotr 25 e) + choose_bits e f g + k + w;
             t2 = (rotr 2 a XOR rotr 13 a XOR rotr 22 a) + majority_bits a b c
         in [t1 + t2, a, b, c, d + t1, e, f, g])
    | _ \<Rightarrow> st)"

fun sha_rounds :: "w32 list \<Rightarrow> w32 list \<Rightarrow> w32 list \<Rightarrow> w32 list" where
  "sha_rounds [] w st = st"
| "sha_rounds (k # ks) w st = sha_rounds ks (next_sched w) (sha_round k (w ! 0) st)"

definition be_word :: "bytes \<Rightarrow> w32" where
  "be_word bs = foldl (\<lambda>acc b. push_bit 8 acc OR ucast b) 0 bs"

definition word_be :: "w32 \<Rightarrow> bytes" where
  "word_be w = [ucast (drop_bit 24 w), ucast (drop_bit 16 w), ucast (drop_bit 8 w), ucast w]"

definition block_words :: "bytes \<Rightarrow> w32 list" where
  "block_words bs = map (\<lambda>i. be_word (take 4 (drop (4 * i) bs))) [0..<16]"

definition sha_block :: "w32 list \<Rightarrow> bytes \<Rightarrow> w32 list" where
  "sha_block st bs = map2 (+) st (sha_rounds sha_K (block_words bs) st)"

section \<open>Padding and the digest\<close>

definition sha_pad :: "bytes \<Rightarrow> bytes" where
  "sha_pad msg =
    (let n = length msg; len = word_of_nat (8 * n) :: u64
     in msg @ [0x80] @ replicate ((119 - n mod 64) mod 64) 0 @
        map (\<lambda>i. ucast (drop_bit (8 * (7 - i)) len)) [0..<8])"

function sha_blocks :: "w32 list \<Rightarrow> bytes \<Rightarrow> w32 list" where
  "sha_blocks st bs = (if length bs < 64 then st else sha_blocks (sha_block st (take 64 bs)) (drop 64 bs))"
  by pat_completeness auto
termination
  by (relation "measure (length \<circ> snd)") auto

declare sha_blocks.simps [simp del]

definition sha256_sum :: "bytes \<Rightarrow> digest" where
  "sha256_sum msg = concat (map word_be (sha_blocks sha_init (sha_pad msg)))"

lemma length_sha_round: "length st = 8 \<Longrightarrow> length (sha_round k w st) = 8"
  by (auto simp: sha_round_def Let_def split: list.splits)

lemma length_sha_rounds: "length st = 8 \<Longrightarrow> length (sha_rounds ks w st) = 8"
  by (induction ks w st rule: sha_rounds.induct) (auto simp: length_sha_round)

lemma length_sha_blocks: "length st = 8 \<Longrightarrow> length (sha_blocks st bs) = 8"
proof (induction st bs rule: sha_blocks.induct)
  case (1 st bs)
  then show ?case
    by (simp add: sha_blocks.simps [of st bs] sha_block_def length_sha_rounds)
qed

lemma length_concat_word_be: "length (concat (map word_be ws)) = 4 * length ws"
  by (induction ws) (auto simp: word_be_def)

lemma length_sha256 [simp, digest_simps]: "length (sha256_sum msg) = 32"
  by (simp add: sha256_sum_def length_concat_word_be length_sha_blocks sha_init_def)

text \<open>The padded message is a whole number of 64-byte blocks, so no byte of it is dropped.\<close>

lemma sha_pad_blocks: "length (sha_pad msg) mod 64 = 0"
proof -
  define q where "q = length msg div 64"
  define r where "r = length msg mod 64"
  have n: "length msg = 64 * q + r" and r: "r < 64" by (simp_all add: q_def r_def)
  have len: "length (sha_pad msg) = 64 * q + r + (9 + (119 - r) mod 64)"
    using n by (simp add: sha_pad_def Let_def r_def)
  show ?thesis
  proof (cases "r < 56")
    case True
    then have e: "119 - r = 55 - r + 64" by simp
    have "(119 - r) mod 64 = (55 - r) mod 64"
      unfolding e by (rule mod_add_self2)
    then have "(119 - r) mod 64 = 55 - r" by simp
    with len True have "length (sha_pad msg) = 64 * (q + 1)" by simp
    then show ?thesis by simp
  next
    case False
    then have "(119 - r) mod 64 = 119 - r" by simp
    with len False r have "length (sha_pad msg) = 64 * (q + 2)" by simp
    then show ?thesis by simp
  qed
qed

section \<open>What the clients of a digest rely on\<close>

text \<open>
  Two different inputs with the same digest are a collision. The locale states the one law the
  Merkle and identity layers use of the hash function, and derives from it how equal digests of
  tagged inputs can come about: the parts agree, or the two inputs are a collision.
\<close>

definition collides :: "(bytes \<Rightarrow> digest) \<Rightarrow> bytes \<Rightarrow> bytes \<Rightarrow> bool" where
  "collides H x y \<longleftrightarrow> x \<noteq> y \<and> H x = H y"

locale digest_function =
  fixes H :: "bytes \<Rightarrow> digest"
  assumes H_length: "length (H x) = 32"
begin

lemma tagged_pair:
  assumes "H (p # l @ r) = H (p # l' @ r')" and "length l = length l'"
  shows "(l = l' \<and> r = r') \<or> collides H (p # l @ r) (p # l' @ r')"
  using assms by (auto simp: collides_def)

lemma tagged_pair_hash:
  assumes "H (p # H a @ r) = H (p # H a' @ r')"
  shows "(H a = H a' \<and> r = r') \<or> collides H (p # H a @ r) (p # H a' @ r')"
  using assms by (rule tagged_pair) (simp add: H_length)

lemma tagged:
  "H (p # x) = H (p # y) \<Longrightarrow> x = y \<or> collides H (p # x) (p # y)"
  by (auto simp: collides_def)

end

interpretation sha: digest_function sha256_sum
  by unfold_locales simp

end
