(* ===== verification/Merkle.thy ===== *)
theory Merkle
  imports Sha256
begin

text \<open>
  The Merkle tree of \<^verbatim>\<open>src/merkle/tree.go\<close>: construction by levels, audit paths, consistency
  proofs and the three verifiers. Slice lengths and positions inside a built tree are natural
  numbers; the \<^verbatim>\<open>int\<close> arguments a caller may choose freely are integers with Go's wrap-around,
  and the \<^verbatim>\<open>uint64\<close> arguments of \<^verbatim>\<open>VerifyInclusion\<close> are 64-bit words. Loops whose
  termination depends on the caller's numbers are \<^theory_text>\<open>partial_function (option)\<close>: \<open>None\<close> means
  that the call does not return.
\<close>

section \<open>Hashing\<close>

datatype merkle_error =
    ErrEmptyTree
  | ErrIndexOutOfRange
  | ErrInvalidRange
  | ErrTreeCorrupt
  | ErrTamperedLeaf
  | ErrMalformedProof

record ProofStep =
  Hash :: digest
  IsRight :: bool

record Tree =
  levels :: "digest list list"
  tsize :: nat

definition leafPrefix :: byte where
  "leafPrefix = 0x00"

definition nodePrefix :: byte where
  "nodePrefix = 0x01"

definition leafHash :: "bytes \<Rightarrow> digest" where
  "leafHash data = sha256_sum (leafPrefix # data)"

definition nodeHash :: "digest \<Rightarrow> digest \<Rightarrow> digest" where
  "nodeHash left right = sha256_sum (nodePrefix # left @ right)"

lemma length_leafHash [simp, digest_simps]: "length (leafHash d) = 32"
  by (simp add: leafHash_def)

lemma length_nodeHash [simp, digest_simps]: "length (nodeHash l r) = 32"
  by (simp add: nodeHash_def)

section \<open>Construction\<close>

text \<open>One pass of the inner loop of \<^verbatim>\<open>New\<close>: pair neighbours, promote an odd last node.\<close>

fun pair_level :: "digest list \<Rightarrow> digest list" where
  "pair_level (x # y # rest) = nodeHash x y # pair_level rest"
| "pair_level [x] = [x]"
| "pair_level [] = []"

lemma length_pair_level [simp]: "length (pair_level xs) = (length xs + 1) div 2"
  by (induction xs rule: pair_level.induct) auto

function build_levels :: "digest list \<Rightarrow> digest list list" where
  "build_levels level =
    level # (if length level > 1 then build_levels (pair_level level) else [])"
  by pat_completeness auto
termination
  by (relation "measure length") auto

declare build_levels.simps [simp del]

definition merkle_New :: "bytes list \<Rightarrow> merkle_error + Tree" where
  "merkle_New leaves =
    (if leaves = [] then Inl ErrEmptyTree
     else Inr \<lparr>levels = build_levels (map leafHash leaves), tsize = length leaves\<rparr>)"

definition Root :: "Tree \<Rightarrow> bytes" where
  "Root t = last (levels t) ! 0"

definition Size :: "Tree \<Rightarrow> int" where
  "Size t = int (tsize t)"

section \<open>Audit paths\<close>

unbundle bit_operations_syntax

text \<open>The loop of \<^verbatim>\<open>Tree.Proof\<close> visits every level but the last.\<close>

fun proof_loop :: "digest list list \<Rightarrow> nat \<Rightarrow> ProofStep list" where
  "proof_loop (lv # next # rest) idx =
    (if idx mod 2 = 1 \<or> idx + 1 < length lv
     then [\<lparr>Hash = lv ! (idx XOR 1), IsRight = (idx mod 2 = 0)\<rparr>] else []) @
    proof_loop (next # rest) (idx div 2)"
| "proof_loop _ idx = []"

definition merkle_Proof :: "Tree \<Rightarrow> int \<Rightarrow> merkle_error + ProofStep list" where
  "merkle_Proof t index =
    (if index < 0 \<or> index \<ge> int (tsize t) then Inl ErrIndexOutOfRange
     else Inr (proof_loop (levels t) (nat index)))"

fun fold_path :: "digest \<Rightarrow> ProofStep list \<Rightarrow> digest" where
  "fold_path h [] = h"
| "fold_path h (step # steps) =
    fold_path (if IsRight step then nodeHash h (Hash step) else nodeHash (Hash step) h) steps"

definition merkle_Verify :: "bytes \<Rightarrow> bytes \<Rightarrow> ProofStep list \<Rightarrow> bool" where
  "merkle_Verify root leaf path =
    (if length root \<noteq> 32 then False else fold_path (leafHash leaf) path = root)"

section \<open>Verifying inclusion at an index\<close>

definition proofElemLen :: nat where
  "proofElemLen = 33"

definition sideLeft :: byte where
  "sideLeft = 0x00"

definition sideRight :: byte where
  "sideRight = 0x01"

definition decode_elem :: "bytes \<Rightarrow> merkle_error + ProofStep" where
  "decode_elem elem =
    (if length elem \<noteq> proofElemLen then Inl ErrMalformedProof
     else if elem ! 0 = sideLeft then Inr \<lparr>Hash = drop 1 elem, IsRight = False\<rparr>
     else if elem ! 0 = sideRight then Inr \<lparr>Hash = drop 1 elem, IsRight = True\<rparr>
     else Inl ErrMalformedProof)"

definition decodeProof :: "bytes list \<Rightarrow> merkle_error + ProofStep list" where
  "decodeProof proof = smap decode_elem proof"

function side_loop :: "u64 \<Rightarrow> u64 \<Rightarrow> bool list" where
  "side_loop idx count =
    (if count > 1
     then (if idx mod 2 = 1 \<or> idx + 1 < count then [idx mod 2 = 0] else []) @
          side_loop (idx div 2) ((count + 1) div 2)
     else [])"
  by pat_completeness auto
termination
proof (relation "measure (unat \<circ> snd)")
  fix idx count :: u64
  assume c: "count > 1"
  have "unat ((count + 1) div 2) = unat (count + 1) div 2"
    by (simp add: unat_div)
  also have "\<dots> \<le> (unat count + 1) div 2"
    by (metis div_le_mono unat_1 unat_word_ariths(1) mod_less_eq_dividend)
  also have "\<dots> < unat count"
    using c by (simp add: word_less_nat_alt)
  finally show "((idx div 2, (count + 1) div 2), idx, count) \<in> measure (unat \<circ> snd)"
    by simp
qed simp

declare side_loop.simps [simp del]

definition proofSideSequence :: "u64 \<Rightarrow> u64 \<Rightarrow> bool list" where
  "proofSideSequence index treeSize = side_loop index treeSize"

definition merkle_VerifyInclusion ::
    "digest \<Rightarrow> u64 \<Rightarrow> u64 \<Rightarrow> digest \<Rightarrow> bytes list \<Rightarrow> merkle_error + unit" where
  "merkle_VerifyInclusion root index treeSize leaf proof =
    (if index \<ge> treeSize then Inl ErrIndexOutOfRange
     else case decodeProof proof of
       Inl _ \<Rightarrow> Inl ErrTamperedLeaf
     | Inr path \<Rightarrow>
        (let sides = proofSideSequence index treeSize
         in if length path \<noteq> length sides then Inl ErrTamperedLeaf
            else if \<exists>i<length path. IsRight (path ! i) \<noteq> sides ! i then Inl ErrTamperedLeaf
            else if \<not> merkle_Verify root leaf path then Inl ErrTamperedLeaf
            else Inr ()))"

section \<open>Subtree hashes and consistency proofs\<close>

text \<open>
  \<^verbatim>\<open>for k*2 < n { k *= 2 }\<close> with Go's wrapping multiplication: for \<open>n\<close> above \<open>2 ^ 62\<close> the
  doubled value becomes negative, then zero, and the loop never ends.
\<close>

partial_function (option) pow2_loop :: "int \<Rightarrow> int \<Rightarrow> int option" where
  "pow2_loop n k =
    (if wrap_int (k * 2) < n then pow2_loop n (wrap_int (k * 2)) else Some k)"

definition largestPow2LessThan :: "int \<Rightarrow> int option" where
  "largestPow2LessThan n = pow2_loop n 1"

text \<open>The descent of \<^verbatim>\<open>Tree.subtree\<close> from the root; the level number \<open>j\<close> decreases.\<close>

fun subtree_loop :: "Tree \<Rightarrow> int \<Rightarrow> int \<Rightarrow> nat \<Rightarrow> nat \<Rightarrow> digest option" where
  "subtree_loop t lo hi j p =
    (let coverLo = p * 2 ^ j;
         coverHi = (if coverLo + 2 ^ j > tsize t then tsize t else coverLo + 2 ^ j)
     in if int coverLo = lo \<and> int coverHi = hi then Some (levels t ! j ! p)
        else if j = 0 then None
        else if 2 * p + 1 \<ge> length (levels t ! (j - 1)) then subtree_loop t lo hi (j - 1) (2 * p)
        else (let leftHi = coverLo + 2 ^ (j - 1)
              in if hi \<le> int leftHi then subtree_loop t lo hi (j - 1) (2 * p)
                 else if lo < int leftHi then None
                 else subtree_loop t lo hi (j - 1) (2 * p + 1)))"

declare subtree_loop.simps [simp del]

definition subtree :: "Tree \<Rightarrow> int \<Rightarrow> int \<Rightarrow> digest option" where
  "subtree t lo hi =
    (if lo < 0 \<or> hi > int (tsize t) \<or> lo \<ge> hi then None
     else subtree_loop t lo hi (length (levels t) - 1) 0)"

text \<open>
  The recursion appends to the caller's path; the result is \<open>Some None\<close> when the Go function
  returns false.
\<close>

partial_function (option) consistencySubproof ::
    "Tree \<Rightarrow> int \<Rightarrow> int \<Rightarrow> int \<Rightarrow> bool \<Rightarrow> ProofStep list \<Rightarrow> ProofStep list option option" where
  "consistencySubproof t m lo hi b path =
    (if m = hi - lo then
       (if \<not> b
        then (case subtree t lo hi of
                None \<Rightarrow> Some None
              | Some h \<Rightarrow> Some (Some (path @ [\<lparr>Hash = h, IsRight = False\<rparr>])))
        else Some (Some path))
     else Option.bind (largestPow2LessThan (hi - lo)) (\<lambda>k.
       if m \<le> k
       then Option.bind (consistencySubproof t m lo (lo + k) b path) (\<lambda>r. case r of
              None \<Rightarrow> Some None
            | Some path' \<Rightarrow> (case subtree t (lo + k) hi of
                None \<Rightarrow> Some None
              | Some h \<Rightarrow> Some (Some (path' @ [\<lparr>Hash = h, IsRight = True\<rparr>]))))
       else Option.bind (consistencySubproof t (m - k) (lo + k) hi False path) (\<lambda>r. case r of
              None \<Rightarrow> Some None
            | Some path' \<Rightarrow> (case subtree t lo (lo + k) of
                None \<Rightarrow> Some None
              | Some h \<Rightarrow> Some (Some (path' @ [\<lparr>Hash = h, IsRight = False\<rparr>]))))))"

definition merkle_ConsistencyProof ::
    "Tree \<Rightarrow> int \<Rightarrow> int \<Rightarrow> (merkle_error + ProofStep list) option" where
  "merkle_ConsistencyProof t m n =
    (if m \<le> 0 \<or> m \<ge> n then Some (Inl ErrInvalidRange)
     else if n \<noteq> int (tsize t) then Some (Inl ErrInvalidRange)
     else Option.bind (consistencySubproof t m 0 n True []) (\<lambda>r. case r of
       None \<Rightarrow> Some (Inl ErrTreeCorrupt)
     | Some path \<Rightarrow> Some (Inr path)))"

section \<open>Verifying consistency\<close>

record proofCursor =
  csteps :: "ProofStep list"
  cnext :: nat

definition cursor_take :: "proofCursor \<Rightarrow> (digest \<times> proofCursor) option" where
  "cursor_take c =
    (if cnext c \<ge> length (csteps c) then None
     else Some (Hash (csteps c ! cnext c), c\<lparr>cnext := cnext c + 1\<rparr>))"

text \<open>
  The result is \<open>Some None\<close> where the Go function returns \<^verbatim>\<open>ok = false\<close>; dereferencing a nil
  \<open>old\<close> would be a panic, hence no result.
\<close>

partial_function (option) verifySubproof ::
    "int \<Rightarrow> int \<Rightarrow> bool \<Rightarrow> digest option \<Rightarrow> proofCursor \<Rightarrow> (digest \<times> digest \<times> proofCursor) option option" where
  "verifySubproof m n b old cur =
    (if m = n then
       (if b then (case old of None \<Rightarrow> None | Some h \<Rightarrow> Some (Some (h, h, cur)))
        else (case cursor_take cur of
                None \<Rightarrow> Some None
              | Some (h, cur') \<Rightarrow> Some (Some (h, h, cur'))))
     else Option.bind (largestPow2LessThan n) (\<lambda>k.
       if m \<le> k
       then Option.bind (verifySubproof m k b old cur) (\<lambda>r. case r of
              None \<Rightarrow> Some None
            | Some (leftNew, leftOld, cur') \<Rightarrow> (case cursor_take cur' of
                None \<Rightarrow> Some None
              | Some (rightRoot, cur'') \<Rightarrow> Some (Some (nodeHash leftNew rightRoot, leftOld, cur''))))
       else Option.bind (verifySubproof (m - k) (n - k) False None cur) (\<lambda>r. case r of
              None \<Rightarrow> Some None
            | Some (rightNew, rightOld, cur') \<Rightarrow> (case cursor_take cur' of
                None \<Rightarrow> Some None
              | Some (leftRoot, cur'') \<Rightarrow>
                  Some (Some (nodeHash leftRoot rightNew, nodeHash leftRoot rightOld, cur''))))))"

definition merkle_VerifyConsistency ::
    "bytes \<Rightarrow> bytes \<Rightarrow> int \<Rightarrow> int \<Rightarrow> ProofStep list \<Rightarrow> bool option" where
  "merkle_VerifyConsistency oldRoot newRoot m n path =
    (if length oldRoot \<noteq> 32 \<or> length newRoot \<noteq> 32 then Some False
     else if m = n then Some (length path = 0 \<and> oldRoot = newRoot)
     else if m \<le> 0 \<or> m > n then Some False
     else Option.bind (verifySubproof m n True (Some oldRoot) \<lparr>csteps = path, cnext = 0\<rparr>) (\<lambda>r.
       case r of
         None \<Rightarrow> Some False
       | Some (newHash, oldHash, cur) \<Rightarrow>
           if cnext cur \<noteq> length (csteps cur) then Some False
           else Some (oldHash = oldRoot \<and> newHash = newRoot)))"

end
