(* ===== verification/Merkle_Rfc.thy ===== *)
theory Merkle_Rfc
  imports Merkle
begin

text \<open>
  The reference the Merkle tree is measured against: the recursive definitions of RFC 6962,
  section 2.1 (tree hash, audit path), and the proof that the level-by-level construction of
  \<^verbatim>\<open>New\<close>, \<^verbatim>\<open>Root\<close> and \<^verbatim>\<open>Proof\<close> computes exactly them.
\<close>

unbundle bit_operations_syntax

section \<open>The split point\<close>

text \<open>
  \<open>lp2 n\<close> is the largest power of two smaller than \<open>n\<close> (and 1 for \<open>n < 2\<close>); the
  lemmas \<open>lp2_bounds\<close> and \<open>lp2_power\<close> characterise it.
\<close>

fun lp2 :: "nat \<Rightarrow> nat" where
  "lp2 n = (if n \<le> 2 then 1 else 2 * lp2 ((n + 1) div 2))"

declare lp2.simps [simp del]

lemma lp2_small: "n \<le> 2 \<Longrightarrow> lp2 n = 1"
  by (simp add: lp2.simps)

lemma lp2_double: "2 < n \<Longrightarrow> lp2 n = 2 * lp2 ((n + 1) div 2)"
  by (subst lp2.simps) simp

lemma lp2_bounds: "2 \<le> n \<Longrightarrow> lp2 n < n \<and> n \<le> 2 * lp2 n"
proof (induction n rule: lp2.induct)
  case (1 n)
  show ?case
  proof (cases "n = 2")
    case True
    then show ?thesis by (simp add: lp2_small)
  next
    case False
    with 1(2) have n: "2 < n" by simp
    let ?m = "(n + 1) div 2"
    have "lp2 ?m < ?m \<and> ?m \<le> 2 * lp2 ?m"
      using n by (intro 1(1)) auto
    moreover have "2 * ?m \<le> n + 1" "n \<le> 2 * ?m" by simp_all
    ultimately show ?thesis using lp2_double [OF n] by linarith
  qed
qed

lemma lp2_less: "2 \<le> n \<Longrightarrow> lp2 n < n"
  using lp2_bounds by blast

lemma lp2_pos [simp]: "0 < lp2 n"
  by (induction n rule: lp2.induct) (subst lp2.simps, simp)

lemma lp2_neq_0 [simp]: "lp2 n \<noteq> 0"
  using lp2_pos [of n] by linarith

lemma minus_lp2_less [simp]: "0 < n \<Longrightarrow> n - lp2 n < n"
  by (simp add: diff_less)

lemma lp2_power: "\<exists>e. lp2 n = 2 ^ e"
proof (induction n rule: lp2.induct)
  case (1 n)
  show ?case
  proof (cases "n \<le> 2")
    case True
    then have "lp2 n = 2 ^ 0" by (simp add: lp2_small)
    then show ?thesis by blast
  next
    case False
    with 1 obtain e where "lp2 ((n + 1) div 2) = 2 ^ e" by blast
    with False have "lp2 n = 2 ^ Suc e" by (simp add: lp2_double)
    then show ?thesis by blast
  qed
qed

section \<open>RFC 6962: MTH and PATH\<close>

function rfc_MTH :: "bytes list \<Rightarrow> digest" where
  "rfc_MTH D =
    (if D = [] then sha256_sum []
     else if length D = 1 then leafHash (D ! 0)
     else nodeHash (rfc_MTH (take (lp2 (length D)) D)) (rfc_MTH (drop (lp2 (length D)) D)))"
  by pat_completeness auto
termination
proof (relation "measure length")
  fix D :: "bytes list"
  assume "D \<noteq> []" "length D \<noteq> 1"
  then have "2 \<le> length D" by (cases D) (auto simp: Suc_le_eq)
  then show "(take (lp2 (length D)) D, D) \<in> measure length"
    and "(drop (lp2 (length D)) D, D) \<in> measure length"
    by (auto simp: lp2_less min_less_iff_disj intro!: minus_lp2_less)
qed simp

declare rfc_MTH.simps [simp del]

function rfc_PATH :: "nat \<Rightarrow> bytes list \<Rightarrow> digest list" where
  "rfc_PATH m D =
    (if length D \<le> 1 then []
     else if m < lp2 (length D)
     then rfc_PATH m (take (lp2 (length D)) D) @ [rfc_MTH (drop (lp2 (length D)) D)]
     else rfc_PATH (m - lp2 (length D)) (drop (lp2 (length D)) D) @
          [rfc_MTH (take (lp2 (length D)) D)])"
  by pat_completeness auto
termination
  by (relation "measure (length \<circ> snd)") (auto simp: lp2_less not_le min_less_iff_disj intro!: minus_lp2_less)

declare rfc_PATH.simps [simp del]

section \<open>The same recursions over leaf hashes\<close>

function mth :: "digest list \<Rightarrow> digest" where
  "mth xs =
    (if length xs \<le> 1 then xs ! 0
     else nodeHash (mth (take (lp2 (length xs)) xs)) (mth (drop (lp2 (length xs)) xs)))"
  by pat_completeness auto
termination
  by (relation "measure length") (auto simp: lp2_less not_le min_less_iff_disj intro!: minus_lp2_less)

declare mth.simps [simp del]

lemma rfc_MTH_mth: "D \<noteq> [] \<Longrightarrow> rfc_MTH D = mth (map leafHash D)"
proof (induction D rule: rfc_MTH.induct)
  case (1 D)
  show ?case
  proof (cases "length D = 1")
    case True
    with 1 show ?thesis by (simp add: rfc_MTH.simps [of D] mth.simps [of "map _ D"])
  next
    case False
    with 1 have "2 \<le> length D" by (cases D) (auto simp: Suc_le_eq)
    with lp2_less have "lp2 (length D) < length D" by blast
    with 1 False show ?thesis
      by (simp add: rfc_MTH.simps [of D] mth.simps [of "map _ D"] take_map drop_map)
  qed
qed

lemma pair_level_append:
  "even (length xs) \<Longrightarrow> pair_level (xs @ ys) = pair_level xs @ pair_level ys"
  by (induction xs rule: pair_level.induct) auto

lemma pair_level_eq_Nil [simp]: "pair_level xs = [] \<longleftrightarrow> xs = []"
  by (cases xs rule: pair_level.cases) auto

lemma mth_single [simp]: "mth [x] = x"
  by (simp add: mth.simps)

lemma mth_pair_level: "xs \<noteq> [] \<Longrightarrow> mth (pair_level xs) = mth xs"
proof (induction xs rule: mth.induct)
  case (1 xs)
  let ?n = "length xs" and ?k = "lp2 (length xs)"
  have "?n \<noteq> 0" using 1(3) by simp
  then consider "?n = 1" | "?n = 2" | "2 < ?n"
    by linarith
  then show ?case
  proof cases
    case 1
    then show ?thesis by (auto simp: length_Suc_conv)
  next
    case 2
    then obtain x y where "xs = [x, y]"
      by (auto simp: length_Suc_conv numeral_2_eq_2)
    then show ?thesis by (simp add: mth.simps [of "[x, y]"] lp2_small)
  next
    case 3
    let ?k' = "lp2 ((?n + 1) div 2)"
    have nonempty: "xs \<noteq> []" using 3 by auto
    have k: "?k = 2 * ?k'" "?k < ?n" by (fact lp2_double [OF 3], rule lp2_less) (use 3 in simp)
    have split: "pair_level xs = pair_level (take ?k xs) @ pair_level (drop ?k xs)"
      using pair_level_append [of "take ?k xs" "drop ?k xs"] k by simp
    have len: "length (pair_level (take ?k xs)) = ?k'" using k by simp
    have parts: "take ?k' (pair_level xs) = pair_level (take ?k xs)"
      "drop ?k' (pair_level xs) = pair_level (drop ?k xs)"
      using len by (simp_all only: split take_append drop_append) simp_all
    have "\<not> length (pair_level xs) \<le> 1" using 3 by (simp add: not_le)
    then have "mth (pair_level xs) =
        nodeHash (mth (take ?k' (pair_level xs))) (mth (drop ?k' (pair_level xs)))"
      by (simp add: mth.simps [of "pair_level xs"])
    also have "\<dots> = nodeHash (mth (pair_level (take ?k xs))) (mth (pair_level (drop ?k xs)))"
      by (simp only: parts)
    also have "\<dots> = nodeHash (mth (take ?k xs)) (mth (drop ?k xs))"
      using 3 k 1(1,2) nonempty by simp
    also have "\<dots> = mth xs" using 3 by (simp add: mth.simps [of xs])
    finally show ?thesis .
  qed
qed

lemma build_levels_not_Nil [simp]: "build_levels xs \<noteq> []"
  by (simp add: build_levels.simps [of xs])

lemma last_build_levels: "xs \<noteq> [] \<Longrightarrow> last (build_levels xs) ! 0 = mth xs"
proof (induction xs rule: build_levels.induct)
  case (1 xs)
  show ?case
  proof (cases "length xs > 1")
    case True
    with 1 have "last (build_levels (pair_level xs)) ! 0 = mth (pair_level xs)"
      by simp
    with True 1(2) show ?thesis by (simp add: build_levels.simps [of xs] mth_pair_level)
  next
    case False
    with 1(2) show ?thesis by (simp add: build_levels.simps [of xs] mth.simps [of xs])
  qed
qed

section \<open>One level of an audit path\<close>

lemma pair_level_nth:
  "i < length xs \<Longrightarrow>
   pair_level xs ! (i div 2) =
     (if odd i then nodeHash (xs ! (i - 1)) (xs ! i)
      else if i + 1 < length xs then nodeHash (xs ! i) (xs ! (i + 1))
      else xs ! i)"
proof (induction xs arbitrary: i rule: pair_level.induct)
  case (1 x y rest)
  consider "i = 0" | "i = 1" | j where "i = j + 2"
    by (metis One_nat_def add_2_eq_Suc' not0_implies_Suc)
  then show ?case
  proof cases
    case 3
    with 1(1) [of j] 1(2) show ?thesis by (cases j) auto
  qed auto
qed auto

lemma build_levels_unfold:
  "1 < length xs \<Longrightarrow> \<exists>rest. build_levels (pair_level xs) = pair_level xs # rest \<and>
     build_levels xs = xs # pair_level xs # rest"
  by (simp add: build_levels.simps [of xs] build_levels.simps [of "pair_level xs"])

lemma proof_loop_step:
  assumes "1 < length xs"
  shows "proof_loop (build_levels xs) i =
    (if i mod 2 = 1 \<or> i + 1 < length xs
     then [\<lparr>Hash = xs ! (i XOR 1), IsRight = (i mod 2 = 0)\<rparr>] else []) @
    proof_loop (build_levels (pair_level xs)) (i div 2)"
  using build_levels_unfold [OF assms] by auto

lemma proof_loop_base: "\<not> 1 < length xs \<Longrightarrow> proof_loop (build_levels xs) i = []"
  by (simp add: build_levels.simps [of xs])

definition level_steps :: "digest list \<Rightarrow> nat \<Rightarrow> ProofStep list" where
  "level_steps xs i =
    (if i mod 2 = 1 \<or> i + 1 < length xs
     then [\<lparr>Hash = xs ! (i XOR 1), IsRight = (i mod 2 = 0)\<rparr>] else [])"

lemma xor_Suc_0: "i XOR Suc 0 = (if odd i then i - 1 else i + 1)"
  using xor_one_eq [of i] by simp

lemma level_steps_odd: "odd i \<Longrightarrow> level_steps xs i = [\<lparr>Hash = xs ! (i - 1), IsRight = False\<rparr>]"
  by (simp add: level_steps_def xor_Suc_0 odd_iff_mod_2_eq_one)

lemma level_steps_even:
  "even i \<Longrightarrow> level_steps xs i =
    (if i + 1 < length xs then [\<lparr>Hash = xs ! (i + 1), IsRight = True\<rparr>] else [])"
  by (simp add: level_steps_def xor_Suc_0 even_iff_mod_2_eq_zero)

lemma fold_level_steps:
  assumes "i < length xs"
  shows "fold_path (xs ! i) (level_steps xs i @ rest) = fold_path (pair_level xs ! (i div 2)) rest"
proof (cases "odd i")
  case True
  then show ?thesis by (simp add: level_steps_odd pair_level_nth [OF assms])
next
  case False
  then show ?thesis by (simp add: level_steps_even pair_level_nth [OF assms])
qed

lemma fold_proof_loop:
  "i < length xs \<Longrightarrow> fold_path (xs ! i) (proof_loop (build_levels xs) i) = mth xs"
proof (induction xs arbitrary: i rule: build_levels.induct)
  case (1 xs)
  show ?case
  proof (cases "1 < length xs")
    case True
    have "fold_path (xs ! i) (proof_loop (build_levels xs) i) =
        fold_path (pair_level xs ! (i div 2)) (proof_loop (build_levels (pair_level xs)) (i div 2))"
      using fold_level_steps [OF 1(2)] by (simp only: proof_loop_step [OF True] level_steps_def)
    also have "\<dots> = mth (pair_level xs)"
      using 1 True by (intro 1(1)) auto
    also have "\<dots> = mth xs" using True by (intro mth_pair_level) auto
    finally show ?thesis .
  next
    case False
    with 1(2) have "i = 0" "length xs \<le> 1" by simp_all
    with False show ?thesis by (simp add: proof_loop_base mth.simps [of xs])
  qed
qed

lemma mth_length: "xs \<noteq> [] \<Longrightarrow> (\<forall>x\<in>set xs. length x = 32) \<Longrightarrow> length (mth xs) = 32"
  by (subst mth.simps) simp

section \<open>The audit path of the RFC\<close>

function mpath :: "nat \<Rightarrow> digest list \<Rightarrow> digest list" where
  "mpath m xs =
    (if length xs \<le> 1 then []
     else if m < lp2 (length xs)
     then mpath m (take (lp2 (length xs)) xs) @ [mth (drop (lp2 (length xs)) xs)]
     else mpath (m - lp2 (length xs)) (drop (lp2 (length xs)) xs) @
          [mth (take (lp2 (length xs)) xs)])"
  by pat_completeness auto
termination
  by (relation "measure (length \<circ> snd)") (auto simp: lp2_less not_le min_less_iff_disj intro!: minus_lp2_less)

declare mpath.simps [simp del]

lemma rfc_PATH_mpath: "m < length D \<Longrightarrow> rfc_PATH m D = mpath m (map leafHash D)"
proof (induction m D rule: rfc_PATH.induct)
  case (1 m D)
  show ?case
  proof (cases "length D \<le> 1")
    case True
    then show ?thesis by (simp add: rfc_PATH.simps [of m D] mpath.simps [of m "map _ D"])
  next
    case False
    then have "lp2 (length D) < length D" by (intro lp2_less) simp
    moreover from this have "D \<noteq> []" by auto
    ultimately show ?thesis
      using False 1 by (auto simp: rfc_PATH.simps [of m D] mpath.simps [of m "map _ D"] take_map drop_map
          rfc_MTH_mth not_less)
  qed
qed

lemma level_hashes_take:
  assumes "even k" and "i < k" and "k \<le> length xs"
  shows "level_steps (take k xs) i = level_steps xs i"
proof (cases "odd i")
  case True
  with assms show ?thesis by (simp add: level_steps_odd)
next
  case False
  with assms have "i + 1 < k" by (metis Suc_eq_plus1 Suc_lessI even_Suc)
  with False assms show ?thesis by (simp add: level_steps_even)
qed

lemma level_hashes_drop:
  assumes "even k" and "k \<le> i" and "i < length xs"
  shows "level_steps (drop k xs) (i - k) = level_steps xs i"
proof (cases "odd i")
  case True
  with assms have "i - k \<noteq> 0" "odd (i - k)" by auto
  with True assms show ?thesis by (simp add: level_steps_odd)
next
  case False
  with assms show ?thesis by (auto simp: level_steps_even)
qed

lemma mpath_pair_level:
  "i < length xs \<Longrightarrow> map Hash (level_steps xs i) @ mpath (i div 2) (pair_level xs) = mpath i xs"
proof (induction i xs rule: mpath.induct)
  case (1 i xs)
  let ?n = "length xs" and ?k = "lp2 (length xs)"
  note prem = 1(3)
  from prem consider "?n = 1" | "?n = 2" | "2 < ?n"
    by linarith
  then show ?case
  proof cases
    case 1
    with prem have "i = 0" by simp
    with 1 show ?thesis
      by (simp add: level_steps_even mpath.simps [of 0 xs] mpath.simps [of 0 "pair_level xs"])
  next
    case 2
    then obtain x y where xs: "xs = [x, y]"
      by (auto simp: length_Suc_conv numeral_2_eq_2)
    with prem have "i = 0 \<or> i = 1" by auto
    with xs show ?thesis
      by (auto simp: mpath.simps [of _ "[_, _]"] mpath.simps [of _ "[_]"] lp2_small
          level_steps_even level_steps_odd)
  next
    case 3
    let ?k' = "lp2 (Suc ?n div 2)"
    have k: "?k = 2 * ?k'" "?k < ?n" using lp2_double [OF 3] lp2_less [of ?n] 3 by simp_all
    have split: "pair_level xs = pair_level (take ?k xs) @ pair_level (drop ?k xs)"
      using pair_level_append [of "take ?k xs" "drop ?k xs"] k by simp
    have len: "length (pair_level (take ?k xs)) = ?k'" using k by simp
    have parts: "take ?k' (pair_level xs) = pair_level (take ?k xs)"
      "drop ?k' (pair_level xs) = pair_level (drop ?k xs)"
      using len by (simp_all only: split take_append drop_append) simp_all
    have big: "\<not> length (pair_level xs) \<le> 1" using 3 by (simp add: not_le)
    have mths: "mth (pair_level (take ?k xs)) = mth (take ?k xs)"
      "mth (pair_level (drop ?k xs)) = mth (drop ?k xs)"
      using k 3 by (auto intro!: mth_pair_level)
    show ?thesis
    proof (cases "i < ?k")
      case True
      have "map Hash (level_steps xs i) @ mpath (i div 2) (pair_level (take ?k xs)) = mpath i (take ?k xs)"
        using 1(1) True 3 k by (simp add: level_hashes_take)
      moreover have "i div 2 < ?k'" using True k by simp
      ultimately show ?thesis
        using True 3 big by (simp add: mpath.simps [of i xs] mpath.simps [of _ "pair_level xs"] parts mths)
    next
      case False
      have "map Hash (level_steps xs i) @ mpath ((i - ?k) div 2) (pair_level (drop ?k xs)) = mpath (i - ?k) (drop ?k xs)"
        using 1(2,3) False 3 k by (simp add: level_hashes_drop)
      moreover have "\<not> i div 2 < ?k'" "(i - ?k) div 2 = i div 2 - ?k'" using False k by simp_all
      ultimately show ?thesis
        using False 3 big by (simp add: mpath.simps [of i xs] mpath.simps [of _ "pair_level xs"] parts mths)
    qed
  qed
qed

lemma proof_loop_mpath:
  "i < length xs \<Longrightarrow> map Hash (proof_loop (build_levels xs) i) = mpath i xs"
proof (induction xs arbitrary: i rule: build_levels.induct)
  case (1 xs)
  show ?case
  proof (cases "1 < length xs")
    case True
    have "map Hash (proof_loop (build_levels xs) i) =
        map Hash (level_steps xs i) @ map Hash (proof_loop (build_levels (pair_level xs)) (i div 2))"
      by (simp only: proof_loop_step [OF True] level_steps_def map_append)
    also have "\<dots> = map Hash (level_steps xs i) @ mpath (i div 2) (pair_level xs)"
      using 1 True by simp
    also have "\<dots> = mpath i xs" using 1(2) by (rule mpath_pair_level)
    finally show ?thesis .
  next
    case False
    then show ?thesis by (simp add: proof_loop_base mpath.simps [of i xs])
  qed
qed

section \<open>The side markers of a path\<close>

text \<open>
  \<open>sides i n\<close> is \<^verbatim>\<open>proofSideSequence\<close> without machine words; they agree for every tree size
  below \<open>2 ^ 64 - 1\<close>.
\<close>

function sides :: "nat \<Rightarrow> nat \<Rightarrow> bool list" where
  "sides i n =
    (if n > 1
     then (if i mod 2 = 1 \<or> i + 1 < n then [i mod 2 = 0] else []) @ sides (i div 2) ((n + 1) div 2)
     else [])"
  by pat_completeness auto
termination
  by (relation "measure snd") auto

declare sides.simps [simp del]

lemma unat_mod2: "unat (w mod 2 :: u64) = unat w mod 2"
  by (simp add: unat_mod)

lemma side_loop_sides:
  "unat i < unat n \<Longrightarrow> unat n < 2 ^ 64 - 1 \<Longrightarrow> side_loop i n = sides (unat i) (unat n)"
proof (induction i n rule: side_loop.induct)
  case (1 i n)
  have suc: "unat (i + 1) = unat i + 1" "unat (n + 1) = unat n + 1"
    using "1.prems" by (simp_all add: unat_word_ariths)
  have m: "(i mod 2 = 1) = (unat i mod 2 = 1)" "(i mod 2 = 0) = (unat i mod 2 = 0)"
    by (simp_all add: word_unat_eq_iff unat_mod)
  have d: "unat (i div 2) = unat i div 2" "unat ((n + 1) div 2) = (unat n + 1) div 2"
    using suc by (simp_all add: unat_div)
  show ?case
  proof (cases "n > 1")
    case True
    then have n: "1 < unat n" by (simp add: word_less_nat_alt)
    have "unat i div 2 < (unat n + 1) div 2" "(unat n + 1) div 2 < 2 ^ 64 - 1"
      using "1.prems" n by simp_all
    then have "side_loop (i div 2) ((n + 1) div 2) = sides (unat (i div 2)) (unat ((n + 1) div 2))"
      by (intro "1.IH" True) (simp_all only: d)
    with True n suc m d show ?thesis
      by (simp add: side_loop.simps [of i n] sides.simps [of "unat i"] word_less_nat_alt)
  next
    case False
    then show ?thesis
      by (simp add: side_loop.simps [of i n] sides.simps [of "unat i"] word_less_nat_alt)
  qed
qed

lemma proof_loop_sides:
  "map IsRight (proof_loop (build_levels xs) i) = sides i (length xs)"
proof (induction xs arbitrary: i rule: build_levels.induct)
  case (1 xs)
  show ?case
  proof (cases "1 < length xs")
    case True
    then show ?thesis
      by (simp add: proof_loop_step 1(1) sides.simps [of i "length xs"])
  next
    case False
    then show ?thesis by (simp add: proof_loop_base sides.simps [of i "length xs"])
  qed
qed

section \<open>Properties\<close>

text \<open>
  C6: \<^verbatim>\<open>New\<close> fails exactly on the empty leaf list, with \<^verbatim>\<open>ErrEmptyTree\<close>; otherwise the root of
  the tree it builds is the 32-byte RFC 6962 Merkle tree hash of the leaves, and \<^verbatim>\<open>Size\<close> is
  their number.
\<close>

theorem merkle_root_is_rfc:
  "case merkle_New leaves of
     Inl e \<Rightarrow> leaves = [] \<and> e = ErrEmptyTree
   | Inr t \<Rightarrow> leaves \<noteq> [] \<and> Root t = rfc_MTH leaves \<and> length (Root t) = 32 \<and>
       Size t = int (length leaves)"
proof (cases "leaves = []")
  case True
  then show ?thesis by (simp add: merkle_New_def)
next
  case False
  moreover from False have "length (mth (map leafHash leaves)) = 32"
    by (intro mth_length) auto
  ultimately show ?thesis
    by (simp add: merkle_New_def Root_def Size_def last_build_levels rfc_MTH_mth)
qed

text \<open>
  for a built tree, \<^verbatim>\<open>Proof\<close> returns \<^verbatim>\<open>ErrIndexOutOfRange\<close> outside the leaf range and
  otherwise the RFC 6962 audit path of the leaf, with which \<^verbatim>\<open>Verify\<close> accepts that leaf under
  the tree's root.
\<close>

theorem merkle_path_is_rfc:
  assumes "merkle_New leaves = Inr t"
  shows "if 0 \<le> i \<and> i < int (length leaves)
    then \<exists>path. merkle_Proof t i = Inr path \<and> map Hash path = rfc_PATH (nat i) leaves \<and>
      merkle_Verify (Root t) (leaves ! nat i) path
    else merkle_Proof t i = Inl ErrIndexOutOfRange"
proof (cases "0 \<le> i \<and> i < int (length leaves)")
  case True
  let ?xs = "map leafHash leaves"
  have t: "levels t = build_levels ?xs" "tsize t = length leaves" "?xs \<noteq> []"
    using assms by (auto simp: merkle_New_def split: if_splits)
  have i: "nat i < length leaves" using True by linarith
  have root: "Root t = mth ?xs" "length (mth ?xs) = 32"
    using t by (auto simp: Root_def last_build_levels intro!: mth_length)
  have "fold_path (?xs ! nat i) (proof_loop (build_levels ?xs) (nat i)) = mth ?xs"
    using i by (intro fold_proof_loop) simp
  then have "merkle_Verify (Root t) (leaves ! nat i) (proof_loop (levels t) (nat i))"
    using i root t by (simp add: merkle_Verify_def)
  with True i t show ?thesis
    by (simp add: merkle_Proof_def proof_loop_mpath rfc_PATH_mpath)
next
  case False
  with assms show ?thesis by (auto simp: merkle_Proof_def merkle_New_def split: if_splits)
qed

theorem merkle_path_is_rfc_witness:
  "\<exists>t path. merkle_New [[1], [2], [3]] = Inr t \<and> merkle_Proof t 2 = Inr path \<and>
     map Hash path = rfc_PATH 2 [[1], [2], [3]] \<and> merkle_Verify (Root t) [3] path"
proof -
  obtain t where t: "merkle_New [[1], [2], [3]] = Inr t" by (simp add: merkle_New_def)
  from merkle_path_is_rfc [OF t, of 2] t show ?thesis by auto
qed

end
