(* ===== verification/Merkle_Inclusion.thy ===== *)
theory Merkle_Inclusion
  imports Merkle_Rfc
begin

text \<open>
  Inclusion proofs: \<^verbatim>\<open>VerifyInclusion\<close> accepts what \<^verbatim>\<open>Proof\<close> produced, and accepts nothing
  else for the claimed position unless two inputs that were hashed collide under SHA-256. The
  inputs are listed explicitly: those the verifier hashes and those of the committed tree.
\<close>

section \<open>The inputs of the hash function\<close>

fun path_inputs :: "digest \<Rightarrow> ProofStep list \<Rightarrow> bytes list" where
  "path_inputs h [] = []"
| "path_inputs h (step # steps) =
    (let x = (if IsRight step then nodePrefix # h @ Hash step else nodePrefix # Hash step @ h)
     in x # path_inputs (sha256_sum x) steps)"

fun pair_inputs :: "digest list \<Rightarrow> bytes list" where
  "pair_inputs (x # y # rest) = (nodePrefix # x @ y) # pair_inputs rest"
| "pair_inputs _ = []"

function level_inputs :: "digest list \<Rightarrow> bytes list" where
  "level_inputs xs =
    pair_inputs xs @ (if length xs > 1 then level_inputs (pair_level xs) else [])"
  by pat_completeness auto
termination
  by (relation "measure length") auto

declare level_inputs.simps [simp del]

definition verify_inputs :: "bytes \<Rightarrow> ProofStep list \<Rightarrow> bytes list" where
  "verify_inputs leaf path = (leafPrefix # leaf) # path_inputs (leafHash leaf) path"

definition tree_inputs :: "bytes list \<Rightarrow> bytes list" where
  "tree_inputs leaves = map ((#) leafPrefix) leaves @ level_inputs (map leafHash leaves)"

definition collision_between :: "bytes list \<Rightarrow> bytes list \<Rightarrow> bool" where
  "collision_between xs ys \<longleftrightarrow> (\<exists>x\<in>set xs. \<exists>y\<in>set ys. collides sha256_sum x y)"

lemma collision_betweenI:
  "collides sha256_sum x y \<Longrightarrow> x \<in> set xs \<Longrightarrow> y \<in> set ys \<Longrightarrow> collision_between xs ys"
  by (auto simp: collision_between_def)

lemma collision_between_mono:
  "collision_between xs ys \<Longrightarrow> set xs \<subseteq> set xs' \<Longrightarrow> set ys \<subseteq> set ys' \<Longrightarrow> collision_between xs' ys'"
  by (auto simp: collision_between_def)

lemma pair_inputs_nth:
  "even i \<Longrightarrow> i + 1 < length xs \<Longrightarrow> nodePrefix # xs ! i @ xs ! (i + 1) \<in> set (pair_inputs xs)"
proof (induction xs arbitrary: i rule: pair_inputs.induct)
  case (1 x y rest)
  show ?case
  proof (cases "i = 0")
    case False
    then obtain a where "i = Suc a" by (cases i) auto
    with 1(2) obtain j where "i = Suc (Suc j)" by (cases a) auto
    with 1 show ?thesis by auto
  qed simp
qed auto

lemma pair_level_lengths:
  "\<forall>x\<in>set xs. length x = 32 \<Longrightarrow> \<forall>x\<in>set (pair_level xs). length x = 32"
  by (induction xs rule: pair_level.induct) auto

lemma nodeHash_inj:
  assumes "nodeHash l r = nodeHash l' r'" and "length l = 32" "length l' = 32"
  shows "(l = l' \<and> r = r') \<or> collides sha256_sum (nodePrefix # l @ r) (nodePrefix # l' @ r')"
  using assms by (intro sha.tagged_pair) (simp_all add: nodeHash_def)

lemma proof_loop_lengths:
  "\<forall>x\<in>set xs. length x = 32 \<Longrightarrow> i < length xs \<Longrightarrow>
   \<forall>s\<in>set (proof_loop (build_levels xs) i). length (Hash s) = 32"
proof (induction xs arbitrary: i rule: build_levels.induct)
  case (1 xs)
  show ?case
  proof (cases "1 < length xs")
    case True
    have "\<forall>s\<in>set (level_steps xs i). length (Hash s) = 32"
      using 1(2,3) by (cases "odd i") (auto simp: level_steps_odd level_steps_even)
    moreover have "\<forall>s\<in>set (proof_loop (build_levels (pair_level xs)) (i div 2)). length (Hash s) = 32"
      using 1 True pair_level_lengths [OF 1(2)] by (intro "1.IH") simp_all
    ultimately show ?thesis by (auto simp: proof_loop_step [OF True] level_steps_def)
  qed (simp add: proof_loop_base)
qed

section \<open>Soundness of recomputing the root\<close>

definition step_input :: "ProofStep \<Rightarrow> digest \<Rightarrow> bytes" where
  "step_input s h = (if IsRight s then nodePrefix # h @ Hash s else nodePrefix # Hash s @ h)"

lemma fold_path_Cons: "fold_path h (s # ss) = fold_path (sha256_sum (step_input s h)) ss"
  by (simp add: step_input_def nodeHash_def)

lemma path_inputs_Cons:
  "path_inputs h (s # ss) = step_input s h # path_inputs (sha256_sum (step_input s h)) ss"
  by (simp add: step_input_def Let_def)

text \<open>The node a step recomputes is a node of the level above only for the true sibling pair.\<close>

lemma step_sound:
  assumes i: "i < length xs" "i mod 2 = 1 \<or> i + 1 < length xs" and s: "IsRight s = (i mod 2 = 0)"
    and len: "\<forall>x\<in>set xs. length x = 32" "length (Hash s) = 32" "length h = 32"
    and eq: "sha256_sum (step_input s h) = pair_level xs ! (i div 2)"
  shows "h = xs ! i \<or> (\<exists>y\<in>set (pair_inputs xs). collides sha256_sum (step_input s h) y)"
proof -
  define j where "j = 2 * (i div 2)"
  define l r where "l = (if IsRight s then h else Hash s)" and "r = (if IsRight s then Hash s else h)"
  have input: "step_input s h = nodePrefix # l @ r" by (simp add: step_input_def l_def r_def)
  have j: "even j" "j + 1 < length xs" and ij: "i = (if IsRight s then j else j + 1)"
    using i s by (auto simp: j_def) presburger+
  have "pair_level xs ! (i div 2) = nodeHash (xs ! j) (xs ! (j + 1))"
    using pair_level_nth [of j xs] j by (simp add: j_def)
  with eq have "nodeHash l r = nodeHash (xs ! j) (xs ! (j + 1))"
    by (simp add: input nodeHash_def)
  then have "(l = xs ! j \<and> r = xs ! (j + 1)) \<or>
      collides sha256_sum (nodePrefix # l @ r) (nodePrefix # xs ! j @ xs ! (j + 1))"
    using len j by (intro nodeHash_inj) (auto simp: l_def)
  then show ?thesis
    using pair_inputs_nth [OF j] by (auto simp: input l_def r_def ij split: if_splits)
qed

lemma sides_step:
  assumes "1 < length xs" and "map IsRight path = sides i (length xs)"
    and "i mod 2 = 1 \<or> i + 1 < length xs"
  obtains s ss where "path = s # ss" and "IsRight s = (i mod 2 = 0)"
    and "map IsRight ss = sides (i div 2) (length (pair_level xs))"
  using assms by (auto simp: sides.simps [of i "length xs"] map_eq_Cons_conv)

lemma sides_skip:
  assumes "1 < length xs" and "\<not> (i mod 2 = 1 \<or> i + 1 < length xs)"
  shows "sides i (length xs) = sides (i div 2) (length (pair_level xs))"
  using assms by (simp add: sides.simps [of i "length xs"])

lemma level_inputs_subset:
  "1 < length xs \<Longrightarrow> set (level_inputs (pair_level xs)) \<subseteq> set (level_inputs xs)"
  "set (pair_inputs xs) \<subseteq> set (level_inputs xs)"
  by (auto simp: level_inputs.simps [of xs])

lemma fold_path_sound:
  assumes "fold_path h path = mth xs" and "map IsRight path = sides i (length xs)"
    and "i < length xs" and "\<forall>x\<in>set xs. length x = 32" and "\<forall>s\<in>set path. length (Hash s) = 32"
    and "length h = 32"
  shows "h = xs ! i \<or> collision_between (path_inputs h path) (level_inputs xs)"
  using assms
proof (induction xs arbitrary: i h path rule: build_levels.induct)
  case (1 xs)
  show ?case
  proof (cases "1 < length xs")
    case False
    with 1 have "i = 0" "path = []" "length xs \<le> 1"
      by (auto simp: sides.simps [of i "length xs"])
    with 1 show ?thesis by (simp add: mth.simps [of xs])
  next
    case big: True
    have top: "mth xs = mth (pair_level xs)" using big by (intro mth_pair_level [symmetric]) auto
    note lens = pair_level_lengths [OF "1.prems"(4)] and sub = level_inputs_subset [of xs]
    have half: "i div 2 < length (pair_level xs)" using "1.prems"(3) by simp
    show ?thesis
    proof (cases "i mod 2 = 1 \<or> i + 1 < length xs")
      case False
      then have "h = pair_level xs ! (i div 2) \<or>
          collision_between (path_inputs h path) (level_inputs (pair_level xs))"
        using 1 big top half lens sides_skip by (intro "1.IH") simp_all
      moreover have "pair_level xs ! (i div 2) = xs ! i"
        using False "1.prems"(3) by (simp add: pair_level_nth odd_iff_mod_2_eq_one)
      ultimately show ?thesis using sub big by (auto intro: collision_between_mono)
    next
      case True
      from sides_step [OF big "1.prems"(2) True] obtain s ss where path: "path = s # ss"
        and s: "IsRight s = (i mod 2 = 0)"
        and ss: "map IsRight ss = sides (i div 2) (length (pair_level xs))" .
      let ?h = "sha256_sum (step_input s h)"
      have "?h = pair_level xs ! (i div 2) \<or>
          collision_between (path_inputs ?h ss) (level_inputs (pair_level xs))"
        using 1 big top half lens ss unfolding path fold_path_Cons by (intro "1.IH") simp_all
      moreover have "h = xs ! i \<or> (\<exists>y\<in>set (pair_inputs xs). collides sha256_sum (step_input s h) y)"
        if "?h = pair_level xs ! (i div 2)"
        using 1 True s that path by (intro step_sound) simp_all
      ultimately show ?thesis
        unfolding path path_inputs_Cons using sub big
        by (metis collision_betweenI collision_between_mono list.set_intros(1) set_subset_Cons subsetD)
    qed
  qed
qed

section \<open>The wire form of proof elements\<close>

text \<open>
  \<^verbatim>\<open>commitment.VerifyInclusion\<close> renders each step as a side byte followed by the sibling hash;
  \<^verbatim>\<open>decodeProof\<close> is its exact inverse.
\<close>

definition encode_elem :: "ProofStep \<Rightarrow> bytes" where
  "encode_elem step = (if IsRight step then 0x01 else 0x00) # Hash step"

lemma decode_encode_elem: "length (Hash s) = 32 \<Longrightarrow> decode_elem (encode_elem s) = Inr s"
  by (cases s) (simp add: decode_elem_def encode_elem_def proofElemLen_def sideLeft_def sideRight_def)

lemma encode_decode_elem:
  assumes "decode_elem e = Inr s"
  shows "encode_elem s = e" and "length (Hash s) = 32"
proof -
  from assms obtain b h where e: "e = b # h" "length h = 32"
    by (cases e) (auto simp: decode_elem_def proofElemLen_def split: if_splits)
  with assms show "encode_elem s = e" and "length (Hash s) = 32"
    by (auto simp: decode_elem_def encode_elem_def proofElemLen_def sideLeft_def sideRight_def
        split: if_splits)
qed

lemma decodeProof_Inr:
  "decodeProof elems = Inr path \<longleftrightarrow> elems = map encode_elem path \<and> (\<forall>s\<in>set path. length (Hash s) = 32)"
proof
  assume "decodeProof elems = Inr path"
  then show "elems = map encode_elem path \<and> (\<forall>s\<in>set path. length (Hash s) = 32)"
    unfolding decodeProof_def smap_Inr_conv
    by (induction elems path rule: list_all2_induct) (auto dest: encode_decode_elem)
next
  assume "elems = map encode_elem path \<and> (\<forall>s\<in>set path. length (Hash s) = 32)"
  then show "decodeProof elems = Inr path"
    unfolding decodeProof_def smap_Inr_conv
    by (auto simp: list_all2_conv_all_nth decode_encode_elem)
qed

interpretation proof_codec: canonical_codec "map encode_elem" "\<lambda>p. sum_option (decodeProof p)"
    "\<lambda>path. \<forall>s\<in>set path. length (Hash s) = 32"
  by unfold_locales (auto simp: decodeProof_Inr)

text \<open>What an accepting run of \<^verbatim>\<open>VerifyInclusion\<close> has checked.\<close>

lemma all_nth_map_eq:
  "length xs = length ys \<Longrightarrow> \<not> (\<exists>i<length xs. f (xs ! i) \<noteq> ys ! i) \<longleftrightarrow> map f xs = ys"
  by (auto simp: list_eq_iff_nth_eq)

lemma merkle_VerifyInclusion_Inr:
  "merkle_VerifyInclusion root index treeSize leaf elems = Inr () \<longleftrightarrow>
   index < treeSize \<and>
   (\<exists>path. elems = map encode_elem path \<and> (\<forall>s\<in>set path. length (Hash s) = 32) \<and>
      map IsRight path = proofSideSequence index treeSize \<and> merkle_Verify root leaf path)"
  (is "?L \<longleftrightarrow> ?R")
proof (cases "decodeProof elems")
  case (Inl e)
  moreover have "\<not> (\<exists>path. decodeProof elems = Inr path)" using Inl by simp
  then have "\<not> ?R" by (auto simp: decodeProof_Inr)
  ultimately show ?thesis by (simp add: merkle_VerifyInclusion_def)
next
  case (Inr path)
  then have p: "elems = map encode_elem path" "\<forall>s\<in>set path. length (Hash s) = 32"
    by (auto simp: decodeProof_Inr)
  have uniq: "path' = path" if "elems = map encode_elem path'" "\<forall>s\<in>set path'. length (Hash s) = 32" for path'
    using proof_codec.enc_inj [of path' path] that p by simp
  have "?L \<longleftrightarrow> index < treeSize \<and> length path = length (proofSideSequence index treeSize) \<and>
      \<not> (\<exists>i<length path. IsRight (path ! i) \<noteq> proofSideSequence index treeSize ! i) \<and>
      merkle_Verify root leaf path"
    using Inr by (auto simp: merkle_VerifyInclusion_def Let_def not_le)
  also have "\<dots> \<longleftrightarrow> index < treeSize \<and> map IsRight path = proofSideSequence index treeSize \<and>
      merkle_Verify root leaf path"
    using all_nth_map_eq [of path "proofSideSequence index treeSize" IsRight]
    by (metis length_map)
  also have "\<dots> \<longleftrightarrow> ?R" using p uniq by blast
  finally show ?thesis .
qed

lemma VerifyInclusion_of_Proof:
  assumes "merkle_New leaves = Inr t" and "i < length leaves" and "length leaves < 2 ^ 64 - 1"
  shows "\<exists>path. merkle_Proof t (int i) = Inr path \<and>
    merkle_VerifyInclusion (Root t) (word_of_nat i) (word_of_nat (length leaves)) (leaves ! i)
      (map encode_elem path) = Inr ()"
proof -
  let ?xs = "map leafHash leaves" and ?n = "length leaves"
  let ?path = "proof_loop (build_levels ?xs) i"
  have t: "levels t = build_levels ?xs" "tsize t = ?n" "?xs \<noteq> []"
    using assms(1) by (auto simp: merkle_New_def split: if_splits)
  have root: "Root t = mth ?xs" "length (mth ?xs) = 32"
    using t by (auto simp: Root_def last_build_levels intro!: mth_length)
  have u: "unat (word_of_nat ?n :: u64) = ?n" "unat (word_of_nat i :: u64) = i"
    using assms(2,3) by (simp_all add: unat_of_nat)
  have "fold_path (?xs ! i) ?path = mth ?xs"
    using assms(2) by (intro fold_proof_loop) simp
  then have "merkle_Verify (Root t) (leaves ! i) ?path"
    using assms(2) root by (simp add: merkle_Verify_def)
  moreover have "map IsRight ?path = proofSideSequence (word_of_nat i) (word_of_nat ?n)"
    using side_loop_sides [of "word_of_nat i" "word_of_nat ?n"] assms(2,3) u
    by (simp add: proofSideSequence_def proof_loop_sides)
  moreover have "\<forall>s\<in>set ?path. length (Hash s) = 32"
    using proof_loop_lengths [of ?xs i] assms(2) by simp
  moreover have "word_of_nat i < (word_of_nat ?n :: u64)"
    using assms(2) u by (simp add: word_less_nat_alt)
  moreover have "merkle_Proof t (int i) = Inr ?path"
    using assms(2) t by (simp add: merkle_Proof_def)
  ultimately show ?thesis unfolding merkle_VerifyInclusion_Inr by blast
qed

lemma VerifyInclusion_binds:
  assumes "merkle_New leaves = Inr t" and "length leaves < 2 ^ 64 - 1"
    and "merkle_VerifyInclusion (Root t) index (word_of_nat (length leaves)) leaf elems = Inr ()"
  shows "\<exists>path. decodeProof elems = Inr path \<and>
    (leaf = leaves ! unat index \<or> collision_between (verify_inputs leaf path) (tree_inputs leaves))"
proof -
  let ?xs = "map leafHash leaves" and ?n = "length leaves"
  have t: "levels t = build_levels ?xs" "?xs \<noteq> []"
    using assms(1) by (auto simp: merkle_New_def split: if_splits)
  have root: "Root t = mth ?xs" using t by (simp add: Root_def last_build_levels)
  have u: "unat (word_of_nat ?n :: u64) = ?n" using assms(2) by (simp add: unat_of_nat)
  from assms(3) obtain path where path: "elems = map encode_elem path" "\<forall>s\<in>set path. length (Hash s) = 32"
    and i: "unat index < ?n" and sd: "map IsRight path = proofSideSequence index (word_of_nat ?n)"
    and ver: "merkle_Verify (Root t) leaf path"
    unfolding merkle_VerifyInclusion_Inr by (auto simp: word_less_nat_alt u)
  have "map IsRight path = sides (unat index) (length ?xs)"
    using sd side_loop_sides [of index "word_of_nat ?n"] i assms(2) u by (simp add: proofSideSequence_def)
  moreover have "fold_path (leafHash leaf) path = mth ?xs"
    using ver root by (simp add: merkle_Verify_def split: if_splits)
  ultimately have "leafHash leaf = ?xs ! unat index \<or>
      collision_between (path_inputs (leafHash leaf) path) (level_inputs ?xs)"
    using i path(2) by (intro fold_path_sound) auto
  moreover have "leaf = leaves ! unat index \<or>
      collides sha256_sum (leafPrefix # leaf) (leafPrefix # leaves ! unat index)"
    if "leafHash leaf = ?xs ! unat index"
    using that i by (intro sha.tagged) (simp add: leafHash_def)
  ultimately have "leaf = leaves ! unat index \<or> collision_between (verify_inputs leaf path) (tree_inputs leaves)"
    using i by (auto simp: verify_inputs_def tree_inputs_def intro: collision_betweenI collision_between_mono)
  then show ?thesis using path by (auto simp: decodeProof_Inr)
qed

section \<open>Position binding as an interface\<close>

text \<open>
  What a client of the tree relies on: the path made for a position is accepted there, and an
  accepted leaf is the one at its position or the scheme is broken by an exhibited collision.
\<close>

locale position_binding =
  fixes root_of :: "bytes list \<Rightarrow> digest"
    and path_of :: "bytes list \<Rightarrow> nat \<Rightarrow> 'p"
    and accepts :: "digest \<Rightarrow> u64 \<Rightarrow> u64 \<Rightarrow> bytes \<Rightarrow> 'p \<Rightarrow> bool"
    and broken :: "bytes list \<Rightarrow> bytes \<Rightarrow> 'p \<Rightarrow> bool"
    and size_ok :: "nat \<Rightarrow> bool"
  assumes path_accepted: "size_ok (length xs) \<Longrightarrow> i < length xs \<Longrightarrow>
      accepts (root_of xs) (word_of_nat i) (word_of_nat (length xs)) (xs ! i) (path_of xs i)"
    and accepted_bound: "size_ok (length xs) \<Longrightarrow> xs \<noteq> [] \<Longrightarrow>
      accepts (root_of xs) k (word_of_nat (length xs)) y p \<Longrightarrow>
      unat k < length xs \<and> (y = xs ! unat k \<or> broken xs y p)"
begin

lemma accepted_member:
  "size_ok (length xs) \<Longrightarrow> xs \<noteq> [] \<Longrightarrow> accepts (root_of xs) i (word_of_nat (length xs)) y p \<Longrightarrow>
   y \<in> set xs \<or> broken xs y p"
  using accepted_bound by fastforce

lemma accepted_unique:
  assumes "size_ok (length xs)" and "xs \<noteq> []" and "distinct xs"
    and "accepts (root_of xs) i (word_of_nat (length xs)) y p"
    and "accepts (root_of xs) j (word_of_nat (length xs)) y q"
  shows "i = j \<or> broken xs y p \<or> broken xs y q"
proof -
  have "unat i < length xs \<and> (y = xs ! unat i \<or> broken xs y p)"
    "unat j < length xs \<and> (y = xs ! unat j \<or> broken xs y q)"
    using assms accepted_bound by blast+
  then show ?thesis using assms(3) nth_eq_iff_index_eq word_unat_eq_iff by metis
qed

end

definition merkle_root_of :: "bytes list \<Rightarrow> digest" where
  "merkle_root_of leaves = mth (map leafHash leaves)"

definition merkle_elems_of :: "bytes list \<Rightarrow> nat \<Rightarrow> bytes list" where
  "merkle_elems_of leaves i = map encode_elem (proof_loop (build_levels (map leafHash leaves)) i)"

definition merkle_broken :: "bytes list \<Rightarrow> bytes \<Rightarrow> bytes list \<Rightarrow> bool" where
  "merkle_broken leaves leaf elems \<longleftrightarrow>
    (\<exists>path. decodeProof elems = Inr path \<and> collision_between (verify_inputs leaf path) (tree_inputs leaves))"

lemma Root_New: "merkle_New leaves = Inr t \<Longrightarrow> Root t = merkle_root_of leaves"
  by (auto simp: merkle_New_def Root_def merkle_root_of_def last_build_levels split: if_splits)

lemma Proof_New:
  "merkle_New leaves = Inr t \<Longrightarrow> i < length leaves \<Longrightarrow>
   merkle_Proof t (int i) = Inr (proof_loop (build_levels (map leafHash leaves)) i)"
  by (auto simp: merkle_New_def merkle_Proof_def split: if_splits)

interpretation merkle_pb: position_binding merkle_root_of merkle_elems_of
    "\<lambda>root index size leaf elems. merkle_VerifyInclusion root index size leaf elems = Inr ()"
    merkle_broken "\<lambda>n. n < 2 ^ 64 - 1"
proof unfold_locales
  fix xs :: "bytes list" and i
  assume "length xs < 2 ^ 64 - 1" "i < length xs"
  moreover from this have "xs \<noteq> []" by auto
  then obtain t where "merkle_New xs = Inr t" by (simp add: merkle_New_def)
  ultimately show "merkle_VerifyInclusion (merkle_root_of xs) (word_of_nat i) (word_of_nat (length xs)) (xs ! i)
      (merkle_elems_of xs i) = Inr ()"
    using VerifyInclusion_of_Proof [of xs t i] Proof_New Root_New by (force simp: merkle_elems_of_def)
next
  fix xs :: "bytes list" and i y p
  assume n: "length xs < 2 ^ 64 - 1" "xs \<noteq> []"
    and v: "merkle_VerifyInclusion (merkle_root_of xs) i (word_of_nat (length xs)) y p = Inr ()"
  then have "i < word_of_nat (length xs)" by (auto simp: merkle_VerifyInclusion_Inr)
  moreover have "unat (word_of_nat (length xs) :: u64) = length xs" using n(1) by (simp add: unat_of_nat)
  ultimately have "unat i < length xs" by (simp add: word_less_nat_alt)
  moreover obtain t where "merkle_New xs = Inr t" using n(2) by (simp add: merkle_New_def)
  ultimately show "unat i < length xs \<and> (y = xs ! unat i \<or> merkle_broken xs y p)"
    using VerifyInclusion_binds [of xs t i y p] n v Root_New by (auto simp: merkle_broken_def)
qed

section \<open>Properties\<close>

text \<open>
  every leaf of a built tree of 32-byte leaves is accepted by \<^verbatim>\<open>VerifyInclusion\<close> at its own
  index, with the audit path \<^verbatim>\<open>Proof\<close> returns in its wire form.
\<close>

theorem merkle_inclusion_complete:
  assumes "merkle_New leaves = Inr t" and "i < length leaves" and "length leaves < 2 ^ 64 - 1"
  shows "\<exists>path. merkle_Proof t (int i) = Inr path \<and>
    merkle_VerifyInclusion (Root t) (word_of_nat i) (word_of_nat (length leaves)) (leaves ! i)
      (map encode_elem path) = Inr ()"
  using assms by (rule VerifyInclusion_of_Proof)

theorem merkle_inclusion_complete_witness:
  "\<exists>t path. merkle_New [replicate 32 7, replicate 32 8, replicate 32 9] = Inr t \<and>
     merkle_Proof t 1 = Inr path \<and>
     merkle_VerifyInclusion (Root t) 1 3 (replicate 32 8) (map encode_elem path) = Inr ()"
proof -
  let ?l = "[replicate 32 7, replicate 32 8, replicate 32 9] :: bytes list"
  obtain t where t: "merkle_New ?l = Inr t" by (simp add: merkle_New_def)
  from merkle_inclusion_complete [OF t, of 1] t show ?thesis by auto
qed

text \<open>
  C4: if \<^verbatim>\<open>VerifyInclusion\<close> accepts a leaf at an index under the root of a built tree of that
  size, then it is the leaf at that index, or one of the inputs hashed by the verifier collides
  under SHA-256 with one of the inputs hashed when the tree was built.
\<close>

theorem merkle_inclusion_sound:
  assumes "merkle_New leaves = Inr t" and "length leaves < 2 ^ 64 - 1"
    and "merkle_VerifyInclusion (Root t) index (word_of_nat (length leaves)) leaf elems = Inr ()"
  shows "\<exists>path. decodeProof elems = Inr path \<and>
    (leaf = leaves ! unat index \<or> collision_between (verify_inputs leaf path) (tree_inputs leaves))"
  using assms by (rule VerifyInclusion_binds)

theorem merkle_inclusion_sound_witness:
  "\<exists>t elems path. merkle_New [replicate 32 7, replicate 32 8] = Inr t \<and>
     merkle_VerifyInclusion (Root t) 0 2 (replicate 32 7) elems = Inr () \<and>
     decodeProof elems = Inr path \<and>
     (replicate 32 7 = [replicate 32 7, replicate 32 8] ! unat (0 :: u64) \<or>
      collision_between (verify_inputs (replicate 32 7) path)
        (tree_inputs [replicate 32 7, replicate 32 8]))"
proof -
  let ?l = "[replicate 32 7, replicate 32 8] :: bytes list"
  let ?p = "[\<lparr>Hash = leafHash (replicate 32 8), IsRight = True\<rparr>]"
  have sides: "proofSideSequence 0 2 = [True]"
    by (simp add: proofSideSequence_def side_loop.simps [of 0 2] side_loop.simps [of 0 1])
  obtain t where t: "merkle_New ?l = Inr t" by (simp add: merkle_New_def)
  then have root: "Root t = nodeHash (leafHash (replicate 32 7)) (leafHash (replicate 32 8))"
    by (auto simp: merkle_New_def Root_def build_levels.simps [of "[_, _]"] build_levels.simps [of "[_]"])
  have v: "merkle_VerifyInclusion (Root t) 0 (word_of_nat (length ?l)) (replicate 32 7) (map encode_elem ?p) = Inr ()"
    unfolding merkle_VerifyInclusion_Inr by (auto simp: root sides merkle_Verify_def intro!: exI [of _ ?p])
  from merkle_inclusion_sound [OF t _ v] t v show ?thesis by auto
qed

text \<open>
  C18: the claimed tree size is not bound at \<open>2 ^ 64 - 1\<close> (what \<^verbatim>\<open>uint64(-1)\<close> gives): the size
  counter of \<^verbatim>\<open>proofSideSequence\<close> wraps to zero after one level, so the proof of the first of
  two leaves is accepted at every even index with a right neighbour.
\<close>

theorem merkle_inclusion_size_wraps:
  assumes "merkle_New [a, b] = Inr t" and "index mod 2 = 0" and "index + 1 < - 1"
  shows "merkle_VerifyInclusion (Root t) index (- 1) a
    [encode_elem \<lparr>Hash = leafHash b, IsRight = True\<rparr>] = Inr ()"
proof -
  let ?p = "[\<lparr>Hash = leafHash b, IsRight = True\<rparr>]"
  have root: "Root t = nodeHash (leafHash a) (leafHash b)"
    using assms(1)
    by (auto simp: merkle_New_def Root_def build_levels.simps [of "[_, _]"] build_levels.simps [of "[_]"])
  have "index \<noteq> - 1" using assms(2) by auto
  then have lt: "index < - 1" by (simp add: word_order.not_eq_extremum)
  have "(1 :: u64) < - 1" by (simp add: word_order.not_eq_extremum [symmetric])
  then have "proofSideSequence index (- 1) = [True]"
    using assms(2,3)
    by (simp add: proofSideSequence_def side_loop.simps [of index "- 1"] side_loop.simps [of _ 0])
  then show ?thesis
    unfolding merkle_VerifyInclusion_Inr using lt root
    by (auto simp: merkle_Verify_def intro!: exI [of _ ?p])
qed

theorem merkle_inclusion_size_wraps_witness:
  "\<exists>t. merkle_New [replicate 32 7, replicate 32 8] = Inr t \<and>
     merkle_VerifyInclusion (Root t) 1000000 (- 1) (replicate 32 7)
       [encode_elem \<lparr>Hash = leafHash (replicate 32 8), IsRight = True\<rparr>] = Inr ()"
proof -
  obtain t where t: "merkle_New [replicate 32 7, replicate 32 8] = Inr t" by (simp add: merkle_New_def)
  from merkle_inclusion_size_wraps [OF t, of 1000000] t show ?thesis by auto
qed

end
