(* ===== verification/Merkle_Subtree.thy ===== *)
theory Merkle_Subtree
  imports Merkle_Inclusion
begin

text \<open>
  The prover's side of consistency: the power-of-two split on machine integers, the descent of
  \<^verbatim>\<open>Tree.subtree\<close> to the node of an aligned leaf range, and \<^verbatim>\<open>consistencySubproof\<close> as the
  SUBPROOF recursion of RFC 6962 on the leaf hashes.
\<close>

section \<open>The power-of-two split\<close>

lemma lp2_unique:
  assumes "2 ^ e < n" and "n \<le> 2 * 2 ^ e"
  shows "lp2 n = 2 ^ e"
proof -
  obtain d where d: "lp2 n = 2 ^ d" using lp2_power by blast
  have "(1::nat) \<le> 2 ^ e" by simp
  with assms(1) have "2 \<le> n" by linarith
  with lp2_bounds [of n] have "2 ^ d < n" "n \<le> 2 * 2 ^ d" by (simp_all add: d)
  with assms have "2 ^ e < (2::nat) ^ Suc d" "2 ^ d < (2::nat) ^ Suc e" by simp_all
  then have "e < Suc d" "d < Suc e" by (simp_all only: power_strict_increasing_iff one_less_numeral_iff num.simps semiring_norm)
  with d show ?thesis by simp
qed

lemma lp2_le: "n \<le> 2 ^ 62 \<Longrightarrow> lp2 n \<le> 2 ^ 62"
  using lp2_less [of n] lp2_small [of n] by (cases "2 \<le> n") auto

lemma le_double_lp2: "n \<le> 2 * lp2 n"
  using lp2_bounds [of n] lp2_small [of n] by (cases "2 \<le> n") auto

lemma pow2_loop_steps:
  assumes n: "n \<le> 2 ^ 62" and "lp2 n = 2 ^ (e + d)"
  shows "pow2_loop (int n) (2 ^ e) = Some (int (lp2 n))"
  using assms(2)
proof (induction d arbitrary: e)
  case 0
  then have k: "int (lp2 n) = 2 ^ e" by simp
  show ?case
  proof (cases "e = 62")
    case True
    with 0 have "lp2 n = 2 ^ 62" by simp
    with n lp2_less [of n] lp2_small [of n] show ?thesis by (cases "2 \<le> n") auto
  next
    case False
    have "(2::nat) ^ e \<le> 2 ^ 62" using 0 lp2_le [OF n] by simp
    then have "e \<le> 62" by (rule power_le_imp_le_exp [rotated]) simp
    with False have "e < 62" by simp
    then have "(2::int) ^ e * 2 \<le> 2 ^ 62" using power_increasing [of "Suc e" 62 "2::int"] by simp
    then have "int_range (2 ^ e * 2)" by (intro int_range_small) simp_all
    moreover have "int n \<le> 2 * int (lp2 n)" using le_double_lp2 [of n] by linarith
    ultimately have "\<not> wrap_int (2 ^ e * 2) < int n" using k by simp
    then show ?thesis using k by (simp add: pow2_loop.simps [of _ "2 ^ e"])
  qed
next
  case (Suc d)
  have big: "2 \<le> n" using Suc.prems lp2_small [of n] by (cases "n \<le> 1") auto
  have le: "(2::int) ^ Suc e \<le> int (lp2 n)"
    using Suc.prems power_increasing [of "Suc e" "e + Suc d" "2::int"] by simp
  have lt: "int (lp2 n) < int n" using lp2_less [OF big] by simp
  moreover have "int n \<le> 2 ^ 62" using n by simp
  ultimately have "int_range (2 ^ e * 2)" using le by (intro int_range_small) simp_all
  with le lt have "wrap_int (2 ^ e * 2) = 2 ^ Suc e" "wrap_int (2 ^ e * 2) < int n" by simp_all
  moreover have "pow2_loop (int n) (2 ^ Suc e) = Some (int (lp2 n))"
    using Suc.prems by (intro Suc.IH) simp
  ultimately show ?case by (simp add: pow2_loop.simps [of _ "2 ^ e"])
qed

lemma largestPow2LessThan_lp2: "n \<le> 2 ^ 62 \<Longrightarrow> largestPow2LessThan (int n) = Some (int (lp2 n))"
proof -
  assume n: "n \<le> 2 ^ 62"
  obtain d where "lp2 n = 2 ^ (0 + d)" using lp2_power by auto
  from pow2_loop_steps [OF n this] show ?thesis by (simp add: largestPow2LessThan_def)
qed

definition doubling_orbit :: "int \<Rightarrow> bool" where
  "doubling_orbit k \<longleftrightarrow> (\<exists>e\<le>62. k = 2 ^ e) \<or> k = - (2 ^ 63) \<or> k = 0"

lemma doubling_orbit_step:
  assumes "doubling_orbit k" and "2 ^ 62 < n"
  shows "wrap_int (k * 2) < n" and "doubling_orbit (wrap_int (k * 2))"
proof -
  consider e where "e < 62" "k = 2 ^ e" | "k = 2 ^ 62" | "k = - (2 ^ 63)" | "k = 0"
    using assms(1) unfolding doubling_orbit_def by (metis le_neq_implies_less)
  then have "wrap_int (k * 2) < n \<and> doubling_orbit (wrap_int (k * 2))"
  proof cases
    case 1
    then have le: "(2::int) ^ Suc e \<le> 2 ^ 62" by (intro power_increasing) auto
    then have "int_range (k * 2)" using 1 by (intro int_range_small) simp_all
    then have w: "wrap_int (k * 2) = 2 ^ Suc e" using 1 by simp
    then have "doubling_orbit (wrap_int (k * 2))"
      unfolding doubling_orbit_def using 1 by (intro disjI1 exI [of _ "Suc e"]) simp
    with w le assms(2) show ?thesis by linarith
  next
    case 2
    then have "wrap_int (k * 2) = - (2 ^ 63)" by (simp add: wrap_int_def)
    with assms(2) show ?thesis by (simp add: doubling_orbit_def)
  next
    case 3
    then have "wrap_int (k * 2) = 0" by (simp add: wrap_int_def)
    with assms(2) show ?thesis by (simp add: doubling_orbit_def)
  next
    case 4
    then have "wrap_int (k * 2) = 0" by (simp add: wrap_int_def)
    with assms(2) show ?thesis by (simp add: doubling_orbit_def)
  qed
  then show "wrap_int (k * 2) < n" and "doubling_orbit (wrap_int (k * 2))" by auto
qed

lemma pow2_loop_diverges:
  assumes "2 ^ 62 < n" and "doubling_orbit k"
  shows "pow2_loop n k = None"
proof (rule ccontr)
  assume "pow2_loop n k \<noteq> None"
  then obtain r where r: "pow2_loop n k = Some r" by auto
  have "\<not> (2 ^ 62 < n \<and> doubling_orbit k)"
  proof (rule pow2_loop.raw_induct [where P = "\<lambda>n k r. \<not> (2 ^ 62 < n \<and> doubling_orbit k)", OF _ r])
    fix f n k r
    assume IH: "\<And>n k r. f n k = Some r \<Longrightarrow> \<not> (2 ^ 62 < n \<and> doubling_orbit k)"
      and eq: "(if wrap_int (k * 2) < n then f n (wrap_int (k * 2)) else Some k) = Some r"
    show "\<not> (2 ^ 62 < n \<and> doubling_orbit k)"
      using eq doubling_orbit_step [of k n] IH by (auto split: if_splits)
  qed
  with assms show False by blast
qed

lemma largestPow2LessThan_diverges: "2 ^ 62 < n \<Longrightarrow> largestPow2LessThan n = None"
  unfolding largestPow2LessThan_def
  by (rule pow2_loop_diverges) (auto simp: doubling_orbit_def intro: exI [of _ 0])

section \<open>Nodes as hashes of aligned slices\<close>

lemma take_pair_level: "take m (pair_level xs) = pair_level (take (2 * m) xs)"
proof (induction xs arbitrary: m rule: pair_level.induct)
  case (1 x y rest)
  then show ?case by (cases m) auto
next
  case (2 x)
  then show ?case by (cases m) auto
qed simp

lemma drop_pair_level: "drop m (pair_level xs) = pair_level (drop (2 * m) xs)"
proof (induction xs arbitrary: m rule: pair_level.induct)
  case (1 x y rest)
  then show ?case by (cases m) auto
next
  case (2 x)
  then show ?case by (cases m) auto
qed simp

definition node_slice :: "digest list \<Rightarrow> nat \<Rightarrow> nat \<Rightarrow> digest list" where
  "node_slice xs j p = take (2 ^ j) (drop (p * 2 ^ j) xs)"

lemma build_levels_nth:
  "j < length (build_levels xs) \<Longrightarrow> build_levels xs ! j = (pair_level ^^ j) xs"
proof (induction xs arbitrary: j rule: build_levels.induct)
  case (1 xs)
  show ?case
  proof (cases j)
    case 0
    then show ?thesis by (simp add: build_levels.simps [of xs])
  next
    case (Suc i)
    with 1(2) have big: "length xs > 1" by (auto simp: build_levels.simps [of xs] split: if_splits)
    with 1 Suc have "build_levels (pair_level xs) ! i = (pair_level ^^ i) (pair_level xs)"
      by (simp add: build_levels.simps [of xs])
    with big Suc show ?thesis by (simp add: build_levels.simps [of xs] funpow_swap1)
  qed
qed

lemma funpow_pair_nth:
  "p * 2 ^ j < length xs \<Longrightarrow> (pair_level ^^ j) xs ! p = mth (node_slice xs j p)"
proof (induction j arbitrary: xs)
  case 0
  then show ?case by (simp add: node_slice_def take_Suc_conv_app_nth hd_drop_conv_nth take_Suc)
next
  case (Suc j)
  have "(pair_level ^^ Suc j) xs ! p = (pair_level ^^ j) (pair_level xs) ! p"
    by (simp add: funpow_swap1)
  also have "\<dots> = mth (node_slice (pair_level xs) j p)"
    using Suc.prems by (intro Suc.IH) simp
  also have "node_slice (pair_level xs) j p = pair_level (node_slice xs (Suc j) p)"
    by (simp add: node_slice_def take_pair_level drop_pair_level ac_simps)
  also have "mth \<dots> = mth (node_slice xs (Suc j) p)"
    using Suc.prems by (intro mth_pair_level) (simp add: node_slice_def)
  finally show ?case .
qed

lemma length_funpow_pair: "length ((pair_level ^^ j) xs) = (length xs + 2 ^ j - 1) div 2 ^ j"
proof (induction j arbitrary: xs)
  case 0
  then show ?case by simp
next
  case (Suc j)
  have "length ((pair_level ^^ Suc j) xs) = length ((pair_level ^^ j) (pair_level xs))"
    by (simp add: funpow_swap1)
  also have "\<dots> = ((length xs + 1) div 2 + 2 ^ j - 1) div 2 ^ j" by (simp add: Suc.IH)
  also have "(length xs + 1) div 2 + 2 ^ j - 1 = (length xs + 2 ^ Suc j - 1) div 2"
  proof -
    obtain c where "(2::nat) ^ j = Suc c" by (cases "(2::nat) ^ j") auto
    then show ?thesis by simp
  qed
  finally show ?case by (simp add: div_mult2_eq)
qed

lemma length_funpow_pair_gt: "p < length ((pair_level ^^ j) xs) \<longleftrightarrow> p * 2 ^ j < length xs"
proof -
  have "p < (n + d - 1) div d \<longleftrightarrow> p * d < n" if "0 < d" for n d :: nat
  proof -
    have "p < (n + d - 1) div d \<longleftrightarrow> Suc p * d \<le> n + d - 1"
      using that by (simp add: less_eq_div_iff_mult_less_eq Suc_le_eq [symmetric])
    also have "\<dots> \<longleftrightarrow> p * d < n" using that by auto
    finally show ?thesis .
  qed
  then show ?thesis by (simp add: length_funpow_pair)
qed

section \<open>Descending to a subtree\<close>

text \<open>What \<^verbatim>\<open>New\<close> establishes of a tree over the leaf hashes \<open>xs\<close>.\<close>

definition built :: "Tree \<Rightarrow> digest list \<Rightarrow> bool" where
  "built t xs \<longleftrightarrow> xs \<noteq> [] \<and> levels t = build_levels xs \<and> tsize t = length xs"

lemma built_New: "merkle_New leaves = Inr t \<Longrightarrow> built t (map leafHash leaves)"
  by (auto simp: merkle_New_def built_def split: if_splits)

text \<open>The leaf range \<open>[lo, hi)\<close> of node \<open>p\<close> at level \<open>j\<close> of a tree with \<open>n\<close> leaves.\<close>

definition aligned :: "nat \<Rightarrow> nat \<Rightarrow> nat \<Rightarrow> nat \<Rightarrow> nat \<Rightarrow> bool" where
  "aligned n j p lo hi \<longleftrightarrow> lo = p * 2 ^ j \<and> hi = min ((p + 1) * 2 ^ j) n \<and> lo < n"

lemma aligned_slice:
  "aligned (length xs) j p lo hi \<Longrightarrow> node_slice xs j p = take (hi - lo) (drop lo xs)"
  by (auto simp: aligned_def node_slice_def min_def)

lemma top_level: "xs \<noteq> [] \<Longrightarrow> length xs \<le> 2 ^ (length (build_levels xs) - 1)"
proof (induction xs rule: build_levels.induct)
  case (1 xs)
  show ?case
  proof (cases "length xs > 1")
    case True
    have "pair_level xs \<noteq> []" using 1(2) by simp
    with 1 True have "(length xs + 1) div 2 \<le> 2 ^ (length (build_levels (pair_level xs)) - 1)" by simp
    then have "length xs \<le> 2 * 2 ^ (length (build_levels (pair_level xs)) - 1)" by linarith
    also have "\<dots> = 2 ^ (length (build_levels xs) - 1)"
      using True by (cases "build_levels (pair_level xs)") (simp_all add: build_levels.simps [of xs])
    finally show ?thesis .
  next
    case False
    then show ?thesis by (simp add: build_levels.simps [of xs])
  qed
qed

lemma level_nth:
  assumes "built t xs" and "J < length (levels t)" and "P * 2 ^ J < length xs"
  shows "levels t ! J ! P = mth (node_slice xs J P)"
  using assms by (simp add: built_def build_levels_nth funpow_pair_nth)

lemma level_length:
  assumes "built t xs" and "J < length (levels t)"
  shows "P \<ge> length (levels t ! J) \<longleftrightarrow> length xs \<le> P * 2 ^ J"
  using assms length_funpow_pair_gt [of P J xs] by (simp add: built_def build_levels_nth not_less [symmetric])

lemma subtree_loop_hit:
  assumes t: "built t xs" and J: "J < length (levels t)" and a: "aligned (length xs) J P lo hi"
  shows "subtree_loop t (int lo) (int hi) J P = Some (mth (take (hi - lo) (drop lo xs)))"
proof -
  have hit: "int (P * 2 ^ J) = int lo \<and>
      int (if P * 2 ^ J + 2 ^ J > tsize t then tsize t else P * 2 ^ J + 2 ^ J) = int hi"
    unfolding of_nat_eq_iff using a t by (auto simp: aligned_def built_def min_def)
  have "levels t ! J ! P = mth (take (hi - lo) (drop lo xs))"
    using level_nth [OF t J, of P] aligned_slice [OF a] a by (simp add: aligned_def)
  with hit show ?thesis
    by (subst subtree_loop.simps) (simp only: Let_def if_True simp_thms)
qed

text \<open>Where the descent goes: the ancestor one level down is the left or the right child.\<close>

lemma descent_bounds:
  assumes "Q = p div 2 ^ (J - j)" and "j \<le> J"
  shows "Q * 2 ^ J \<le> p * 2 ^ j" and "(p + 1) * 2 ^ j \<le> (Q + 1) * (2::nat) ^ J"
proof -
  define d where "d = J - j"
  have J: "(2::nat) ^ J = 2 ^ d * 2 ^ j" using assms(2) by (simp add: d_def power_add [symmetric])
  have "Q * 2 ^ d \<le> p" using assms(1) by (simp add: d_def)
  then show "Q * 2 ^ J \<le> p * 2 ^ j" by (simp add: J)
  have "p < (Q + 1) * 2 ^ d"
    using assms(1) dividend_less_div_times [of "2 ^ d" p] by (simp add: d_def)
  then have "p + 1 \<le> (Q + 1) * 2 ^ d" by simp
  from mult_le_mono1 [OF this, of "2 ^ j"] show "(p + 1) * 2 ^ j \<le> (Q + 1) * (2::nat) ^ J"
    by (simp only: J mult.assoc)
qed

lemma subtree_loop_aligned:
  assumes t: "built t xs" and J: "J < length (levels t)" and a: "aligned (length xs) j p lo hi"
    and jJ: "j \<le> J" and P: "P = p div 2 ^ (J - j)"
  shows "subtree_loop t (int lo) (int hi) J P = Some (mth (take (hi - lo) (drop lo xs)))"
  using J jJ P
proof (induction J arbitrary: P)
  case 0
  with a have "aligned (length xs) 0 P lo hi" by simp
  with t 0 show ?case by (intro subtree_loop_hit)
next
  case (Suc J)
  show ?case
  proof (cases "aligned (length xs) (Suc J) P lo hi")
    case True
    with t Suc.prems show ?thesis by (intro subtree_loop_hit)
  next
    case False
    with a Suc.prems have jJ: "j \<le> J" by (cases "j = Suc J") auto
    define Q where "Q = p div 2 ^ (J - j)"
    have PQ: "P = Q div 2"
      using Suc.prems jJ by (simp add: Q_def Suc_diff_le div_mult2_eq [symmetric] mult.commute)
    have lo: "Q * 2 ^ J \<le> lo" and hi: "hi \<le> (Q + 1) * 2 ^ J" and lohi: "lo < hi" "lo < length xs"
      using descent_bounds [OF Q_def jJ] a by (auto simp: aligned_def min_def)
    have IH: "subtree_loop t (int lo) (int hi) J Q = Some (mth (take (hi - lo) (drop lo xs)))"
      using Suc.prems jJ by (intro Suc.IH) (simp_all add: Q_def)
    have miss: "\<not> (int (P * 2 ^ Suc J) = int lo \<and>
        int (if P * 2 ^ Suc J + 2 ^ Suc J > tsize t then tsize t else P * 2 ^ Suc J + 2 ^ Suc J) = int hi)"
      unfolding of_nat_eq_iff using False lohi t by (auto simp: aligned_def built_def min_def)
    have cut: "P * 2 ^ Suc J + 2 ^ J = (2 * P + 1) * 2 ^ J" by simp
    have len: "2 * P + 1 \<ge> length (levels t ! J) \<longleftrightarrow> length xs \<le> (2 * P + 1) * 2 ^ J"
      using t Suc.prems by (intro level_length) simp_all
    consider "Q = 2 * P" | "Q = 2 * P + 1" using PQ by linarith
    then show ?thesis
    proof cases
      case 1
      with hi cut have "int hi \<le> int (P * 2 ^ Suc J + 2 ^ J)" by (simp only: of_nat_le_iff)
      with IH 1 miss show ?thesis
        by (subst subtree_loop.simps) (simp only: Let_def if_False if_True diff_Suc_1 nat.distinct simp_thms split: if_split)
    next
      case 2
      with lo lohi cut have "\<not> int hi \<le> int (P * 2 ^ Suc J + 2 ^ J)" "\<not> int lo < int (P * 2 ^ Suc J + 2 ^ J)"
        by (simp_all only: of_nat_le_iff of_nat_less_iff not_le not_less)
      moreover have "\<not> 2 * P + 1 \<ge> length (levels t ! J)" using len 2 lo lohi by (simp only: not_le)
      ultimately show ?thesis
        using IH 2 miss by (subst subtree_loop.simps) (simp only: Let_def if_False if_True diff_Suc_1 nat.distinct simp_thms)
    qed
  qed
qed

lemma subtree_aligned:
  assumes t: "built t xs" and a: "aligned (length xs) j p lo hi" and j: "j < length (levels t)"
  shows "subtree t (int lo) (int hi) = Some (mth (take (hi - lo) (drop lo xs)))"
proof -
  let ?J = "length (levels t) - 1"
  have "length xs \<le> 2 ^ ?J" using t top_level by (simp add: built_def)
  then have "p * 2 ^ j < 2 ^ ?J" using a by (simp add: aligned_def)
  moreover have "(2::nat) ^ ?J = 2 ^ (?J - j) * 2 ^ j" using j by (simp add: power_add [symmetric])
  ultimately have "0 = p div 2 ^ (?J - j)" by simp
  then have "subtree_loop t (int lo) (int hi) ?J 0 = Some (mth (take (hi - lo) (drop lo xs)))"
    using t a j by (intro subtree_loop_aligned) auto
  moreover have "\<not> (int lo < 0 \<or> int hi > int (tsize t) \<or> int lo \<ge> int hi)"
  proof -
    have "lo < hi" "hi \<le> tsize t" using a t by (auto simp: aligned_def built_def)
    then show ?thesis by simp
  qed
  ultimately show ?thesis by (simp add: subtree_def)
qed


section \<open>Alignment of the ranges of the recursion\<close>

lemma aligned_split:
  assumes a: "aligned n j p lo hi" and s: "2 \<le> hi - lo"
  defines "k \<equiv> lp2 (hi - lo)"
  obtains e q where "e < j" and "k = 2 ^ e" and "aligned n e q lo (lo + k)" and "aligned n e (q + 1) (lo + k) hi"
proof -
  obtain e where e: "k = 2 ^ e" using lp2_power k_def by blast
  have k: "k < hi - lo" "hi - lo \<le> 2 * k" using lp2_bounds [OF s] by (simp_all add: k_def)
  have width: "hi - lo \<le> 2 ^ j" "hi \<le> n" using a by (auto simp: aligned_def min_def)
  with k e have "(2::nat) ^ e < 2 ^ j" by linarith
  then have ej: "e < j" by (rule power_less_imp_less_exp [rotated]) simp
  define q where "q = p * 2 ^ (j - e)"
  have "(2::nat) ^ j = 2 ^ (j - e) * 2 ^ e" using ej by (simp add: power_add [symmetric])
  then have lo: "lo = q * 2 ^ e" using a by (simp add: aligned_def q_def)
  have "aligned n e q lo (lo + k)"
    using k width lo e by (auto simp: aligned_def)
  moreover have "hi = min (lo + 2 * k) n"
  proof (cases "hi = n")
    case True
    with k show ?thesis by simp
  next
    case False
    then have "hi = lo + 2 ^ j" using a by (simp add: aligned_def min_def split: if_splits)
    then have j: "hi - lo = 2 ^ j" by simp
    from ej obtain i where i: "j = Suc i" by (cases j) auto
    have "lp2 (2 ^ j) = 2 ^ i" by (rule lp2_unique) (simp_all add: i)
    then have "2 * k = 2 ^ j" by (simp add: k_def j i)
    with \<open>hi = lo + 2 ^ j\<close> width show ?thesis by simp
  qed
  then have "aligned n e (q + 1) (lo + k) hi"
    using k width lo e by (auto simp: aligned_def)
  ultimately show thesis using that ej e by blast
qed

lemma aligned_root: "xs \<noteq> [] \<Longrightarrow> aligned (length xs) (length (build_levels xs) - 1) 0 0 (length xs)"
  using top_level [of xs] by (simp add: aligned_def)

section \<open>Consistency proofs\<close>

text \<open>
  SUBPROOF of RFC 6962 (section 2.1.2) on leaf hashes, with the side each recomputed node falls on.
\<close>

function msubproof :: "nat \<Rightarrow> digest list \<Rightarrow> bool \<Rightarrow> ProofStep list" where
  "msubproof m xs b =
    (if m = length xs \<or> length xs \<le> 1
     then (if b then [] else [\<lparr>Hash = mth xs, IsRight = False\<rparr>])
     else if m \<le> lp2 (length xs)
     then msubproof m (take (lp2 (length xs)) xs) b @
          [\<lparr>Hash = mth (drop (lp2 (length xs)) xs), IsRight = True\<rparr>]
     else msubproof (m - lp2 (length xs)) (drop (lp2 (length xs)) xs) False @
          [\<lparr>Hash = mth (take (lp2 (length xs)) xs), IsRight = False\<rparr>])"
  by pat_completeness auto
termination
  by (relation "measure (\<lambda>(m, xs, b). length xs)")
    (auto simp: lp2_less not_le min_less_iff_disj intro!: minus_lp2_less)

declare msubproof.simps [simp del]

lemma consistencySubproof_msubproof:
  assumes t: "built t xs" and n: "length xs \<le> 2 ^ 62"
    and "aligned (length xs) j p lo (lo + s)" and "j < length (levels t)" and "0 < m" and "m \<le> s"
  shows "consistencySubproof t (int m) (int lo) (int (lo + s)) b path =
    Some (Some (path @ msubproof m (take s (drop lo xs)) b))"
  using assms(3-)
proof (induction s arbitrary: j p lo m b path rule: less_induct)
  case (less s)
  let ?ys = "take s (drop lo xs)"
  note a = less.prems(1) and j = less.prems(2)
  have lohi: "0 < s" "lo + s \<le> length xs" using a by (auto simp: aligned_def min_def split: if_splits)
  then have len: "length ?ys = s" by simp
  have diff: "int (lo + s) - int lo = int s" by simp
  have here: "subtree t (int lo) (int (lo + s)) = Some (mth ?ys)"
    using subtree_aligned [OF t a j] by simp
  show ?case
  proof (cases "m = s")
    case True
    then show ?thesis
      using here len
      by (subst consistencySubproof.simps) (simp add: msubproof.simps [of s ?ys b])
  next
    case False
    with less.prems have s2: "2 \<le> s" "m < s" by simp_all
    define k where "k = lp2 s"
    obtain e q where ej: "e < j" and al: "aligned (length xs) e q lo (lo + k)"
      and ar: "aligned (length xs) e (q + 1) (lo + k) (lo + s)"
      using aligned_split [OF a, unfolded add_diff_cancel_left', OF s2(1)] unfolding k_def by metis
    have k: "k < s" "0 < k" using lp2_less [OF s2(1)] by (simp_all add: k_def)
    have je: "e < length (levels t)" using ej j by simp
    have kfun: "largestPow2LessThan (int s) = Some (int k)"
      using largestPow2LessThan_lp2 [of s] n lohi by (simp add: k_def)
    have left: "subtree t (int lo) (int lo + int k) = Some (mth (take k ?ys))"
      using subtree_aligned [OF t al je] k by (simp add: take_take min_def)
    have right: "subtree t (int lo + int k) (int lo + int s) = Some (mth (drop k ?ys))"
      using subtree_aligned [OF t ar je] k by (simp add: drop_take add.commute)
    show ?thesis
    proof (cases "m \<le> k")
      case True
      have "consistencySubproof t (int m) (int lo) (int (lo + k)) b path =
          Some (Some (path @ msubproof m (take k (drop lo xs)) b))"
        using less.prems True k je al by (intro less.IH [where j = e and p = q]) simp_all
      with True k kfun right s2 len show ?thesis
        by (subst consistencySubproof.simps)
          (simp add: msubproof.simps [of m ?ys b] take_take min_def k_def [symmetric])
    next
      case mk: False
      have "consistencySubproof t (int (m - k)) (int (lo + k)) (int (lo + k + (s - k))) False path =
          Some (Some (path @ msubproof (m - k) (take (s - k) (drop (lo + k) xs)) False))"
        using less.prems mk k je ar s2 by (intro less.IH [where j = e and p = "q + 1"]) simp_all
      moreover have "int (lo + k + (s - k)) = int lo + int s" using k by simp
      ultimately show ?thesis
        using mk k kfun left s2 len
        by (subst consistencySubproof.simps)
          (simp add: msubproof.simps [of m ?ys b] drop_take add.commute k_def [symmetric] of_nat_diff)
    qed
  qed
qed

end
