(* ===== verification/Merkle_Consistency.thy ===== *)
theory Merkle_Consistency
  imports Merkle_Subtree
begin

text \<open>
  The verifier's side of consistency: \<^verbatim>\<open>verifySubproof\<close> with its cursor is a total function on
  the remaining hashes for sizes up to \<open>2 ^ 62\<close>; it accepts the prover's paths, and what it accepts
  fixes the old root up to collisions. Above that size the call never returns.
\<close>

section \<open>The verifier on hash lists\<close>

text \<open>
  The verifier without machine integers: it also lists what it hashes while it recomputes the new
  root.
\<close>

function vsub ::
    "nat \<Rightarrow> nat \<Rightarrow> bool \<Rightarrow> digest \<Rightarrow> digest list \<Rightarrow> (digest \<times> digest \<times> digest list \<times> bytes list) option" where
  "vsub m n b old hs =
    (if m = n \<or> n \<le> 1
     then (if b then Some (old, old, hs, [])
           else (case hs of [] \<Rightarrow> None | h # hs' \<Rightarrow> Some (h, h, hs', [])))
     else if m \<le> lp2 n
     then (case vsub m (lp2 n) b old hs of
             Some (new, oldh, r # hs', ins) \<Rightarrow>
               Some (nodeHash new r, oldh, hs', (nodePrefix # new @ r) # ins)
           | _ \<Rightarrow> None)
     else (case vsub (m - lp2 n) (n - lp2 n) False [] hs of
             Some (new, oldh, l # hs', ins) \<Rightarrow>
               Some (nodeHash l new, nodeHash l oldh, hs', (nodePrefix # l @ new) # ins)
           | _ \<Rightarrow> None))"
  by pat_completeness auto
termination
  by (relation "measure (\<lambda>(m, n, _). n)") (auto simp: lp2_less not_le)

declare vsub.simps [simp del]

definition rest_hashes :: "proofCursor \<Rightarrow> digest list" where
  "rest_hashes cur = map Hash (drop (cnext cur) (csteps cur))"

lemma rest_hashes_Nil: "rest_hashes cur = [] \<longleftrightarrow> length (csteps cur) \<le> cnext cur"
  by (simp add: rest_hashes_def)

lemma rest_hashes_Cons:
  "cnext cur < length (csteps cur) \<Longrightarrow>
   rest_hashes cur = Hash (csteps cur ! cnext cur) # rest_hashes (cur\<lparr>cnext := cnext cur + 1\<rparr>)"
  by (simp add: rest_hashes_def Cons_nth_drop_Suc [symmetric])

lemma cursor_take_cases:
  "(rest_hashes cur = [] \<and> cursor_take cur = None) \<or>
   (\<exists>h. rest_hashes cur = h # rest_hashes (cur\<lparr>cnext := cnext cur + 1\<rparr>) \<and>
        cursor_take cur = Some (h, cur\<lparr>cnext := cnext cur + 1\<rparr>) \<and> cnext cur < length (csteps cur))"
  by (cases "cnext cur < length (csteps cur)")
    (simp_all add: cursor_take_def rest_hashes_Nil rest_hashes_Cons)

definition cursor_ok :: "proofCursor \<Rightarrow> proofCursor \<Rightarrow> digest list \<Rightarrow> bool" where
  "cursor_ok cur cur' hs \<longleftrightarrow>
    rest_hashes cur' = hs \<and> csteps cur' = csteps cur \<and>
    (cnext cur \<le> length (csteps cur) \<longrightarrow> cnext cur' \<le> length (csteps cur))"

lemma cursor_ok_take:
  assumes "cursor_ok cur cur' (h # hs)"
  shows "\<exists>cur''. cursor_take cur' = Some (h, cur'') \<and> cursor_ok cur cur'' hs"
  using assms cursor_take_cases [of cur'] by (auto simp: cursor_ok_def)

lemma cursor_ok_take_Nil: "cursor_ok cur cur' [] \<Longrightarrow> cursor_take cur' = None"
  using cursor_take_cases [of cur'] by (auto simp: cursor_ok_def)

lemma verifySubproof_vsub:
  assumes "n \<le> 2 ^ 62" and "0 < m" and "m \<le> n" and "b \<Longrightarrow> old = Some h"
  shows "case vsub m n b h (rest_hashes cur) of
      None \<Rightarrow> verifySubproof (int m) (int n) b old cur = Some None
    | Some (new, oldh, hs, ins) \<Rightarrow>
        \<exists>cur'. verifySubproof (int m) (int n) b old cur = Some (Some (new, oldh, cur')) \<and> cursor_ok cur cur' hs"
  using assms
proof (induction n arbitrary: m b old h cur rule: less_induct)
  case (less n)
  show ?case
  proof (cases "m = n")
    case True
    then show ?thesis
      using less.prems cursor_take_cases [of cur]
      by (auto simp: vsub.simps [of n n] verifySubproof.simps [of "int n" "int n"] cursor_ok_def)
  next
    case False
    with less.prems have n2: "2 \<le> n" by simp
    define k where "k = lp2 n"
    have k: "k < n" "0 < k" "k \<le> 2 ^ 62" using lp2_less [OF n2] less.prems(1) by (simp_all add: k_def)
    have kfun: "largestPow2LessThan (int n) = Some (int k)"
      using largestPow2LessThan_lp2 less.prems(1) by (simp add: k_def)
    show ?thesis
    proof (cases "m \<le> k")
      case mk: True
      have IH: "case vsub m k b h (rest_hashes cur) of
          None \<Rightarrow> verifySubproof (int m) (int k) b old cur = Some None
        | Some (new, oldh, hs, ins) \<Rightarrow>
            \<exists>cur'. verifySubproof (int m) (int k) b old cur = Some (Some (new, oldh, cur')) \<and> cursor_ok cur cur' hs"
        using less.prems mk k by (intro less.IH) simp_all
      have unf: "verifySubproof (int m) (int n) b old cur =
          Option.bind (verifySubproof (int m) (int k) b old cur) (\<lambda>r. case r of
              None \<Rightarrow> Some None
            | Some (leftNew, leftOld, cur') \<Rightarrow> (case cursor_take cur' of
                None \<Rightarrow> Some None
              | Some (rightRoot, cur'') \<Rightarrow> Some (Some (nodeHash leftNew rightRoot, leftOld, cur''))))"
        using False kfun mk by (subst verifySubproof.simps) simp
      show ?thesis
        using IH False n2 mk unfolding unf
        by (auto simp: vsub.simps [of m n] k_def [symmetric] dest!: cursor_ok_take cursor_ok_take_Nil
            split: option.splits list.splits)
    next
      case mk: False
      have IH: "case vsub (m - k) (n - k) False [] (rest_hashes cur) of
          None \<Rightarrow> verifySubproof (int (m - k)) (int (n - k)) False None cur = Some None
        | Some (new, oldh, hs, ins) \<Rightarrow>
            \<exists>cur'. verifySubproof (int (m - k)) (int (n - k)) False None cur = Some (Some (new, oldh, cur')) \<and> cursor_ok cur cur' hs"
        using less.prems mk k by (intro less.IH) simp_all
      have unf: "verifySubproof (int m) (int n) b old cur =
          Option.bind (verifySubproof (int (m - k)) (int (n - k)) False None cur) (\<lambda>r. case r of
              None \<Rightarrow> Some None
            | Some (rightNew, rightOld, cur') \<Rightarrow> (case cursor_take cur' of
                None \<Rightarrow> Some None
              | Some (leftRoot, cur'') \<Rightarrow>
                  Some (Some (nodeHash leftRoot rightNew, nodeHash leftRoot rightOld, cur''))))"
        using False kfun mk k by (subst verifySubproof.simps) (simp add: of_nat_diff)
      show ?thesis
        using IH False n2 mk unfolding unf
        by (auto simp: vsub.simps [of m n] k_def [symmetric] dest!: cursor_ok_take cursor_ok_take_Nil
            split: option.splits list.splits)
    qed
  qed
qed

lemma take_mth_right:
  assumes "lp2 (length ys) < m" and "m \<le> length ys"
  shows "mth (take m ys) =
    nodeHash (mth (take (lp2 (length ys)) ys)) (mth (take (m - lp2 (length ys)) (drop (lp2 (length ys)) ys)))"
proof -
  let ?k = "lp2 (length ys)"
  obtain e where e: "?k = 2 ^ e" using lp2_power by blast
  have "m \<le> 2 * ?k" using assms(2) le_double_lp2 [of "length ys"] by linarith
  with assms(1) e have m: "lp2 m = ?k" by (simp add: lp2_unique)
  have "0 < ?k" by (rule lp2_pos)
  with assms(1) have "2 \<le> m" by linarith
  then have big: "\<not> m \<le> 1" by simp
  have len: "length (take m ys) = m" using assms(2) by simp
  have "mth (take m ys) = nodeHash (mth (take (lp2 m) (take m ys))) (mth (drop (lp2 m) (take m ys)))"
    by (subst mth.simps) (simp only: len big if_False)
  then show ?thesis
    using assms(1) by (simp only: m drop_take take_take min_absorb1 less_imp_le)
qed

lemma vsub_complete:
  assumes "0 < m" and "m \<le> length ys"
  shows "\<exists>ins. vsub m (length ys) b (if b then mth (take m ys) else []) (map Hash (msubproof m ys b) @ post) =
    Some (mth ys, mth (take m ys), post, ins)"
  using assms
proof (induction m ys b arbitrary: post rule: msubproof.induct)
  case (1 m ys b)
  let ?k = "lp2 (length ys)"
  show ?case
  proof (cases "m = length ys")
    case True
    then show ?thesis
      by (simp add: vsub.simps [of "length ys" "length ys"] msubproof.simps [of "length ys" ys])
  next
    case False
    with 1 have n2: "2 \<le> length ys" by simp
    have k: "?k < length ys" using lp2_less [OF n2] .
    have top: "mth ys = nodeHash (mth (take ?k ys)) (mth (drop ?k ys))"
      using n2 by (simp add: mth.simps [of ys])
    show ?thesis
    proof (cases "m \<le> ?k")
      case True
      have "\<exists>ins. vsub m (length (take ?k ys)) b (if b then mth (take m (take ?k ys)) else [])
          (map Hash (msubproof m (take ?k ys) b) @ (mth (drop ?k ys) # post)) =
          Some (mth (take ?k ys), mth (take m (take ?k ys)), mth (drop ?k ys) # post, ins)"
        using 1 False n2 True k by (intro 1(1)) simp_all
      with True False n2 k top show ?thesis
        by (auto simp: vsub.simps [of m "length ys"] msubproof.simps [of m ys b] min_def)
    next
      case mk: False
      have "\<exists>ins. vsub (m - ?k) (length (drop ?k ys)) False (if False then mth (take (m - ?k) (drop ?k ys)) else [])
          (map Hash (msubproof (m - ?k) (drop ?k ys) False) @ (mth (take ?k ys) # post)) =
          Some (mth (drop ?k ys), mth (take (m - ?k) (drop ?k ys)), mth (take ?k ys) # post, ins)"
        using 1 False n2 mk k by (intro 1(2)) simp_all
      moreover have "mth (take m ys) = nodeHash (mth (take ?k ys)) (mth (take (m - ?k) (drop ?k ys)))"
        using mk 1(4) by (intro take_mth_right) simp_all
      ultimately show ?thesis
        using mk False n2 k top
        by (auto simp: vsub.simps [of m "length ys"] msubproof.simps [of m ys b])
    qed
  qed
qed


section \<open>Soundness\<close>

lemma pair_inputs_take: "even k \<Longrightarrow> set (pair_inputs (take k xs)) \<subseteq> set (pair_inputs xs)"
proof (induction xs arbitrary: k rule: pair_inputs.induct)
  case (1 x y rest)
  show ?case
  proof (cases "k = 0")
    case False
    with 1(2) obtain i where "k = Suc (Suc i)" "even i" by (metis even_Suc not0_implies_Suc odd_Suc_minus_one)
    with 1(1) [of i] show ?thesis by auto
  qed simp
qed (auto simp: take_Cons' )

lemma pair_inputs_drop: "even k \<Longrightarrow> set (pair_inputs (drop k xs)) \<subseteq> set (pair_inputs xs)"
proof (induction xs arbitrary: k rule: pair_inputs.induct)
  case (1 x y rest)
  show ?case
  proof (cases "k = 0")
    case False
    with 1(2) obtain i where "k = Suc (Suc i)" "even i" by (metis even_Suc not0_implies_Suc odd_Suc_minus_one)
    with 1(1) [of i] show ?thesis by auto
  qed simp
qed (auto simp: drop_Cons')

lemma level_inputs_split:
  assumes "2 \<le> length xs"
  defines "k \<equiv> lp2 (length xs)"
  shows "nodePrefix # mth (take k xs) @ mth (drop k xs) \<in> set (level_inputs xs) \<and>
    set (level_inputs (take k xs)) \<subseteq> set (level_inputs xs) \<and>
    set (level_inputs (drop k xs)) \<subseteq> set (level_inputs xs)"
  using assms(1) unfolding k_def
proof (induction xs rule: build_levels.induct)
  case (1 xs)
  let ?n = "length xs" and ?k = "lp2 (length xs)"
  show ?case
  proof (cases "?n = 2")
    case True
    then obtain x y where "xs = [x, y]" by (auto simp: length_Suc_conv numeral_2_eq_2)
    then show ?thesis
      by (simp add: lp2_small level_inputs.simps [of "[_, _]"] level_inputs.simps [of "[_]"])
  next
    case False
    with 1(2) have n: "2 < ?n" by simp
    let ?k' = "lp2 (Suc ?n div 2)"
    have k: "?k = 2 * ?k'" "?k < ?n" using lp2_double [OF n] lp2_less [of ?n] n by simp_all
    have "xs \<noteq> []" using n by auto
    then have m: "mth (pair_level (take ?k xs)) = mth (take ?k xs)" "mth (pair_level (drop ?k xs)) = mth (drop ?k xs)"
      using k by (auto intro!: mth_pair_level)
    have unf: "level_inputs xs = pair_inputs xs @ level_inputs (pair_level xs)"
      using n by (simp add: level_inputs.simps [of xs])
    have "set (level_inputs (take ?k xs)) \<subseteq> set (pair_inputs (take ?k xs)) \<union> set (level_inputs (pair_level (take ?k xs)))"
      "set (level_inputs (drop ?k xs)) \<subseteq> set (pair_inputs (drop ?k xs)) \<union> set (level_inputs (pair_level (drop ?k xs)))"
      by (auto simp: level_inputs.simps [of "take _ xs"] level_inputs.simps [of "drop _ xs"])
    moreover have "set (pair_inputs (take ?k xs)) \<subseteq> set (pair_inputs xs)" "set (pair_inputs (drop ?k xs)) \<subseteq> set (pair_inputs xs)"
      using k by (simp_all add: pair_inputs_take pair_inputs_drop)
    moreover have "nodePrefix # mth (take ?k' (pair_level xs)) @ mth (drop ?k' (pair_level xs)) \<in> set (level_inputs (pair_level xs)) \<and>
      set (level_inputs (take ?k' (pair_level xs))) \<subseteq> set (level_inputs (pair_level xs)) \<and>
      set (level_inputs (drop ?k' (pair_level xs))) \<subseteq> set (level_inputs (pair_level xs))"
      using 1(1) n by simp
    ultimately show ?thesis
      unfolding unf take_pair_level drop_pair_level k(1) [symmetric] m by auto
  qed
qed

lemma vsub_length:
  assumes "vsub m n b old hs = Some (new, oldh, hs', ins)" and "\<forall>h\<in>set hs. length h = 32"
    and "b \<Longrightarrow> length old = 32"
  shows "length new = 32 \<and> (\<forall>h\<in>set hs'. length h = 32)"
  using assms
proof (induction m n b old hs arbitrary: new oldh hs' ins rule: vsub.induct)
  case (1 m n b old hs)
  show ?case
  proof (cases "m = n \<or> n \<le> 1")
    case True
    with 1 show ?thesis by (auto simp: vsub.simps [of m n] split: if_splits list.splits)
  next
    case False
    show ?thesis
    proof (cases "m \<le> lp2 n")
      case True
      with 1 False show ?thesis
        by (fastforce simp: vsub.simps [of m n] split: option.splits list.splits)
    next
      case mk: False
      with 1 False show ?thesis
        by (fastforce simp: vsub.simps [of m n] split: option.splits list.splits)
    qed
  qed
qed

lemma vsub_sound:
  assumes "vsub m n b old hs = Some (mth ys, oldh, hs', ins)" and "length ys = n" and "0 < m" and "m \<le> n"
    and "\<forall>h\<in>set hs. length h = 32" and "b \<Longrightarrow> length old = 32" and "\<forall>y\<in>set ys. length y = 32"
  shows "oldh = mth (take m ys) \<or> collision_between ins (level_inputs ys)"
  using assms
proof (induction m n b old hs arbitrary: ys oldh hs' ins rule: vsub.induct)
  case (1 m n b old hs)
  show ?case
  proof (cases "m = n")
    case True
    with 1 show ?thesis by (auto simp: vsub.simps [of n n] split: if_splits list.splits)
  next
    case False
    with 1 have n2: "2 \<le> n" by simp
    let ?k = "lp2 n"
    have k: "?k < n" using lp2_less [OF n2] .
    have top: "mth ys = nodeHash (mth (take ?k ys)) (mth (drop ?k ys))"
      using n2 1 by (simp add: mth.simps [of ys])
    have split: "nodePrefix # mth (take ?k ys) @ mth (drop ?k ys) \<in> set (level_inputs ys)"
      "set (level_inputs (take ?k ys)) \<subseteq> set (level_inputs ys)"
      "set (level_inputs (drop ?k ys)) \<subseteq> set (level_inputs ys)"
      using level_inputs_split [of ys] n2 1 by auto
    have len: "length (mth (take ?k ys)) = 32"
      using 1 n2 k by (intro mth_length) (auto dest: in_set_takeD)
    show ?thesis
    proof (cases "m \<le> ?k")
      case True
      then obtain new r ins' where sub: "vsub m ?k b old hs = Some (new, oldh, r # hs', ins')"
        and eq: "mth ys = nodeHash new r" and ins: "ins = (nodePrefix # new @ r) # ins'"
        using 1(3) False n2 by (auto simp: vsub.simps [of m n] split: option.splits list.splits)
      have "length new = 32" using vsub_length [OF sub] 1 by blast
      with eq top len have "(new = mth (take ?k ys) \<and> r = mth (drop ?k ys)) \<or>
          collides sha256_sum (nodePrefix # new @ r) (nodePrefix # mth (take ?k ys) @ mth (drop ?k ys))"
        by (intro nodeHash_inj) simp_all
      then show ?thesis
      proof
        assume "new = mth (take ?k ys) \<and> r = mth (drop ?k ys)"
        with sub have "oldh = mth (take m (take ?k ys)) \<or> collision_between ins' (level_inputs (take ?k ys))"
          using 1 False n2 True k by (intro 1(1)) (auto dest: in_set_takeD)
        with True split ins show ?thesis by (auto simp: min_def intro: collision_between_mono)
      qed (use split ins in \<open>auto intro: collision_betweenI\<close>)
    next
      case mk: False
      then obtain l new oldr ins' where sub: "vsub (m - ?k) (n - ?k) False [] hs = Some (new, oldr, l # hs', ins')"
        and eq: "mth ys = nodeHash l new" and ins: "ins = (nodePrefix # l @ new) # ins'" and oldh: "oldh = nodeHash l oldr"
        using 1(3) False n2 by (auto simp: vsub.simps [of m n] split: option.splits list.splits)
      have "length l = 32" using vsub_length [OF sub] 1 by auto
      with eq top len have "(l = mth (take ?k ys) \<and> new = mth (drop ?k ys)) \<or>
          collides sha256_sum (nodePrefix # l @ new) (nodePrefix # mth (take ?k ys) @ mth (drop ?k ys))"
        by (intro nodeHash_inj) simp_all
      then show ?thesis
      proof
        assume parts: "l = mth (take ?k ys) \<and> new = mth (drop ?k ys)"
        with sub have "oldr = mth (take (m - ?k) (drop ?k ys)) \<or> collision_between ins' (level_inputs (drop ?k ys))"
          using 1 False n2 mk k by (intro 1(2)) (auto dest: in_set_dropD)
        moreover have "mth (take m ys) = nodeHash (mth (take ?k ys)) (mth (take (m - ?k) (drop ?k ys)))"
          using take_mth_right [of ys m] mk 1 by simp
        ultimately show ?thesis using parts oldh split ins by (auto intro: collision_between_mono)
      qed (use split ins in \<open>auto intro: collision_betweenI\<close>)
    qed
  qed
qed

section \<open>The proofs of RFC 6962\<close>

function rfc_SUBPROOF :: "nat \<Rightarrow> bytes list \<Rightarrow> bool \<Rightarrow> digest list" where
  "rfc_SUBPROOF m D b =
    (if m = length D \<or> length D \<le> 1 then (if b then [] else [rfc_MTH D])
     else let k = lp2 (length D) in
       if m \<le> k then rfc_SUBPROOF m (take k D) b @ [rfc_MTH (drop k D)]
       else rfc_SUBPROOF (m - k) (drop k D) False @ [rfc_MTH (take k D)])"
  by pat_completeness auto
termination
  by (relation "measure (\<lambda>(m, D, b). length D)")
    (auto simp: lp2_less not_le min_less_iff_disj intro!: minus_lp2_less)

declare rfc_SUBPROOF.simps [simp del]

definition rfc_PROOF :: "nat \<Rightarrow> bytes list \<Rightarrow> digest list" where
  "rfc_PROOF m D = rfc_SUBPROOF m D True"

lemma rfc_SUBPROOF_msubproof:
  "D \<noteq> [] \<Longrightarrow> rfc_SUBPROOF m D b = map Hash (msubproof m (map leafHash D) b)"
proof (induction m D b rule: rfc_SUBPROOF.induct)
  case (1 m D b)
  let ?k = "lp2 (length D)"
  show ?case
  proof (cases "m = length D \<or> length D \<le> 1")
    case True
    with 1 show ?thesis
      by (auto simp: rfc_SUBPROOF.simps [of m D] msubproof.simps [of m "map leafHash D"] rfc_MTH_mth)
  next
    case False
    then have "take ?k D \<noteq> []" "drop ?k D \<noteq> []" using 1 lp2_less [of "length D"] by auto
    with 1 False show ?thesis
      by (simp add: rfc_SUBPROOF.simps [of m D] msubproof.simps [of m "map leafHash D"] rfc_MTH_mth
          take_map drop_map Let_def)
  qed
qed

text \<open>What the verifier hashes while it recomputes the new root.\<close>

definition consistency_inputs :: "nat \<Rightarrow> nat \<Rightarrow> digest \<Rightarrow> ProofStep list \<Rightarrow> bytes list" where
  "consistency_inputs m n old path =
    (case vsub m n True old (map Hash path) of None \<Rightarrow> [] | Some (_, _, _, ins) \<Rightarrow> ins)"

lemma merkle_VerifyConsistency_vsub:
  assumes "0 < m" and "m < n" and "n \<le> 2 ^ 62" and "length old = 32" and "length new = 32"
  shows "merkle_VerifyConsistency old new (int m) (int n) path =
    Some (\<exists>ins. vsub m n True old (map Hash path) = Some (new, old, [], ins))"
proof -
  let ?c = "\<lparr>csteps = path, cnext = 0\<rparr>"
  have rest: "rest_hashes ?c = map Hash path" by (simp add: rest_hashes_def)
  have "case vsub m n True old (map Hash path) of
      None \<Rightarrow> verifySubproof (int m) (int n) True (Some old) ?c = Some None
    | Some (new, oldh, hs, ins) \<Rightarrow> \<exists>cur'. verifySubproof (int m) (int n) True (Some old) ?c =
        Some (Some (new, oldh, cur')) \<and> cursor_ok ?c cur' hs"
    using verifySubproof_vsub [of n m True "Some old" old ?c] assms unfolding rest by simp
  then show ?thesis
    using assms by (auto simp: merkle_VerifyConsistency_def cursor_ok_def rest_hashes_def split: option.splits)
qed

lemma VerifyConsistency_of_Proof:
  assumes "merkle_New leaves = Inr t" and "merkle_New (take m leaves) = Inr t0"
    and "m < length leaves" and "length leaves \<le> 2 ^ 62"
  shows "\<exists>path. merkle_ConsistencyProof t (int m) (int (length leaves)) = Some (Inr path) \<and>
    map Hash path = rfc_PROOF m leaves \<and>
    merkle_VerifyConsistency (Root t0) (Root t) (int m) (int (length leaves)) path = Some True"
proof -
  let ?xs = "map leafHash leaves" and ?n = "length leaves"
  have t: "built t ?xs" and t0: "built t0 (take m ?xs)"
    using assms(1,2) built_New by (auto simp: take_map)
  then have m: "0 < m" by (auto simp: built_def)
  have roots: "Root t = mth ?xs" "Root t0 = mth (take m ?xs)"
    using t t0 by (auto simp: built_def Root_def last_build_levels)
  have lens: "length (mth ?xs) = 32" "length (mth (take m ?xs)) = 32"
    using t t0 by (auto simp: built_def dest!: in_set_takeD intro!: mth_length)
  have al: "aligned (length ?xs) (length (levels t) - 1) 0 0 (0 + ?n)"
    using t aligned_root [of ?xs] by (simp add: built_def)
  let ?path = "msubproof m ?xs True"
  have "consistencySubproof t (int m) (int 0) (int (0 + ?n)) True [] =
      Some (Some ([] @ msubproof m (take ?n (drop 0 ?xs)) True))"
    using assms(3,4) m t by (intro consistencySubproof_msubproof [OF t _ al]) (auto simp: built_def)
  then have "merkle_ConsistencyProof t (int m) (int ?n) = Some (Inr ?path)"
    using t m assms(3) by (simp add: merkle_ConsistencyProof_def built_def)
  moreover have "map Hash ?path = rfc_PROOF m leaves"
    using rfc_SUBPROOF_msubproof [of leaves m True] assms(3) by (cases leaves) (simp_all add: rfc_PROOF_def)
  moreover have "\<exists>ins. vsub m ?n True (mth (take m ?xs)) (map Hash ?path) = Some (mth ?xs, mth (take m ?xs), [], ins)"
    using vsub_complete [of m ?xs True "[]"] m assms(3) by simp
  ultimately show ?thesis
    using merkle_VerifyConsistency_vsub [of m ?n] m assms(3,4) roots lens by auto
qed

lemma VerifyConsistency_binds:
  assumes "merkle_New leaves = Inr t" and "0 < m" and "m \<le> length leaves" and "length leaves \<le> 2 ^ 62"
    and "\<forall>s\<in>set path. length (Hash s) = 32"
    and "merkle_VerifyConsistency oldRoot (Root t) (int m) (int (length leaves)) path = Some True"
  shows "(\<exists>t0. merkle_New (take m leaves) = Inr t0 \<and> oldRoot = Root t0) \<or>
    collision_between (consistency_inputs m (length leaves) oldRoot path) (tree_inputs leaves)"
proof -
  let ?xs = "map leafHash leaves" and ?n = "length leaves"
  have t: "built t ?xs" using assms(1) built_New by auto
  have root: "Root t = mth ?xs" using t by (auto simp: built_def Root_def last_build_levels)
  have len: "length (mth ?xs) = 32" using t by (auto simp: built_def intro!: mth_length)
  have "leaves \<noteq> []" using assms(2,3) by auto
  then obtain t0 where new: "merkle_New (take m leaves) = Inr t0"
    using assms(2) by (simp add: merkle_New_def)
  then have t0: "built t0 (take m ?xs)" using built_New by (auto simp: take_map)
  have root0: "Root t0 = mth (take m ?xs)" using t0 by (auto simp: built_def Root_def last_build_levels)
  show ?thesis
  proof (cases "m = ?n")
    case True
    then show ?thesis
      using assms(6) new root root0 by (auto simp: merkle_VerifyConsistency_def split: if_splits)
  next
    case False
    have old: "length oldRoot = 32"
      using assms(6) by (auto simp: merkle_VerifyConsistency_def split: if_splits)
    obtain ins where v: "vsub m ?n True oldRoot (map Hash path) = Some (mth ?xs, oldRoot, [], ins)"
      using merkle_VerifyConsistency_vsub [of m ?n oldRoot "Root t" path] assms False old len root by auto
    then have "oldRoot = mth (take m ?xs) \<or> collision_between ins (level_inputs ?xs)"
      using assms(2,3,5) old by (intro vsub_sound [OF v]) auto
    then show ?thesis
      using new root0 v
      by (auto simp: consistency_inputs_def tree_inputs_def intro: collision_between_mono)
  qed
qed

section \<open>Properties\<close>

text \<open>
  C19: for a built tree of at most \<open>2 ^ 62\<close> leaves and every proper prefix of its leaves,
  \<^verbatim>\<open>ConsistencyProof\<close> returns the proof of RFC 6962 and \<^verbatim>\<open>VerifyConsistency\<close> accepts it
  against the root of the prefix and the root of the tree.
\<close>

theorem merkle_consistency_complete:
  assumes "merkle_New leaves = Inr t" and "merkle_New (take m leaves) = Inr t0"
    and "m < length leaves" and "length leaves \<le> 2 ^ 62"
  shows "\<exists>path. merkle_ConsistencyProof t (int m) (int (length leaves)) = Some (Inr path) \<and>
    map Hash path = rfc_PROOF m leaves \<and>
    merkle_VerifyConsistency (Root t0) (Root t) (int m) (int (length leaves)) path = Some True"
  using assms by (rule VerifyConsistency_of_Proof)

theorem merkle_consistency_complete_witness:
  "\<exists>t t0 path. merkle_New [[1], [2], [3]] = Inr t \<and> merkle_New [[1], [2]] = Inr t0 \<and>
     merkle_ConsistencyProof t 2 3 = Some (Inr path) \<and> map Hash path = rfc_PROOF 2 [[1], [2], [3]] \<and>
     merkle_VerifyConsistency (Root t0) (Root t) 2 3 path = Some True"
proof -
  obtain t t0 where t: "merkle_New [[1], [2], [3]] = Inr t" and t0: "merkle_New [[1], [2]] = Inr t0"
    by (simp add: merkle_New_def)
  from merkle_consistency_complete [OF t, of 2] t t0 show ?thesis by auto
qed

text \<open>
  C5: if \<^verbatim>\<open>VerifyConsistency\<close> accepts an old root of size \<open>m\<close> against the root of a built tree,
  then the old root is the root of the tree's first \<open>m\<close> leaves, or an input the verifier hashed
  collides under SHA-256 with an input hashed when the tree was built.
\<close>

theorem merkle_consistency_sound:
  assumes "merkle_New leaves = Inr t" and "0 < m" and "m \<le> length leaves" and "length leaves \<le> 2 ^ 62"
    and "\<forall>s\<in>set path. length (Hash s) = 32"
    and "merkle_VerifyConsistency oldRoot (Root t) (int m) (int (length leaves)) path = Some True"
  shows "(\<exists>t0. merkle_New (take m leaves) = Inr t0 \<and> oldRoot = Root t0) \<or>
    collision_between (consistency_inputs m (length leaves) oldRoot path) (tree_inputs leaves)"
  using assms by (rule VerifyConsistency_binds)

theorem merkle_consistency_sound_witness:
  "\<exists>t oldRoot path. merkle_New [[1], [2]] = Inr t \<and>
     merkle_VerifyConsistency oldRoot (Root t) 1 2 path = Some True \<and>
     ((\<exists>t0. merkle_New [[1]] = Inr t0 \<and> oldRoot = Root t0) \<or>
      collision_between (consistency_inputs 1 2 oldRoot path) (tree_inputs [[1], [2]]))"
proof -
  let ?p = "[\<lparr>Hash = leafHash [2], IsRight = True\<rparr>]"
  obtain t where t: "merkle_New [[1], [2]] = Inr t" by (simp add: merkle_New_def)
  then have root: "Root t = nodeHash (leafHash [1]) (leafHash [2])"
    by (auto simp: merkle_New_def Root_def build_levels.simps [of "[_, _]"] build_levels.simps [of "[_]"])
  have "vsub 1 2 True (leafHash [1]) (map Hash ?p) = Some (Root t, leafHash [1], [], [nodePrefix # leafHash [1] @ leafHash [2]])"
    by (simp add: vsub.simps [of "Suc 0" 2] vsub.simps [of "Suc 0" "Suc 0"] lp2_small root)
  then have v: "merkle_VerifyConsistency (leafHash [1]) (Root t) (int 1) (int (length [[1 :: byte], [2]])) ?p = Some True"
    using merkle_VerifyConsistency_vsub [of 1 2 "leafHash [1]" "Root t" ?p] root by simp
  have two: "length [[1 :: byte], [2]] = 2" by simp
  from merkle_consistency_sound [OF t _ _ _ _ v, unfolded two] t v show ?thesis by auto
qed

text \<open>
  C14: \<^verbatim>\<open>VerifyConsistency\<close> returns on exactly the calls that fail an early test or claim a new
  size of at most \<open>2 ^ 62\<close>; a well-formed call with a larger new size loops forever in
  \<^verbatim>\<open>largestPow2LessThan\<close>.
\<close>

theorem merkle_VerifyConsistency_returns:
  "(\<exists>b. merkle_VerifyConsistency oldRoot newRoot m n path = Some b) \<longleftrightarrow>
   \<not> (length oldRoot = 32 \<and> length newRoot = 32 \<and> 0 < m \<and> m < n \<and> 2 ^ 62 < n)"
proof (cases "length oldRoot = 32 \<and> length newRoot = 32 \<and> 0 < m \<and> m < n")
  case False
  then show ?thesis by (auto simp: merkle_VerifyConsistency_def)
next
  case True
  show ?thesis
  proof (cases "n \<le> 2 ^ 62")
    case le: True
    have "0 < nat m" "nat m < nat n" "int (nat m) = m" "int (nat n) = n" "nat n \<le> 2 ^ 62"
      using True le by auto
    then have "\<exists>b. merkle_VerifyConsistency oldRoot newRoot m n path = Some b"
      using merkle_VerifyConsistency_vsub [of "nat m" "nat n" oldRoot newRoot path] True by simp
    with le show ?thesis by simp
  next
    case False
    then have "largestPow2LessThan n = None" by (intro largestPow2LessThan_diverges) simp
    then have "verifySubproof m n True (Some oldRoot) \<lparr>csteps = path, cnext = 0\<rparr> = None"
      using True by (subst verifySubproof.simps) simp
    with True False show ?thesis by (simp add: merkle_VerifyConsistency_def)
  qed
qed

end
