(* ===== verification/Rlp.thy ===== *)
theory Rlp
  imports Prelude
begin

text \<open>
  RLP serialisation of \<^verbatim>\<open>src/chain/rlp/rlp.go\<close>: the encoders, and the decoder with its bounds on
  input size and nesting. A Go slice expression whose bounds are out of range panics, which is a
  fault of its own beside the package's errors. The decoder is shown to be the exact inverse of the
  encoder on the trees within those bounds.
\<close>

section \<open>Values, errors and bounds\<close>

datatype rlp_error =
    ErrTruncated
  | ErrInvalidEncoding
  | ErrTrailingBytes
  | ErrInputTooLarge
  | ErrNestingLimit

datatype rlp_fault = RlpErr rlp_error | RlpPanic

text \<open>\<^verbatim>\<open>Decode\<close> returns \<^verbatim>\<open>[]byte\<close> or \<^verbatim>\<open>[]interface{}\<close>.\<close>

datatype rlp = RlpBytes bytes | RlpList "rlp list"

definition MaxInputLen :: nat where
  "MaxInputLen = 10 * 2 ^ 20"

definition MaxNestingDepth :: nat where
  "MaxNestingDepth = 64"

section \<open>Encoding\<close>

text \<open>\<^verbatim>\<open>binary.BigEndian.PutUint64\<close> into a fresh 8-byte buffer.\<close>

definition PutUint64 :: "u64 \<Rightarrow> bytes" where
  "PutUint64 n = map (\<lambda>i. ucast (drop_bit (8 * i) n)) [7, 6, 5, 4, 3, 2, 1, 0]"

text \<open>The loop \<^verbatim>\<open>for i < 7 && buf[i] == 0\<close> keeps at least the last byte.\<close>

fun strip_zeros :: "bytes \<Rightarrow> bytes" where
  "strip_zeros (x # y # xs) = (if x = 0 then strip_zeros (y # xs) else x # y # xs)"
| "strip_zeros xs = xs"

definition uintToBytes :: "u64 \<Rightarrow> bytes" where
  "uintToBytes n = (if n = 0 then [] else strip_zeros (PutUint64 n))"

definition EncodeBytes :: "bytes \<Rightarrow> bytes" where
  "EncodeBytes b =
    (if length b = 0 then [0x80]
     else if length b = 1 \<and> b ! 0 < 0x80 then [b ! 0]
     else if length b \<le> 55 then word_of_nat (0x80 + length b) # b
     else (let lenBytes = uintToBytes (word_of_nat (length b))
           in word_of_nat (0xb7 + length lenBytes) # lenBytes @ b))"

definition EncodeList :: "bytes list \<Rightarrow> bytes" where
  "EncodeList items =
    (let total = sum_list (map length items)
     in if total \<le> 55 then word_of_nat (0xc0 + total) # concat items
        else (let lenBytes = uintToBytes (word_of_nat total)
              in word_of_nat (0xf7 + length lenBytes) # lenBytes @ concat items))"

definition EncodeUint64 :: "u64 \<Rightarrow> bytes" where
  "EncodeUint64 n = (if n = 0 then EncodeBytes [] else EncodeBytes (strip_zeros (PutUint64 n)))"

section \<open>Decoding\<close>

text \<open>
  \<^verbatim>\<open>b[lo:hi]\<close>. Go compares \<^verbatim>\<open>hi\<close> with the capacity rather than the length; the decoder only
  slices up to bounds it has compared with the length, so the two agree on every call below.
\<close>

definition go_slice :: "bytes \<Rightarrow> int \<Rightarrow> int \<Rightarrow> rlp_fault + bytes" where
  "go_slice b lo hi =
    (if 0 \<le> lo \<and> lo \<le> hi \<and> hi \<le> int (length b)
     then Inr (take (nat (hi - lo)) (drop (nat lo) b)) else Inl RlpPanic)"

unbundle bit_operations_syntax

definition decodeLength :: "bytes \<Rightarrow> rlp_fault + u64" where
  "decodeLength b =
    (if length b = 0 then Inl (RlpErr ErrTruncated)
     else if length b > 1 \<and> b ! 0 = 0 then Inl (RlpErr ErrInvalidEncoding)
     else Inr (foldl (\<lambda>n c. push_bit 8 n OR ucast c) 0 b))"

text \<open>
  The short and the long header are read the same way for strings and for lists: the payload and
  what follows it.
\<close>

definition short_payload :: "bytes \<Rightarrow> nat \<Rightarrow> rlp_fault + bytes \<times> bytes" where
  "short_payload b len =
    (if length b < 1 + len then Inl (RlpErr ErrTruncated)
     else Inr (take len (drop 1 b), drop (1 + len) b))"

definition long_payload :: "bytes \<Rightarrow> nat \<Rightarrow> rlp_fault + bytes \<times> bytes" where
  "long_payload b lenOfLen =
    (if length b < 1 + lenOfLen then Inl (RlpErr ErrTruncated)
     else sbind (decodeLength (take lenOfLen (drop 1 b))) (\<lambda>len.
       if len \<le> 55 then Inl (RlpErr ErrInvalidEncoding)
       else if word_of_nat (length b) < 1 + word_of_nat lenOfLen + len then Inl (RlpErr ErrTruncated)
       else (let end = wrap_int (1 + int lenOfLen + sint len)
             in sbind (go_slice b (1 + int lenOfLen) end) (\<lambda>payload.
                sbind (go_slice b end (int (length b))) (\<lambda>rest. Inr (payload, rest))))))"

lemma short_payload_Inr:
  "short_payload b n = Inr (p, r) \<longleftrightarrow> (\<exists>x. b = x # p @ r) \<and> length p = n"
proof (cases b)
  case (Cons x b')
  then show ?thesis by (auto simp: short_payload_def not_less)
qed (simp add: short_payload_def)

lemma long_payload_shorter: "long_payload b n = Inr (p, r) \<Longrightarrow> length p + length r < length b"
  by (auto simp: long_payload_def go_slice_def Let_def sbind_Inr_conv split: if_splits)

function (sequential) decodeItem :: "bytes \<Rightarrow> nat \<Rightarrow> rlp_fault + rlp \<times> bytes"
  and decodeListItems :: "bytes \<Rightarrow> nat \<Rightarrow> rlp_fault + rlp list" where
  "decodeItem [] depth = Inl (RlpErr ErrTruncated)"
| "decodeItem (prefix # bs) depth =
    (if prefix \<ge> 0xc0 \<and> depth \<ge> MaxNestingDepth then Inl (RlpErr ErrNestingLimit)
     else if prefix \<le> 0x7f then Inr (RlpBytes [prefix], bs)
     else if prefix \<le> 0xb7 then
       sbind (short_payload (prefix # bs) (unat (prefix - 0x80))) (\<lambda>(str, rest).
         if length str = 1 \<and> str ! 0 < 0x80 then Inl (RlpErr ErrInvalidEncoding)
         else Inr (RlpBytes str, rest))
     else if prefix \<le> 0xbf then
       sbind (long_payload (prefix # bs) (unat (prefix - 0xb7))) (\<lambda>(str, rest).
         Inr (RlpBytes str, rest))
     else if prefix \<le> 0xf7 then
       sbind (short_payload (prefix # bs) (unat (prefix - 0xc0))) (\<lambda>(payload, rest).
         sbind (decodeListItems payload (depth + 1)) (\<lambda>list. Inr (RlpList list, rest)))
     else
       sbind (long_payload (prefix # bs) (unat (prefix - 0xf7))) (\<lambda>(payload, rest).
         sbind (decodeListItems payload (depth + 1)) (\<lambda>list. Inr (RlpList list, rest))))"
| "decodeListItems b depth =
    (if length b > 0
     then sbind (decodeItem b depth) (\<lambda>(val, rest).
            sbind (decodeListItems rest depth) (\<lambda>items. Inr (val # items)))
     else Inr [])"
  by pat_completeness auto

lemma decodeItem_shorter_dom:
  assumes "decodeItem_decodeListItems_dom (Inl (b, depth))" and "decodeItem b depth = Inr (v, rest)"
  shows "length rest < length b"
  using assms
  by (cases b)
    (auto simp: decodeItem.psimps sbind_Inr_conv short_payload_Inr dest!: long_payload_shorter
      split: if_splits)

termination decodeItem
proof (relation "measure (\<lambda>x. case x of Inl (b, _) \<Rightarrow> 2 * length b | Inr (b, _) \<Rightarrow> 2 * length b + 1)")
qed (auto simp: short_payload_Inr dest!: long_payload_shorter decodeItem_shorter_dom)

declare decodeItem.simps [simp del] decodeListItems.simps [simp del]

definition Decode :: "bytes \<Rightarrow> rlp_fault + rlp" where
  "Decode b =
    (if length b = 0 then Inl (RlpErr ErrTruncated)
     else if length b > MaxInputLen then Inl (RlpErr ErrInputTooLarge)
     else sbind (decodeItem b 0) (\<lambda>(val, rest).
       if length rest > 0 then Inl (RlpErr ErrTrailingBytes) else Inr val))"

section \<open>Big-endian lengths\<close>

lemma PutUint64_digits: "PutUint64 n = map (\<lambda>i. word_of_nat (unat n div 256 ^ i)) (rev [0..<8])"
proof -
  have "ucast (drop_bit (8 * i) n) = (word_of_nat (unat n div 256 ^ i) :: byte)" for i
  proof -
    have "unat n div 256 ^ i = drop_bit (8 * i) (unat n)" by (simp add: drop_bit_eq_div power_mult)
    then show ?thesis by (auto intro!: bit_word_eqI simp: bit_simps)
  qed
  moreover have "rev [0..<8] = [7, 6, 5, 4, 3, 2, 1, 0 :: nat]" by (simp add: upt_rec)
  ultimately show ?thesis by (simp add: PutUint64_def)
qed

lemma be_val_PutUint64: "be_val (PutUint64 n) = unat n"
  using unat_u64 [of n] by (simp add: PutUint64_digits be_val_digits)

lemma be_val_strip_zeros [simp]: "be_val (strip_zeros xs) = be_val xs"
  by (induction xs rule: strip_zeros.induct) (auto simp: be_val_Cons)

lemma strip_zeros_leading: "be_val xs \<noteq> 0 \<Longrightarrow> strip_zeros xs \<noteq> [] \<and> hd (strip_zeros xs) \<noteq> 0"
  by (induction xs rule: strip_zeros.induct) (auto simp: be_val_Cons)

lemma length_strip_zeros: "length (strip_zeros xs) \<le> length xs"
  by (induction xs rule: strip_zeros.induct) auto

lemma uintToBytes_val [simp]: "be_val (uintToBytes n) = unat n"
  by (simp add: uintToBytes_def be_val_PutUint64)

lemma uintToBytes_leading: "n \<noteq> 0 \<Longrightarrow> uintToBytes n \<noteq> [] \<and> hd (uintToBytes n) \<noteq> 0"
  using strip_zeros_leading [of "PutUint64 n"] by (simp add: uintToBytes_def be_val_PutUint64 unat_eq_0)

lemma length_uintToBytes: "length (uintToBytes n) \<le> 8"
  using length_strip_zeros [of "PutUint64 n"] by (auto simp: uintToBytes_def PutUint64_def)

lemma uintToBytes_be_val:
  assumes "xs \<noteq> []" "hd xs \<noteq> 0" "length xs \<le> 8"
  shows "uintToBytes (word_of_nat (be_val xs)) = xs"
proof -
  have "be_val xs < 256 ^ length xs" by (rule be_val_bound)
  also have "\<dots> \<le> 256 ^ 8" using assms(3) by (intro power_increasing) auto
  finally have u: "unat (word_of_nat (be_val xs) :: u64) = be_val xs" by (simp add: unat_of_nat)
  have "0 < be_val xs" using be_val_leading [OF assms(1,2)] by (rule order.strict_trans2 [rotated]) simp
  then have "(word_of_nat (be_val xs) :: u64) \<noteq> 0" using u by (metis less_irrefl unat_0)
  from uintToBytes_leading [OF this] assms show ?thesis by (intro be_val_inj) (simp_all add: u)
qed

lemma decodeLength_fold: "foldl (\<lambda>n c. push_bit 8 n OR ucast c) 0 b = (word_of_nat (be_val b) :: u64)"
proof (induction b rule: rev_induct)
  case (snoc c b)
  have "push_bit 8 n OR ucast c = push_bit 8 n + (ucast c :: u64)" for n :: u64
    by (rule disjunctive_add [symmetric]) (auto simp: bit_simps dest: bit_imp_le_length)
  then show ?case by (simp add: snoc) (simp add: push_bit_eq_mult)
qed simp

section \<open>Headers\<close>

lemma sint_u64: "sint (w :: u64) = (if unat w < 2 ^ 63 then int (unat w) else int (unat w) - 2 ^ 64)"
  using wrap_int_nat [OF unat_u64, of w] by (simp only: sint_wrap_int uint_nat)

text \<open>A long header, for every length it can announce; the last case is a wrapped sum.\<close>

lemma long_payload_eq:
  assumes b: "b = x # ls @ t" "length b < 2 ^ 63" and ls: "ls \<noteq> []" "hd ls \<noteq> 0" "length ls \<le> 8"
  shows "long_payload b (length ls) =
    (if be_val ls \<le> 55 then Inl (RlpErr ErrInvalidEncoding)
     else if 2 ^ 64 \<le> 1 + length ls + be_val ls then Inl RlpPanic
     else if length t < be_val ls then Inl (RlpErr ErrTruncated)
     else Inr (take (be_val ls) t, drop (be_val ls) t))"
proof -
  let ?v = "be_val ls" and ?n = "length ls"
  define len :: u64 where "len = word_of_nat ?v"
  have "?v < 256 ^ ?n" by (rule be_val_bound)
  also have "\<dots> \<le> 256 ^ 8" using ls(3) by (intro power_increasing) auto
  finally have v: "?v < 2 ^ 64" by simp
  then have u: "unat len = ?v" by (simp add: len_def unat_of_nat)
  have dl: "decodeLength (take ?n (drop 1 b)) = Inr len"
    unfolding decodeLength_def decodeLength_fold using ls by (simp add: b len_def hd_conv_nth)
  have le55: "len \<le> 55 \<longleftrightarrow> ?v \<le> 55" by (simp add: word_le_nat_alt u)
  have ub: "unat (word_of_nat (length b) :: u64) = length b" using b(2) by (simp add: unat_of_nat)
  have sum: "unat (1 + word_of_nat ?n + len) = (1 + ?n + ?v) mod 2 ^ 64"
    by (simp add: len_def unat_of_nat flip: of_nat_Suc of_nat_add)
  have cmp: "(word_of_nat (length b) :: u64) < 1 + word_of_nat ?n + len \<longleftrightarrow> length b < (1 + ?n + ?v) mod 2 ^ 64"
    by (simp only: word_less_nat_alt sum ub)
  have lenb: "length b = 1 + ?n + length t" by (simp add: b)
  note unfolds = long_payload_def dl sbind_simps le55 cmp go_slice_def Let_def
  show ?thesis
  proof (cases "2 ^ 64 \<le> 1 + ?n + ?v")
    case True
    have "(1 + ?n + ?v) mod 2 ^ 64 = 1 + ?n + ?v - 2 ^ 64"
      using True v ls(3) by (subst le_mod_geq) simp_all
    then have "\<not> length b < (1 + ?n + ?v) mod 2 ^ 64" using v lenb by simp
    moreover have "sint len = int ?v - 2 ^ 64" using True ls(3) by (simp add: sint_u64 u)
    moreover have "wrap_int (1 + int ?n + (int ?v - 2 ^ 64)) = 1 + int ?n + int ?v - 2 ^ 64"
      using True v ls(3) by (subst wrap_int_id) (auto simp: int_range_def)
    ultimately show ?thesis
      using True v ls(3) lenb unfolding unfolds by simp
  next
    case False
    then have "length b < (1 + ?n + ?v) mod 2 ^ 64 \<longleftrightarrow> length t < ?v" using lenb by simp
    moreover have "wrap_int (1 + int ?n + sint len) = 1 + int ?n + int ?v" if "\<not> length t < ?v"
    proof -
      have le: "1 + ?n + ?v < 2 ^ 63" using that lenb b(2) by linarith
      then have "sint len = int ?v" by (simp add: sint_u64 u)
      moreover have "int_range (1 + int ?n + int ?v)" using le by (simp add: int_range_def)
      ultimately show ?thesis by simp
    qed
    moreover have "take (nat (1 + int ?n + int ?v - (1 + int ?n))) (drop (nat (1 + int ?n)) b) = take ?v t"
      "drop (nat (1 + int ?n + int ?v)) b = drop ?v t"
      by (simp_all add: b nat_add_distrib)
    ultimately show ?thesis
      using False lenb unfolding unfolds by auto
  qed
qed

lemma long_payload_Inr:
  assumes "length b < 2 ^ 63" and "n \<le> 8"
  shows "long_payload b n = Inr (p, r) \<longleftrightarrow>
    (\<exists>x. b = x # uintToBytes (word_of_nat (length p)) @ p @ r) \<and> 55 < length p \<and>
    n = length (uintToBytes (word_of_nat (length p)))"
proof
  assume ok: "long_payload b n = Inr (p, r)"
  then have "1 + n \<le> length b" by (simp add: long_payload_def split: if_splits)
  then have "b = hd b # take n (tl b) @ drop n (tl b)" "length (take n (tl b)) = n" by (cases b, auto)+
  then obtain x ls t where b: "b = x # ls @ t" "length ls = n" by blast
  have "ls \<noteq> [] \<and> hd ls \<noteq> 0"
    using ok b by (cases ls) (auto simp: long_payload_def decodeLength_def split: if_splits)
  with ok long_payload_eq [of b x ls t] assms b
  have *: "55 < be_val ls" "be_val ls \<le> length t" "p = take (be_val ls) t" "r = drop (be_val ls) t"
    by (auto split: if_splits)
  then have "uintToBytes (word_of_nat (length p)) = ls"
    using uintToBytes_be_val [of ls] \<open>ls \<noteq> [] \<and> hd ls \<noteq> 0\<close> assms b by simp
  with * b show "(\<exists>x. b = x # uintToBytes (word_of_nat (length p)) @ p @ r) \<and> 55 < length p \<and>
      n = length (uintToBytes (word_of_nat (length p)))"
    by simp
next
  let ?ls = "uintToBytes (word_of_nat (length p))"
  assume *: "(\<exists>x. b = x # ?ls @ p @ r) \<and> 55 < length p \<and> n = length ?ls"
  then have v: "be_val ?ls = length p" "length p < 2 ^ 63" using assms(1) by (auto simp: unat_of_nat)
  with * have "(word_of_nat (length p) :: u64) \<noteq> 0" by (metis be_val_Nil less_zeroE uintToBytes_def)
  from uintToBytes_leading [OF this] * show "long_payload b n = Inr (p, r)"
    using long_payload_eq [of b _ ?ls "p @ r"] v assms by (auto simp: length_uintToBytes)
qed

text \<open>The decoder's case distinction on the first byte, by its number.\<close>

lemma decodeItem_number:
  "decodeItem (x # bs) d =
    (if unat x \<ge> 0xc0 \<and> d \<ge> MaxNestingDepth then Inl (RlpErr ErrNestingLimit)
     else if unat x \<le> 0x7f then Inr (RlpBytes [x], bs)
     else if unat x \<le> 0xb7 then
       sbind (short_payload (x # bs) (unat x - 0x80)) (\<lambda>(str, rest).
         if length str = 1 \<and> str ! 0 < 0x80 then Inl (RlpErr ErrInvalidEncoding)
         else Inr (RlpBytes str, rest))
     else if unat x \<le> 0xbf then
       sbind (long_payload (x # bs) (unat x - 0xb7)) (\<lambda>(str, rest). Inr (RlpBytes str, rest))
     else if unat x \<le> 0xf7 then
       sbind (short_payload (x # bs) (unat x - 0xc0)) (\<lambda>(payload, rest).
         sbind (decodeListItems payload (d + 1)) (\<lambda>list. Inr (RlpList list, rest)))
     else
       sbind (long_payload (x # bs) (unat x - 0xf7)) (\<lambda>(payload, rest).
         sbind (decodeListItems payload (d + 1)) (\<lambda>list. Inr (RlpList list, rest))))"
proof -
  have cmp: "x \<le> 0x7f \<longleftrightarrow> unat x \<le> 0x7f" "x \<le> 0xb7 \<longleftrightarrow> unat x \<le> 0xb7" "x \<le> 0xbf \<longleftrightarrow> unat x \<le> 0xbf"
    "x \<le> 0xf7 \<longleftrightarrow> unat x \<le> 0xf7" "0xc0 \<le> x \<longleftrightarrow> 0xc0 \<le> unat x"
    by (simp_all add: word_le_nat_alt)
  have sub: "0x80 \<le> unat x \<Longrightarrow> unat (x - 0x80) = unat x - 0x80"
    "0xb7 \<le> unat x \<Longrightarrow> unat (x - 0xb7) = unat x - 0xb7"
    "0xc0 \<le> unat x \<Longrightarrow> unat (x - 0xc0) = unat x - 0xc0"
    "0xf7 \<le> unat x \<Longrightarrow> unat (x - 0xf7) = unat x - 0xf7"
    by (subst unat_sub; simp add: word_le_nat_alt)+
  show ?thesis
    unfolding decodeItem.simps cmp by (intro if_cong refl) (simp_all add: sub)
qed

section \<open>Trees and their encoding\<close>

fun rlp_encode :: "rlp \<Rightarrow> bytes" where
  "rlp_encode (RlpBytes b) = EncodeBytes b"
| "rlp_encode (RlpList xs) = EncodeList (map rlp_encode xs)"

fun rlp_nesting :: "rlp \<Rightarrow> nat" where
  "rlp_nesting (RlpBytes b) = 0"
| "rlp_nesting (RlpList xs) = Suc (foldr max (map rlp_nesting xs) 0)"

lemma foldr_max_le: "foldr max ns 0 \<le> (k :: nat) \<longleftrightarrow> (\<forall>n\<in>set ns. n \<le> k)"
  by (induction ns) auto

text \<open>\<^verbatim>\<open>EncodeList\<close> depends on the concatenation of its items only.\<close>

definition list_header :: "bytes \<Rightarrow> bytes" where
  "list_header payload =
    (if length payload \<le> 55 then [word_of_nat (0xc0 + length payload)]
     else word_of_nat (0xf7 + length (uintToBytes (word_of_nat (length payload)))) #
          uintToBytes (word_of_nat (length payload)))"

lemma EncodeList_header: "EncodeList items = list_header (concat items) @ concat items"
  by (simp add: EncodeList_def list_header_def Let_def length_concat)

lemma uintToBytes_pos: "n \<noteq> 0 \<Longrightarrow> n < 2 ^ 64 \<Longrightarrow> 0 < length (uintToBytes (word_of_nat n))"
proof -
  assume "n \<noteq> 0" "n < 2 ^ 64"
  then have "unat (word_of_nat n :: u64) \<noteq> 0" by (simp add: unat_of_nat)
  then have "(word_of_nat n :: u64) \<noteq> 0" by (metis unat_0)
  with uintToBytes_leading show ?thesis by blast
qed

lemma decodeItem_EncodeBytes:
  assumes "length (EncodeBytes s @ rest) < 2 ^ 63"
  shows "decodeItem (EncodeBytes s @ rest) d = Inr (RlpBytes s, rest)"
proof -
  consider "s = []" | y where "s = [y]" "y < 0x80" | "s \<noteq> []" "\<not> (length s = 1 \<and> s ! 0 < 0x80)" "length s \<le> 55"
    | "55 < length s"
    by (cases s; cases "tl s"; cases "length s \<le> 55") auto
  then show ?thesis
  proof cases
    case 1
    then show ?thesis by (simp add: EncodeBytes_def decodeItem_number short_payload_def)
  next
    case 2
    then show ?thesis by (simp add: EncodeBytes_def decodeItem_number word_less_nat_alt)
  next
    case 3
    then have "EncodeBytes s = word_of_nat (0x80 + length s) # s" by (auto simp: EncodeBytes_def)
    moreover have "unat (word_of_nat (0x80 + length s) :: byte) = 0x80 + length s" using 3 by (intro unat_of_nat_byte) simp
    moreover have "0 < length s" using 3 by simp
    ultimately show ?thesis using 3 by (simp add: decodeItem_number short_payload_def)
  next
    case 4
    let ?ls = "uintToBytes (word_of_nat (length s))"
    have enc: "EncodeBytes s = word_of_nat (0xb7 + length ?ls) # ?ls @ s"
      using 4 by (auto simp: EncodeBytes_def Let_def)
    have len: "0 < length ?ls" "length ?ls \<le> 8"
      using 4 assms uintToBytes_pos [of "length s"] by (simp_all add: enc length_uintToBytes) (metis list.size(3) not_less_zero)
    then have u: "unat (word_of_nat (0xb7 + length ?ls) :: byte) = 0xb7 + length ?ls" by (intro unat_of_nat_byte) simp
    have "long_payload (word_of_nat (0xb7 + length ?ls) # ?ls @ s @ rest) (length ?ls) = Inr (s, rest)"
      using 4 assms len by (subst long_payload_Inr) (auto simp: enc)
    with u len show ?thesis by (simp add: enc decodeItem_number)
  qed
qed

lemma decodeItem_EncodeList:
  assumes "length (list_header payload @ payload @ rest) < 2 ^ 63" and "d < MaxNestingDepth"
    and "decodeListItems payload (d + 1) = Inr vs"
  shows "decodeItem (list_header payload @ payload @ rest) d = Inr (RlpList vs, rest)"
proof (cases "length payload \<le> 55")
  case True
  then have "unat (word_of_nat (0xc0 + length payload) :: byte) = 0xc0 + length payload" by (intro unat_of_nat_byte) simp
  with True assms show ?thesis by (simp add: list_header_def decodeItem_number short_payload_def)
next
  case False
  let ?ls = "uintToBytes (word_of_nat (length payload))"
  have enc: "list_header payload = word_of_nat (0xf7 + length ?ls) # ?ls"
    using False by (simp add: list_header_def)
  have len: "0 < length ?ls" "length ?ls \<le> 8"
    using False assms uintToBytes_pos [of "length payload"] by (simp_all add: enc length_uintToBytes) (metis list.size(3) le0)
  then have u: "unat (word_of_nat (0xf7 + length ?ls) :: byte) = 0xf7 + length ?ls" by (intro unat_of_nat_byte) simp
  have "long_payload (word_of_nat (0xf7 + length ?ls) # ?ls @ payload @ rest) (length ?ls) = Inr (payload, rest)"
    using False assms len by (subst long_payload_Inr) (auto simp: enc)
  with u len assms show ?thesis by (simp add: enc decodeItem_number)
qed

lemma EncodeBytes_not_Nil [simp]: "EncodeBytes s \<noteq> []" and EncodeList_not_Nil [simp]: "EncodeList xs \<noteq> []"
  by (simp_all add: EncodeBytes_def EncodeList_def Let_def)

lemma rlp_encode_not_Nil [simp]: "rlp_encode v \<noteq> []"
  by (cases v) simp_all

lemma decodeListItems_encode:
  assumes "\<And>v rest. v \<in> set vs \<Longrightarrow> length (rlp_encode v @ rest) < 2 ^ 63 \<Longrightarrow>
      decodeItem (rlp_encode v @ rest) d = Inr (v, rest)"
    and "length (concat (map rlp_encode vs)) < 2 ^ 63"
  shows "decodeListItems (concat (map rlp_encode vs)) d = Inr vs"
  using assms
proof (induction vs)
  case Nil
  then show ?case by (simp add: decodeListItems.simps)
next
  case (Cons v vs)
  have "decodeItem (rlp_encode v @ concat (map rlp_encode vs)) d = Inr (v, concat (map rlp_encode vs))"
    using Cons.prems by simp
  with Cons show ?case by (subst decodeListItems.simps) simp
qed

lemma decodeItem_encode:
  "d + rlp_nesting v \<le> MaxNestingDepth \<Longrightarrow> length (rlp_encode v @ rest) < 2 ^ 63 \<Longrightarrow>
   decodeItem (rlp_encode v @ rest) d = Inr (v, rest)"
proof (induction v arbitrary: d rest)
  case (RlpBytes s)
  then show ?case using decodeItem_EncodeBytes by simp
next
  case (RlpList vs)
  let ?p = "concat (map rlp_encode vs)"
  have "d < MaxNestingDepth" and "foldr max (map rlp_nesting vs) 0 \<le> MaxNestingDepth - (d + 1)"
    using RlpList.prems by simp_all
  then have "decodeListItems ?p (d + 1) = Inr vs"
    using RlpList.prems by (intro decodeListItems_encode RlpList.IH)
      (fastforce simp: foldr_max_le EncodeList_header)+
  with RlpList.prems \<open>d < MaxNestingDepth\<close> show ?case
    using decodeItem_EncodeList [of ?p rest d vs] by (simp add: EncodeList_header)
qed

section \<open>The decoder accepts encodings only\<close>

lemma byte_of_unat: "unat x = n \<Longrightarrow> x = (word_of_nat n :: byte)"
  by auto

lemma decodeItem_bytes:
  assumes "decodeItem b d = Inr (RlpBytes s, rest)" and "length b < 2 ^ 63"
  shows "b = EncodeBytes s @ rest"
proof (cases b)
  case Nil
  with assms show ?thesis by (simp add: decodeItem.simps)
next
  case (Cons x bs)
  consider "unat x \<le> 0x7f" "s = [x]" "rest = bs"
    | "0x7f < unat x" "unat x \<le> 0xb7" "short_payload b (unat x - 0x80) = Inr (s, rest)" "\<not> (length s = 1 \<and> s ! 0 < 0x80)"
    | "0xb7 < unat x" "unat x \<le> 0xbf" "long_payload b (unat x - 0xb7) = Inr (s, rest)"
    using assms(1) by (auto simp: Cons decodeItem_number sbind_Inr_conv split: if_splits)
  then show ?thesis
  proof cases
    case 1
    then show ?thesis by (simp add: EncodeBytes_def Cons word_less_nat_alt)
  next
    case 2
    then have "b = x # s @ rest" "unat x = 0x80 + length s" by (auto simp: Cons short_payload_Inr)
    with 2 show ?thesis using byte_of_unat [of x "0x80 + length s"] by (auto simp: EncodeBytes_def)
  next
    case 3
    then have *: "b = x # uintToBytes (word_of_nat (length s)) @ s @ rest" "55 < length s"
      "unat x - 0xb7 = length (uintToBytes (word_of_nat (length s)))"
      using assms(2) by (auto simp: Cons long_payload_Inr)
    with 3 have "x = word_of_nat (0xb7 + length (uintToBytes (word_of_nat (length s))))"
      by (intro byte_of_unat) linarith
    with * show ?thesis by (auto simp: EncodeBytes_def Let_def)
  qed
qed

lemma decodeItem_list:
  assumes "decodeItem b d = Inr (RlpList vs, rest)" and "length b < 2 ^ 63"
  obtains payload where "b = list_header payload @ payload @ rest" and "d < MaxNestingDepth"
    and "decodeListItems payload (d + 1) = Inr vs"
proof (cases b)
  case Nil
  with assms show thesis by (simp add: decodeItem.simps)
next
  case (Cons x bs)
  have x: "unat x < 256" by (rule unat_byte)
  obtain payload where d: "d < MaxNestingDepth" and dec: "decodeListItems payload (d + 1) = Inr vs" and
    "(0xbf < unat x \<and> unat x \<le> 0xf7 \<and> short_payload b (unat x - 0xc0) = Inr (payload, rest)) \<or>
     (0xf7 < unat x \<and> long_payload b (unat x - 0xf7) = Inr (payload, rest))"
    using assms(1) by (fastforce simp: Cons decodeItem_number sbind_Inr_conv split: if_splits)
  then have "b = list_header payload @ payload @ rest"
  proof (elim disjE conjE)
    assume *: "0xbf < unat x" "unat x \<le> 0xf7" "short_payload b (unat x - 0xc0) = Inr (payload, rest)"
    then have "b = x # payload @ rest" "unat x = 0xc0 + length payload" by (auto simp: Cons short_payload_Inr)
    with * show ?thesis using byte_of_unat [of x "0xc0 + length payload"] by (auto simp: list_header_def)
  next
    let ?ls = "uintToBytes (word_of_nat (length payload))"
    assume 3: "0xf7 < unat x" "long_payload b (unat x - 0xf7) = Inr (payload, rest)"
    then have *: "b = x # ?ls @ payload @ rest" "55 < length payload" "unat x - 0xf7 = length ?ls"
      using assms(2) x by (auto simp: Cons long_payload_Inr)
    with 3 have "x = word_of_nat (0xf7 + length ?ls)" by (intro byte_of_unat) linarith
    with * show ?thesis by (auto simp: list_header_def)
  qed
  with that d dec show thesis by blast
qed

lemma decodeListItems_sound:
  assumes "\<And>b' v rest. length b' \<le> N \<Longrightarrow> decodeItem b' d = Inr (v, rest) \<Longrightarrow>
      b' = rlp_encode v @ rest \<and> d + rlp_nesting v \<le> MaxNestingDepth"
    and "decodeListItems b d = Inr vs" and "length b \<le> N"
  shows "b = concat (map rlp_encode vs) \<and> (\<forall>v\<in>set vs. d + rlp_nesting v \<le> MaxNestingDepth)"
  using assms(2,3)
proof (induction vs arbitrary: b)
  case Nil
  then show ?case by (auto simp: decodeListItems.simps [of b] sbind_Inr_conv split: if_splits)
next
  case (Cons v vs)
  then obtain rest where rest: "decodeItem b d = Inr (v, rest)" "decodeListItems rest d = Inr vs"
    by (auto simp: decodeListItems.simps [of b] sbind_Inr_conv split: if_splits)
  with assms(1) [of b v rest] Cons show ?case by auto
qed

lemma decodeItem_sound:
  "decodeItem b d = Inr (v, rest) \<Longrightarrow> length b < 2 ^ 63 \<Longrightarrow> d \<le> MaxNestingDepth \<Longrightarrow>
   b = rlp_encode v @ rest \<and> d + rlp_nesting v \<le> MaxNestingDepth"
proof (induction "length b" arbitrary: b d v rest rule: less_induct)
  case less
  show ?case
  proof (cases v)
    case (RlpBytes s)
    then show ?thesis using less.prems decodeItem_bytes by simp
  next
    case (RlpList vs)
    then obtain payload where b: "b = list_header payload @ payload @ rest"
      and d: "d < MaxNestingDepth" and dec: "decodeListItems payload (d + 1) = Inr vs"
      using less.prems decodeItem_list by blast
    have "length payload < length b" by (simp add: b list_header_def)
    then have "b' = rlp_encode v' @ rest' \<and> d + 1 + rlp_nesting v' \<le> MaxNestingDepth"
      if "length b' \<le> length payload" "decodeItem b' (d + 1) = Inr (v', rest')" for b' v' rest'
      using that less.prems d by (intro less.hyps) simp_all
    from decodeListItems_sound [OF this dec]
    have "payload = concat (map rlp_encode vs) \<and> (\<forall>v\<in>set vs. d + 1 + rlp_nesting v \<le> MaxNestingDepth)"
      by simp
    moreover from this have "foldr max (map rlp_nesting vs) 0 \<le> MaxNestingDepth - (d + 1)"
      unfolding foldr_max_le by fastforce
    ultimately show ?thesis using b d RlpList by (auto simp: EncodeList_header)
  qed
qed

lemma MaxInputLen_small: "MaxInputLen < 2 ^ 63"
  by (simp add: MaxInputLen_def)

lemma Decode_Inr:
  "Decode b = Inr v \<longleftrightarrow> b = rlp_encode v \<and> length b \<le> MaxInputLen \<and> rlp_nesting v \<le> MaxNestingDepth"
proof -
  have "decodeItem b 0 = Inr (v, []) \<longleftrightarrow> b = rlp_encode v \<and> rlp_nesting v \<le> MaxNestingDepth"
    if "length b \<le> MaxInputLen"
    using that MaxInputLen_small decodeItem_sound [of b 0 v "[]"] decodeItem_encode [of 0 v "[]"] by fastforce
  then show ?thesis by (auto simp: Decode_def sbind_Inr_conv dest: sym split: if_splits)
qed

text \<open>Eight length bytes that announce at least \<open>2 ^ 64 - 9\<close> bytes wrap the sum of the header and the payload.\<close>

lemma long_payload_panics:
  assumes "length ls = 8" and "2 ^ 64 - 9 \<le> be_val ls" and "9 + length t \<le> MaxInputLen"
  shows "long_payload (x # ls @ t) 8 = Inl RlpPanic"
proof -
  have "ls \<noteq> [] \<and> hd ls \<noteq> 0"
  proof (cases ls)
    case (Cons x xs)
    then have "be_val xs < 256 ^ 7" using be_val_bound [of xs] assms(1) by simp
    with Cons assms show ?thesis by (auto simp: be_val_Cons)
  qed (use assms in simp)
  then show ?thesis using long_payload_eq [of "x # ls @ t" x ls t] assms MaxInputLen_small by simp
qed

interpretation rlp_codec: canonical_codec rlp_encode "\<lambda>b. sum_option (Decode b)"
    "\<lambda>v. length (rlp_encode v) \<le> MaxInputLen \<and> rlp_nesting v \<le> MaxNestingDepth"
  by unfold_locales (auto simp: Decode_Inr)

section \<open>Properties\<close>

text \<open>
  C7: \<^verbatim>\<open>Decode\<close> succeeds with a tree exactly on the one canonical encoding of that tree, and only
  within the input and nesting limits: every encoded tree round-trips and no second byte string
  decodes to it.
\<close>

theorem rlp_Decode_canonical:
  "Decode b = Inr v \<longleftrightarrow>
   b = rlp_encode v \<and> length b \<le> MaxInputLen \<and> rlp_nesting v \<le> MaxNestingDepth"
  by (rule Decode_Inr)

text \<open>
  C20: a long string header of eight length bytes that announces at least \<open>2 ^ 64 - 9\<close> bytes makes
  \<^verbatim>\<open>Decode\<close> panic: the wrapped sum passes the length test and the slice bounds are inverted.
\<close>

theorem rlp_Decode_panics:
  assumes "length ls = 8" and "2 ^ 64 - 9 \<le> be_val ls" and "9 + length t \<le> MaxInputLen"
  shows "Decode (0xbf # ls @ t) = Inl RlpPanic"
proof -
  have "long_payload (0xbf # ls @ t) 8 = Inl RlpPanic" using assms by (rule long_payload_panics)
  then show ?thesis using assms by (simp add: Decode_def decodeItem_number)
qed

theorem rlp_Decode_panics_witness:
  "Decode (0xbf # [0xff, 0xff, 0xff, 0xff, 0xff, 0xff, 0xff, 0xff] @ []) = Inl RlpPanic"
  by (rule rlp_Decode_panics) (simp_all add: be_val_def MaxInputLen_def)

text \<open>
  An encoded integer decodes to its minimal big-endian bytes, with no leading zero, and those
  bytes denote the integer.
\<close>

theorem rlp_EncodeUint64_roundtrip:
  "\<exists>s. Decode (EncodeUint64 n) = Inr (RlpBytes s) \<and> be_val s = unat n \<and> (n = 0 \<longleftrightarrow> s = []) \<and>
     \<not> (\<exists>s'. s = 0 # s')"
proof -
  have enc: "EncodeUint64 n = EncodeBytes (uintToBytes n)"
    by (simp add: EncodeUint64_def uintToBytes_def)
  have "length (EncodeBytes (uintToBytes n)) \<le> 9"
    using length_uintToBytes [of n] by (auto simp: EncodeBytes_def)
  then have "Decode (EncodeUint64 n) = Inr (RlpBytes (uintToBytes n))"
    by (simp add: Decode_Inr enc MaxInputLen_def)
  moreover have "n = 0 \<longleftrightarrow> uintToBytes n = []" using uintToBytes_leading [of n] by (auto simp: uintToBytes_def)
  ultimately show ?thesis using uintToBytes_leading [of n] by fastforce
qed

end
