(* ===== verification/GoText.thy ===== *)
theory GoText
  imports Prelude
begin

text \<open>
  The parts of Go's text libraries the components use. A Go string is its bytes, an Isabelle
  \<open>string\<close>: iteration over runes and its inverse (UTF-8), UTF-16 code units, decimal numbers,
  hexadecimal and base64.
\<close>

section \<open>Runes and UTF-8\<close>

text \<open>
  \<^verbatim>\<open>for _, r := range s\<close> decodes one rune per step; an invalid or truncated sequence yields the
  replacement character and consumes one byte. \<open>decode_rune b bs\<close> returns the rune that starts with
  the byte \<open>b\<close> and how many of the following bytes \<open>bs\<close> belong to it.
\<close>

definition RuneError :: nat where
  "RuneError = 0xFFFD"

definition cont_byte :: "nat \<Rightarrow> bool" where
  "cont_byte b \<longleftrightarrow> 0x80 \<le> b \<and> b \<le> 0xBF"

text \<open>The second byte of the sequences that a plain continuation test would over-accept.\<close>

definition second_ok :: "nat \<Rightarrow> nat \<Rightarrow> bool" where
  "second_ok b0 b1 \<longleftrightarrow>
    (if b0 = 0xE0 then 0xA0 \<le> b1 \<and> b1 \<le> 0xBF
     else if b0 = 0xED then 0x80 \<le> b1 \<and> b1 \<le> 0x9F
     else if b0 = 0xF0 then 0x90 \<le> b1 \<and> b1 \<le> 0xBF
     else if b0 = 0xF4 then 0x80 \<le> b1 \<and> b1 \<le> 0x8F
     else cont_byte b1)"

definition decode_rune :: "nat \<Rightarrow> nat list \<Rightarrow> nat \<times> nat" where
  "decode_rune b0 bs =
    (if b0 < 0x80 then (b0, 0)
     else if 0xC2 \<le> b0 \<and> b0 \<le> 0xDF then
       (case bs of
          b1 # _ \<Rightarrow> if cont_byte b1 then ((b0 - 0xC0) * 64 + (b1 - 0x80), 1) else (RuneError, 0)
        | _ \<Rightarrow> (RuneError, 0))
     else if 0xE0 \<le> b0 \<and> b0 \<le> 0xEF then
       (case bs of
          b1 # b2 # _ \<Rightarrow>
            if second_ok b0 b1 \<and> cont_byte b2
            then ((b0 - 0xE0) * 4096 + (b1 - 0x80) * 64 + (b2 - 0x80), 2) else (RuneError, 0)
        | _ \<Rightarrow> (RuneError, 0))
     else if 0xF0 \<le> b0 \<and> b0 \<le> 0xF4 then
       (case bs of
          b1 # b2 # b3 # _ \<Rightarrow>
            if second_ok b0 b1 \<and> cont_byte b2 \<and> cont_byte b3
            then ((b0 - 0xF0) * 262144 + (b1 - 0x80) * 4096 + (b2 - 0x80) * 64 + (b3 - 0x80), 3)
            else (RuneError, 0)
        | _ \<Rightarrow> (RuneError, 0))
     else (RuneError, 0))"

function runes :: "nat list \<Rightarrow> nat list" where
  "runes [] = []"
| "runes (b # bs) = fst (decode_rune b bs) # runes (drop (snd (decode_rune b bs)) bs)"
  by pat_completeness auto
termination
  by (relation "measure length") auto

definition encode_rune :: "nat \<Rightarrow> nat list" where
  "encode_rune r =
    (let r = (if (0xD800 \<le> r \<and> r \<le> 0xDFFF) \<or> r > 0x10FFFF then RuneError else r)
     in if r < 0x80 then [r]
        else if r < 0x800 then [0xC0 + r div 64, 0x80 + r mod 64]
        else if r < 0x10000 then [0xE0 + r div 4096, 0x80 + r div 64 mod 64, 0x80 + r mod 64]
        else [0xF0 + r div 262144, 0x80 + r div 4096 mod 64, 0x80 + r div 64 mod 64, 0x80 + r mod 64])"

definition string_runes :: "string \<Rightarrow> nat list" where
  "string_runes s = runes (map of_char s)"

definition runes_string :: "nat list \<Rightarrow> string" where
  "runes_string rs = map char_of (concat (map encode_rune rs))"

text \<open>The Unicode scalar values are the runes with an encoding of their own.\<close>

definition scalar :: "nat \<Rightarrow> bool" where
  "scalar r \<longleftrightarrow> r < 0xD800 \<or> (0xDFFF < r \<and> r \<le> 0x10FFFF)"

lemma scalar_RuneError [simp]: "scalar RuneError"
  by (simp add: scalar_def RuneError_def)

text \<open>The six-bit groups of a rune, as variables for linear arithmetic.\<close>

lemma rune_groups:
  obtains a b c d where "(r::nat) = a * 262144 + b * 4096 + c * 64 + d" "b < 64" "c < 64" "d < 64"
    "r div 262144 = a" "r div 4096 = a * 64 + b" "r div 4096 mod 64 = b" "r div 64 = a * 4096 + b * 64 + c"
    "r div 64 mod 64 = c" "r mod 64 = d"
proof -
  define c' where "c' = r div 64"
  define b' where "b' = c' div 64"
  have r: "r = c' * 64 + r mod 64" "c' = b' * 64 + c' mod 64" "b' = b' div 64 * 64 + b' mod 64"
    by (simp_all add: c'_def b'_def)
  have b': "r div 4096 = b'" "r div 262144 = b' div 64"
    using div_mult2_eq [of r 64 64] div_mult2_eq [of r 4096 64] by (simp_all add: b'_def c'_def)
  show thesis
  proof (rule that [of "b' div 64" "b' mod 64" "c' mod 64" "r mod 64"])
    show "r = b' div 64 * 262144 + b' mod 64 * 4096 + c' mod 64 * 64 + r mod 64" using r by linarith
    show "r div 64 = b' div 64 * 4096 + b' mod 64 * 64 + c' mod 64" using r unfolding c'_def [symmetric] by linarith
  qed (use b' in \<open>simp_all add: c'_def [symmetric] b'_def [symmetric]\<close>)
qed

lemma encode_rune_decode:
  assumes "scalar r"
  shows "runes (encode_rune r @ bs) = r # runes bs"
proof -
  obtain a b c d where r: "r = a * 262144 + b * 4096 + c * 64 + d" and lt: "b < 64" "c < 64" "d < 64"
    and eqs: "r div 262144 = a" "r div 4096 = a * 64 + b" "r div 4096 mod 64 = b"
      "r div 64 = a * 4096 + b * 64 + c" "r div 64 mod 64 = c" "r mod 64 = d"
    by (rule rune_groups)
  note defs = decode_rune_def cont_byte_def second_ok_def
  consider "r < 0x80" | "0x80 \<le> r" "r < 0x800" | "0x800 \<le> r" "r < 0x10000" | "0x10000 \<le> r" "r \<le> 0x10FFFF"
    using assms by (fastforce simp: scalar_def)
  then show ?thesis
  proof cases
    case 1
    then show ?thesis by (simp add: encode_rune_def decode_rune_def Let_def)
  next
    case 2
    then have "a = 0" "b = 0" using r lt by linarith+
    with 2 r lt have z: "a = 0" "b = 0" "2 \<le> c" "c < 32" by linarith+
    have "encode_rune r = [0xC0 + c, 0x80 + d]" using 2 z by (simp add: encode_rune_def Let_def eqs(4,6))
    then show ?thesis using lt z by (simp add: r defs)
  next
    case 3
    then have z: "a = 0" "b < 16" using r lt by linarith+
    have "b = 0 \<Longrightarrow> 32 \<le> c" "b = 13 \<Longrightarrow> c < 32"
      using 3 r lt assms z unfolding scalar_def by linarith+
    moreover have "encode_rune r = [0xE0 + b, 0x80 + c, 0x80 + d]"
      using 3 z assms by (auto simp: encode_rune_def Let_def eqs(2,5,6) scalar_def)
    ultimately show ?thesis using lt z by (auto simp: r defs)
  next
    case 4
    then have z: "a \<le> 4" "a = 0 \<Longrightarrow> 16 \<le> b" "a = 4 \<Longrightarrow> b < 16" using r lt by linarith+
    have "encode_rune r = [0xF0 + a, 0x80 + b, 0x80 + c, 0x80 + d]"
      using 4 by (simp add: encode_rune_def Let_def eqs(1,3,5,6))
    then show ?thesis using lt z by (auto simp: r defs)
  qed
qed

lemma runes_encode: "\<forall>r\<in>set rs. scalar r \<Longrightarrow> runes (concat (map encode_rune rs)) = rs"
  by (induction rs) (simp_all add: encode_rune_decode)

lemma encode_rune_bytes: "b \<in> set (encode_rune r) \<Longrightarrow> b < 256"
  by (auto simp: encode_rune_def Let_def RuneError_def div_less_iff_less_mult split: if_splits)

lemma string_runes_string: "\<forall>r\<in>set rs. scalar r \<Longrightarrow> string_runes (runes_string rs) = rs"
proof -
  assume rs: "\<forall>r\<in>set rs. scalar r"
  have "map (of_char \<circ> char_of) (concat (map encode_rune rs)) = concat (map encode_rune rs)"
    by (rule map_idI) (auto dest: encode_rune_bytes)
  then show ?thesis using rs by (simp add: string_runes_def runes_string_def runes_encode)
qed

lemma decode_rune_scalar: "scalar (fst (decode_rune b bs))"
proof -
  have one: "b < 0x80 \<Longrightarrow> scalar b" by (simp add: scalar_def)
  have two: "scalar ((b - 0xC0) * 64 + (x - 0x80))" if "0xC2 \<le> b" "b \<le> 0xDF" "cont_byte x" for x
    using that by (auto simp: scalar_def cont_byte_def)
  have three: "scalar ((b - 0xE0) * 4096 + (x - 0x80) * 64 + (y - 0x80))"
    if "0xE0 \<le> b" "b \<le> 0xEF" "second_ok b x" "cont_byte y" for x y
    using that by (auto simp: scalar_def second_ok_def cont_byte_def split: if_splits)
  have four: "scalar ((b - 0xF0) * 262144 + (x - 0x80) * 4096 + (y - 0x80) * 64 + (z - 0x80))"
    if "0xF0 \<le> b" "b \<le> 0xF4" "second_ok b x" "cont_byte y" "cont_byte z" for x y z
    using that by (auto simp: scalar_def second_ok_def cont_byte_def split: if_splits)
  consider "b < 0x80" | "0xC2 \<le> b" "b \<le> 0xDF" | "0xE0 \<le> b" "b \<le> 0xEF" | "0xF0 \<le> b" "b \<le> 0xF4"
    | "\<not> b < 0x80" "\<not> (0xC2 \<le> b \<and> b \<le> 0xDF)" "\<not> (0xE0 \<le> b \<and> b \<le> 0xEF)" "\<not> (0xF0 \<le> b \<and> b \<le> 0xF4)"
    by linarith
  then show ?thesis
  proof cases
    case 2
    then show ?thesis using two by (simp add: decode_rune_def split: list.split)
  next
    case 3
    then show ?thesis using three by (simp add: decode_rune_def split: list.split)
  next
    case 4
    then show ?thesis using four by (simp add: decode_rune_def split: list.split)
  next
    case 5
    then show ?thesis unfolding decode_rune_def by (simp only: if_False fst_conv scalar_RuneError)
  qed (simp add: decode_rune_def one)
qed

lemma runes_scalar: "r \<in> set (runes bs) \<Longrightarrow> scalar r"
  by (induction bs rule: runes.induct) (auto simp: decode_rune_scalar)

text \<open>
  \<open>coerce\<close> is what a JSON encoder makes of a string: invalid sequences become the replacement
  character. A string is valid UTF-8 exactly when coercion keeps it.
\<close>

definition coerce_utf8 :: "string \<Rightarrow> string" where
  "coerce_utf8 s = runes_string (string_runes s)"

lemma string_runes_coerce [simp]: "string_runes (coerce_utf8 s) = string_runes s"
  unfolding coerce_utf8_def by (rule string_runes_string) (auto simp: string_runes_def runes_scalar)

lemma coerce_utf8_idem [simp]: "coerce_utf8 (coerce_utf8 s) = coerce_utf8 s"
  by (simp add: coerce_utf8_def [of "coerce_utf8 s"]) (simp add: coerce_utf8_def)

lemma runes_coerce_eq: "string_runes s = string_runes t \<Longrightarrow> coerce_utf8 s = coerce_utf8 t"
  by (simp add: coerce_utf8_def)

section \<open>UTF-16\<close>

definition utf16_rune :: "nat \<Rightarrow> nat list" where
  "utf16_rune r =
    (if (0xD800 \<le> r \<and> r \<le> 0xDFFF) \<or> r > 0x10FFFF then [RuneError]
     else if r < 0x10000 then [r]
     else [0xD800 + (r - 0x10000) div 1024, 0xDC00 + (r - 0x10000) mod 1024])"

definition utf16_encode :: "nat list \<Rightarrow> nat list" where
  "utf16_encode rs = concat (map utf16_rune rs)"

section \<open>Decimal numbers\<close>

definition digit_char :: "nat \<Rightarrow> char" where
  "digit_char d = char_of (48 + d)"

fun nat_string :: "nat \<Rightarrow> string" where
  "nat_string n = (if n < 10 then [digit_char n] else nat_string (n div 10) @ [digit_char (n mod 10)])"

declare nat_string.simps [simp del]

definition itoa :: "int \<Rightarrow> string" where
  "itoa i = (if i < 0 then CHR ''-'' # nat_string (nat (- i)) else nat_string (nat i))"

definition is_digit :: "char \<Rightarrow> bool" where
  "is_digit c \<longleftrightarrow> CHR ''0'' \<le> c \<and> c \<le> CHR ''9''"

definition digit_val :: "char \<Rightarrow> nat" where
  "digit_val c = of_char c - 48"

definition digits_val :: "string \<Rightarrow> nat" where
  "digits_val s = foldl (\<lambda>n c. 10 * n + digit_val c) 0 s"

lemma digit_val_char [simp]: "d < 10 \<Longrightarrow> digit_val (digit_char d) = d"
  by (simp add: digit_val_def digit_char_def)

lemma is_digit_char [simp]: "d < 10 \<Longrightarrow> is_digit (digit_char d)"
  by (simp add: is_digit_def digit_char_def less_eq_char_def)

lemma digits_val_snoc [simp]: "digits_val (s @ [c]) = 10 * digits_val s + digit_val c"
  by (simp add: digits_val_def)

lemma digits_val_nat_string [simp]: "digits_val (nat_string n) = n"
proof (induction n rule: nat_string.induct)
  case (1 n)
  then show ?case by (simp add: nat_string.simps [of n]) (simp add: digits_val_def)
qed

lemma nat_string_digits: "c \<in> set (nat_string n) \<Longrightarrow> is_digit c"
proof (induction n rule: nat_string.induct)
  case (1 n)
  then show ?case by (auto simp: nat_string.simps [of n] split: if_splits)
qed

lemma nat_string_not_Nil [simp]: "nat_string n \<noteq> []"
  by (simp add: nat_string.simps [of n])

lemma nat_string_inj: "nat_string m = nat_string n \<longleftrightarrow> m = n"
  by (metis digits_val_nat_string)

lemma not_digit_minus [simp]: "\<not> is_digit (CHR ''-'')"
  by (simp add: is_digit_def less_eq_char_def)

lemma itoa_inj: "itoa i = itoa j \<longleftrightarrow> i = j"
proof
  have *: "nat_string n \<noteq> CHR ''-'' # s" for n s
    using nat_string_digits [of "CHR ''-''" n] by auto
  assume "itoa i = itoa j"
  with * show "i = j" by (auto simp: itoa_def nat_string_inj split: if_splits dest: sym)
qed simp

section \<open>Bytes of a string\<close>

definition string_bytes :: "string \<Rightarrow> bytes" where
  "string_bytes s = map (\<lambda>c. word_of_nat (of_char c)) s"

lemma string_bytes_inj: "string_bytes s = string_bytes t \<longleftrightarrow> s = t"
proof -
  have "inj (\<lambda>c. word_of_nat (of_char c) :: byte)"
  proof (rule injI)
    fix c d :: char
    have "of_char e < (256 :: nat)" for e :: char by simp
    then have "unat (word_of_nat (of_char e) :: byte) = of_char e" for e :: char
      by (simp add: unat_of_nat)
    moreover assume "(word_of_nat (of_char c) :: byte) = word_of_nat (of_char d)"
    ultimately have "of_char c = (of_char d :: nat)" by metis
    then show "c = d" by simp
  qed
  then show ?thesis by (simp add: string_bytes_def inj_map_eq_map)
qed

section \<open>Hexadecimal\<close>

definition hex_char :: "nat \<Rightarrow> char" where
  "hex_char d = (if d < 10 then char_of (48 + d) else char_of (87 + d))"

definition hex_EncodeToString :: "bytes \<Rightarrow> string" where
  "hex_EncodeToString b = concat (map (\<lambda>x. [hex_char (unat x div 16), hex_char (unat x mod 16)]) b)"

definition from_hex :: "char \<Rightarrow> nat option" where
  "from_hex c =
    (if CHR ''0'' \<le> c \<and> c \<le> CHR ''9'' then Some (of_char c - 48)
     else if CHR ''a'' \<le> c \<and> c \<le> CHR ''f'' then Some (of_char c - 87)
     else if CHR ''A'' \<le> c \<and> c \<le> CHR ''F'' then Some (of_char c - 55)
     else None)"

fun hex_DecodeString :: "string \<Rightarrow> bytes option" where
  "hex_DecodeString [] = Some []"
| "hex_DecodeString [_] = None"
| "hex_DecodeString (a # b # s) =
    (case (from_hex a, from_hex b, hex_DecodeString s) of
       (Some x, Some y, Some bs) \<Rightarrow> Some (word_of_nat (16 * x + y) # bs)
     | _ \<Rightarrow> None)"

lemma from_hex_char [simp]: "d < 16 \<Longrightarrow> from_hex (hex_char d) = Some d"
  by (auto simp: from_hex_def hex_char_def less_eq_char_def)

lemma hex_Decode_Encode [simp]: "hex_DecodeString (hex_EncodeToString b) = Some b"
proof (induction b)
  case (Cons x b)
  have "unat x < 256" using unsigned_less [where w = x and ?'a = nat] by simp
  then have "from_hex (hex_char (unat x div 16)) = Some (unat x div 16)" by simp
  with Cons show ?case by (simp add: hex_EncodeToString_def)
qed (simp add: hex_EncodeToString_def)

interpretation hex_codec: codec hex_EncodeToString hex_DecodeString "\<lambda>_. True"
  by unfold_locales simp

lemma length_hex_EncodeToString [simp]: "length (hex_EncodeToString b) = 2 * length b"
  by (induction b) (simp_all add: hex_EncodeToString_def)

section \<open>Base64\<close>

text \<open>The standard alphabet with padding, as \<^verbatim>\<open>encoding/json\<close> renders \<^verbatim>\<open>[]byte\<close>.\<close>

definition base64_char :: "nat \<Rightarrow> char" where
  "base64_char d =
    (if d < 26 then char_of (65 + d)
     else if d < 52 then char_of (71 + d)
     else if d < 62 then char_of (d - 4)
     else if d = 62 then CHR ''+'' else CHR ''/'')"

fun base64_encode :: "bytes \<Rightarrow> string" where
  "base64_encode [] = []"
| "base64_encode [a] =
    [base64_char (unat a div 4), base64_char (unat a mod 4 * 16), CHR ''='', CHR ''='']"
| "base64_encode [a, b] =
    [base64_char (unat a div 4), base64_char (unat a mod 4 * 16 + unat b div 16),
     base64_char (unat b mod 16 * 4), CHR ''='']"
| "base64_encode (a # b # c # s) =
    [base64_char (unat a div 4), base64_char (unat a mod 4 * 16 + unat b div 16),
     base64_char (unat b mod 16 * 4 + unat c div 64), base64_char (unat c mod 64)] @ base64_encode s"

end
