(* ===== verification/Float64.thy ===== *)
theory Float64
  imports GoText
begin

text \<open>
  Go's \<^verbatim>\<open>float64\<close> as its IEEE 754 bit pattern, with exact arithmetic on the integers it scales to:
  the value of a finite pattern is an integer multiple of \<open>2 ^ -1074\<close>. Comparison, correctly rounded
  reading of a decimal (\<^verbatim>\<open>strconv.ParseFloat\<close> on JSON number literals) and the shortest digits
  that read back (\<^verbatim>\<open>strconv.FormatFloat\<close> with precision -1).
\<close>

section \<open>Bit patterns and values\<close>

type_synonym f64 = "64 word"

text \<open>The pattern without its sign bit; infinity is \<open>inf_bits\<close>, larger patterns are not numbers.\<close>

definition f64_bits :: "f64 \<Rightarrow> nat" where
  "f64_bits w = unat w mod 2 ^ 63"

definition Signbit :: "f64 \<Rightarrow> bool" where
  "Signbit w \<longleftrightarrow> 2 ^ 63 \<le> unat w"

definition inf_bits :: nat where
  "inf_bits = 0x7FF * 2 ^ 52"

definition IsNaN :: "f64 \<Rightarrow> bool" where
  "IsNaN w \<longleftrightarrow> f64_bits w > inf_bits"

definition IsInf :: "f64 \<Rightarrow> bool" where
  "IsInf w \<longleftrightarrow> f64_bits w = inf_bits"

definition make_f64 :: "bool \<Rightarrow> nat \<Rightarrow> f64" where
  "make_f64 neg b = word_of_nat (if neg then 2 ^ 63 + b else b)"

text \<open>The magnitude of a pattern in units of \<open>2 ^ -1074\<close>; it grows with the pattern.\<close>

definition mag :: "nat \<Rightarrow> nat" where
  "mag b = (if b < 2 ^ 52 then b else (2 ^ 52 + b mod 2 ^ 52) * 2 ^ (b div 2 ^ 52 - 1))"

definition f64_scaled :: "f64 \<Rightarrow> int" where
  "f64_scaled w = (if Signbit w then - int (mag (f64_bits w)) else int (mag (f64_bits w)))"

text \<open>Go's \<^verbatim>\<open><=\<close> and \<^verbatim>\<open>>\<close> are false when an operand is not a number.\<close>

definition f64_le :: "f64 \<Rightarrow> f64 \<Rightarrow> bool" where
  "f64_le a b \<longleftrightarrow> \<not> IsNaN a \<and> \<not> IsNaN b \<and> f64_scaled a \<le> f64_scaled b"

definition f64_gt :: "f64 \<Rightarrow> f64 \<Rightarrow> bool" where
  "f64_gt a b \<longleftrightarrow> \<not> IsNaN a \<and> \<not> IsNaN b \<and> f64_scaled a > f64_scaled b"

lemma f64_le_trans: "f64_le a b \<Longrightarrow> f64_le b c \<Longrightarrow> f64_le a c"
  by (auto simp: f64_le_def)

lemma f64_le_refl: "f64_le a a \<longleftrightarrow> \<not> IsNaN a"
  by (simp add: f64_le_def)

lemma f64_gt_not_le: "f64_le a b \<Longrightarrow> \<not> f64_gt a b"
  by (auto simp: f64_le_def f64_gt_def)

section \<open>Rounding\<close>

text \<open>One, in units of the smallest positive number.\<close>

definition f64_unit :: nat where
  "f64_unit = 2 ^ 1074"

definition round_half_even :: "nat \<Rightarrow> nat \<Rightarrow> nat" where
  "round_half_even p q =
    (if 2 * (p mod q) < q \<or> (2 * (p mod q) = q \<and> even (p div q)) then p div q else p div q + 1)"

text \<open>The pattern nearest to \<open>p / q\<close>, ties to even, infinity beyond the largest finite pattern.\<close>

definition round_f64 :: "nat \<Rightarrow> nat \<Rightarrow> nat" where
  "round_f64 p q =
    (let s = p * f64_unit;
         e = nbits (s div q) - 53;
         b = e * 2 ^ 52 + round_half_even s (q * 2 ^ e)
     in if b > inf_bits then inf_bits else b)"

text \<open>The pattern of the decimal \<open>d * 10 ^ x\<close>.\<close>

definition round_decimal :: "nat \<Rightarrow> int \<Rightarrow> nat" where
  "round_decimal d x =
    (if 0 \<le> x then round_f64 (d * 10 ^ nat x) 1 else round_f64 d (10 ^ nat (- x)))"

section \<open>Reading a JSON number literal\<close>

definition split_digits :: "string \<Rightarrow> string \<times> string" where
  "split_digits s = (takeWhile is_digit s, dropWhile is_digit s)"

text \<open>\<open>cut c s\<close> is the rest of \<open>s\<close> after a leading character \<open>c\<close>.\<close>

definition cut :: "char \<Rightarrow> string \<Rightarrow> string option" where
  "cut c s = (if s \<noteq> [] \<and> hd s = c then Some (tl s) else None)"

lemma cut_simps [simp]: "cut c [] = None" "cut c (d # s) = (if d = c then Some s else None)"
  by (simp_all add: cut_def)

definition strip_minus :: "string \<Rightarrow> bool \<times> string" where
  "strip_minus s = (case cut (CHR ''-'') s of Some r \<Rightarrow> (True, r) | None \<Rightarrow> (False, s))"

definition strip_sign :: "string \<Rightarrow> bool \<times> string" where
  "strip_sign s =
    (case cut (CHR ''-'') s of
       Some r \<Rightarrow> (True, r)
     | None \<Rightarrow> (case cut (CHR ''+'') s of Some r \<Rightarrow> (False, r) | None \<Rightarrow> (False, s)))"

definition signed_val :: "bool \<Rightarrow> string \<Rightarrow> int" where
  "signed_val neg ds = (if neg then - int (digits_val ds) else int (digits_val ds))"

text \<open>An optional exponent part; the empty string stands for none.\<close>

definition parse_exponent :: "string \<Rightarrow> int option" where
  "parse_exponent s =
    (case s of
       [] \<Rightarrow> Some 0
     | c # r \<Rightarrow>
        if c \<noteq> CHR ''e'' \<and> c \<noteq> CHR ''E'' then None
        else (let (neg, ds) = strip_sign r
              in if ds = [] \<or> \<not> list_all is_digit ds then None else Some (signed_val neg ds)))"

definition ParseFloat :: "string \<Rightarrow> f64 option" where
  "ParseFloat lit =
    (let (neg, s) = strip_minus lit;
         (int_part, r) = split_digits s;
         (frac, r') = (case cut (CHR ''.'') r of Some t \<Rightarrow> split_digits t | None \<Rightarrow> ([], r))
     in if int_part = [] then None
        else map_option
          (\<lambda>x. make_f64 neg (round_decimal (digits_val (int_part @ frac)) (x - int (length frac))))
          (parse_exponent r'))"

section \<open>Shortest digits\<close>

text \<open>The decimal exponent \<open>E\<close> with \<open>10 ^ E \<le> p / q < 10 ^ (E + 1)\<close>, for \<open>p / q\<close> at least \<open>10 ^ -399\<close>.\<close>

definition dec_exponent :: "nat \<Rightarrow> nat \<Rightarrow> int" where
  "dec_exponent p q =
    (if q \<le> p then int (length (nat_string (p div q))) - 1
     else (case List.find (\<lambda>j. q \<le> p * 10 ^ j) [1..<400] of Some j \<Rightarrow> - int j | None \<Rightarrow> - 400))"

text \<open>
  With \<open>k\<close> digits there are two neighbours of the value; the one that reads back is taken, the nearer
  one if both do.
\<close>

definition shortest_with :: "nat \<Rightarrow> nat \<Rightarrow> (nat \<times> int) option" where
  "shortest_with b k =
    (let p = mag b; q = f64_unit;
         x = dec_exponent p q - int k + 1;
         (num, den) = (if 0 \<le> x then (p, q * 10 ^ nat x) else (p * 10 ^ nat (- x), q));
         d = num div den;
         lo = (round_decimal d x = b); hi = (round_decimal (d + 1) x = b);
         near_lo = (2 * (num mod den) < den \<or> (2 * (num mod den) = den \<and> even d))
     in if lo \<and> (near_lo \<or> \<not> hi) then Some (d, x)
        else if hi then Some (d + 1, x) else None)"

definition shortest :: "nat \<Rightarrow> (nat \<times> int) option" where
  "shortest b =
    (case List.find (\<lambda>k. shortest_with b k \<noteq> None) [1..<800] of
       None \<Rightarrow> None | Some k \<Rightarrow> shortest_with b k)"

text \<open>
  The digits without trailing zeros and the exponent of the first digit, for a positive finite
  pattern.
\<close>

definition shortest_digits :: "nat \<Rightarrow> string \<times> int" where
  "shortest_digits b =
    (case shortest b of
       None \<Rightarrow> ([], 0)
     | Some (d, x) \<Rightarrow>
        (let s = nat_string d; z = length (takeWhile (\<lambda>c. c = CHR ''0'') (rev s))
         in (take (length s - z) s, x + int (length s) - 1)))"

text \<open>\<^verbatim>\<open>FormatFloat(f, 'e', -1, 64)\<close> of a positive finite number; the exponent has two digits at least.\<close>

definition two_digits :: "nat \<Rightarrow> string" where
  "two_digits n = (if n < 10 then CHR ''0'' # nat_string n else nat_string n)"

definition FormatFloat_e :: "nat \<Rightarrow> string" where
  "FormatFloat_e b =
    (let (ds, e) = shortest_digits b
     in take 1 ds @ (if length ds > 1 then CHR ''.'' # drop 1 ds else []) @ CHR ''e'' #
        (if e < 0 then CHR ''-'' else CHR ''+'') # two_digits (nat \<bar>e\<bar>))"

text \<open>\<^verbatim>\<open>FormatFloat(f, 'f', -1, 64)\<close> of a positive finite number.\<close>

definition FormatFloat_f :: "nat \<Rightarrow> string" where
  "FormatFloat_f b =
    (let (ds, e) = shortest_digits b; k = int (length ds); n = e + 1
     in if n \<le> 0 then ''0.'' @ replicate (nat (- n)) (CHR ''0'') @ ds
        else if n < k then take (nat n) ds @ CHR ''.'' # drop (nat n) ds
        else ds @ replicate (nat (n - k)) (CHR ''0''))"

section \<open>Rounding is exact on representable values\<close>

lemma nbits_eq: "2 ^ k \<le> n \<Longrightarrow> n < 2 ^ Suc k \<Longrightarrow> nbits n = Suc k"
proof (induction k arbitrary: n)
  case 0
  then have "n = 1" by simp
  then show ?case by (simp add: nbits.simps [of "Suc 0"] nbits.simps [of 0])
next
  case (Suc k)
  then have "nbits (n div 2) = Suc k" by (intro Suc.IH) simp_all
  moreover have "n \<noteq> 0" using Suc.prems(1) by (metis not_one_le_zero one_le_power one_le_numeral le_zero_eq)
  ultimately show ?case by (simp add: nbits.simps [of n])
qed

lemma nbits_le: "n < 2 ^ k \<Longrightarrow> nbits n \<le> k"
proof (induction k arbitrary: n)
  case 0
  then show ?case by (simp add: nbits.simps [of 0])
next
  case (Suc k)
  then have "nbits (n div 2) \<le> k" by (intro Suc.IH) simp
  then show ?case by (simp add: nbits.simps [of n])
qed

lemma mag_normal:
  assumes "2 ^ 52 \<le> m" and "m < 2 ^ 53"
  shows "mag (e * 2 ^ 52 + m) = m * 2 ^ e"
proof -
  have "(e * 2 ^ 52 + m) div 2 ^ 52 = e + 1" "(e * 2 ^ 52 + m) mod 2 ^ 52 = m - 2 ^ 52"
  proof -
    have "e * 2 ^ 52 + m = (m - 2 ^ 52) + (e + 1) * 2 ^ 52" "m - 2 ^ 52 < 2 ^ 52" using assms by simp_all
    then show "(e * 2 ^ 52 + m) div 2 ^ 52 = e + 1" "(e * 2 ^ 52 + m) mod 2 ^ 52 = m - 2 ^ 52"
      by (simp_all only: div_mult_self1 mod_mult_self1 div_less mod_less)
  qed
  with assms show ?thesis by (simp add: mag_def)
qed

lemma bits_cases:
  obtains "(b :: nat) < 2 ^ 52" | e m where "b = e * 2 ^ 52 + m" "2 ^ 52 \<le> m" "m < 2 ^ 53"
proof (cases "b < 2 ^ 52")
  case False
  have "b = b div 2 ^ 52 * 2 ^ 52 + b mod 2 ^ 52" by simp
  moreover have "1 \<le> b div 2 ^ 52" using False by (simp add: less_eq_div_iff_mult_less_eq)
  ultimately have "b = (b div 2 ^ 52 - 1) * 2 ^ 52 + (2 ^ 52 + b mod 2 ^ 52)"
    by (metis (no_types, lifting) add.assoc mult_Suc plus_1_eq_Suc add.commute le_add_diff_inverse2)
  moreover have "b mod 2 ^ 52 < 2 ^ 52" by simp
  ultimately show thesis using that(2) [of "b div 2 ^ 52 - 1" "2 ^ 52 + b mod 2 ^ 52"] by simp
qed (use that in blast)

lemma round_half_even_exact: "0 < q \<Longrightarrow> round_half_even (m * q) q = m"
  by (simp add: round_half_even_def)

lemma round_f64_exact:
  assumes "b < inf_bits" and "0 < q" and "p * f64_unit = mag b * q"
  shows "round_f64 p q = b"
proof -
  have s: "p * f64_unit div q = mag b" using assms(2,3) by simp
  consider "b < 2 ^ 52" | e m where "b = e * 2 ^ 52 + m" "2 ^ 52 \<le> m" "m < 2 ^ 53" by (rule bits_cases)
  then show ?thesis
  proof cases
    case 1
    then have "mag b = b" by (simp add: mag_def)
    moreover from 1 have "nbits b \<le> 52" by (rule nbits_le)
    ultimately have "round_f64 p q = (if round_half_even (b * q) q > inf_bits then inf_bits else round_half_even (b * q) q)"
      using s assms(3) by (simp add: round_f64_def Let_def)
    then show ?thesis using assms(1) round_half_even_exact [OF assms(2), of b] by simp
  next
    case 2
    then have mag: "mag b = m * 2 ^ e" using mag_normal by simp
    have "2 ^ 52 * 2 ^ e \<le> mag b" "mag b < 2 ^ 53 * 2 ^ e"
      unfolding mag using 2 by (simp_all only: mult_le_mono1 mult_less_mono1 zero_less_power zero_less_numeral)
    then have "2 ^ (52 + e) \<le> mag b" "mag b < 2 ^ Suc (52 + e)" by (simp_all add: power_add)
    then have "nbits (mag b) = 53 + e" using nbits_eq by fastforce
    moreover have "p * f64_unit = m * (q * 2 ^ e)" using assms(3) by (simp add: mag)
    then have "round_half_even (p * f64_unit) (q * 2 ^ e) = m"
      using round_half_even_exact [of "q * 2 ^ e" m] assms(2) by simp
    ultimately have "round_f64 p q = (if e * 2 ^ 52 + m > inf_bits then inf_bits else e * 2 ^ 52 + m)"
      by (simp only: round_f64_def Let_def s add_diff_cancel_left')
    then show ?thesis using assms(1) 2(1) by (simp only: not_less_iff_gr_or_eq if_False less_not_sym)
  qed
qed

text \<open>Integers of at most 53 bits are representable.\<close>

lemma small_nat_representable:
  assumes "n \<le> 2 ^ 53"
  obtains b where "b < inf_bits" "mag b = n * f64_unit"
proof (cases "n = 0")
  case True
  then show thesis using that [of 0] by (simp add: inf_bits_def mag_def)
next
  case False
  then obtain k where k: "2 ^ k \<le> n" "n < 2 ^ Suc k"
    using ex_power_ivl1 [of 2 n] by auto
  show thesis
  proof (cases "k \<le> 52")
    case True
    have lo: "2 ^ 52 \<le> n * 2 ^ (52 - k)"
      using mult_le_mono1 [OF k(1), of "2 ^ (52 - k)"] True by (simp flip: power_add)
    have hi: "n * 2 ^ (52 - k) < 2 ^ 53"
    proof -
      have "n * 2 ^ (52 - k) < 2 ^ Suc k * 2 ^ (52 - k)" using k(2) by (intro mult_strict_right_mono) simp_all
      also have "\<dots> = 2 ^ (Suc k + (52 - k))" by (rule power_add [symmetric])
      also have "Suc k + (52 - k) = 53" using True by simp
      finally show ?thesis .
    qed
    let ?b = "(1022 + k) * 2 ^ 52 + n * 2 ^ (52 - k)"
    have "mag ?b = n * 2 ^ (52 - k) * 2 ^ (1022 + k)" using mag_normal [OF lo hi] .
    also have "\<dots> = n * 2 ^ ((52 - k) + (1022 + k))" by (simp only: power_add mult.assoc)
    also have "(52 - k) + (1022 + k) = 1074" using True by simp
    finally have "mag ?b = n * f64_unit" by (simp only: f64_unit_def)
    moreover have "?b < inf_bits" using hi True by (simp add: inf_bits_def)
    ultimately show thesis using that by blast
  next
    case False
    then have "53 \<le> k" by simp
    then have "(2::nat) ^ 53 \<le> 2 ^ k" by (rule power_increasing) simp
    with k(1) assms have n: "n = 2 ^ 53" by linarith
    have "mag (1075 * 2 ^ 52 + 2 ^ 52) = 2 ^ 52 * 2 ^ 1075" by (rule mag_normal) simp_all
    also have "\<dots> = (2::nat) ^ (52 + 1075)" by (rule power_add [symmetric])
    also have "\<dots> = 2 ^ (53 + 1074)" by simp
    also have "\<dots> = n * 2 ^ 1074" by (simp only: n power_add)
    finally have "mag (1075 * 2 ^ 52 + 2 ^ 52) = n * f64_unit" by (simp only: f64_unit_def)
    then show thesis by (rule that [rotated]) (simp add: inf_bits_def)
  qed
qed

lemma inf_bits_bound: "inf_bits < 2 ^ 63"
  by (simp add: inf_bits_def)

lemma make_f64_simps [simp]:
  assumes "b < 2 ^ 63"
  shows "f64_bits (make_f64 neg b) = b" and "Signbit (make_f64 neg b) = neg"
proof -
  have "unat (make_f64 neg b) = (if neg then 2 ^ 63 + b else b)"
    using assms by (simp add: make_f64_def unat_of_nat)
  with assms show "f64_bits (make_f64 neg b) = b" and "Signbit (make_f64 neg b) = neg"
    by (simp_all add: f64_bits_def Signbit_def)
qed

end
