(* ===== verification/GoTime.thy ===== *)
theory GoTime
  imports GoText
begin

text \<open>
  Go's \<^verbatim>\<open>time.Time\<close>: an instant, in nanoseconds since 1 January of year 1 UTC, and the offset of
  its location in seconds. Comparison looks at the instant only; the JSON form is RFC 3339 with
  nanoseconds in that offset.
\<close>

record gtime =
  instant :: int
  zone_offset :: int

definition zero_time :: gtime where
  "zero_time = \<lparr>instant = 0, zone_offset = 0\<rparr>"

definition IsZero :: "gtime \<Rightarrow> bool" where
  "IsZero t \<longleftrightarrow> instant t = 0"

definition Before :: "gtime \<Rightarrow> gtime \<Rightarrow> bool" where
  "Before t u \<longleftrightarrow> instant t < instant u"

definition After :: "gtime \<Rightarrow> gtime \<Rightarrow> bool" where
  "After t u \<longleftrightarrow> instant t > instant u"

definition time_Equal :: "gtime \<Rightarrow> gtime \<Rightarrow> bool" where
  "time_Equal t u \<longleftrightarrow> instant t = instant u"

section \<open>The proleptic Gregorian calendar\<close>

definition leap_year :: "int \<Rightarrow> bool" where
  "leap_year y \<longleftrightarrow> y mod 4 = 0 \<and> (y mod 100 \<noteq> 0 \<or> y mod 400 = 0)"

text \<open>The year and the day of the year (from 0) of a day counted from 1 January of year 1.\<close>

definition year_day :: "int \<Rightarrow> int \<times> int" where
  "year_day d =
    (let n400 = d div 146097; d1 = d mod 146097;
         n100 = min 3 (d1 div 36524); d2 = d1 - 36524 * n100;
         n4 = d2 div 1461; d3 = d2 mod 1461;
         n1 = min 3 (d3 div 365)
     in (400 * n400 + 100 * n100 + 4 * n4 + n1 + 1, d3 - 365 * n1))"

definition month_lengths :: "int \<Rightarrow> int list" where
  "month_lengths y = [31, if leap_year y then 29 else 28, 31, 30, 31, 30, 31, 31, 30, 31, 30, 31]"

fun month_day :: "int list \<Rightarrow> int \<Rightarrow> int \<Rightarrow> int \<times> int" where
  "month_day (l # ls) m d = (if d < l then (m, d + 1) else month_day ls (m + 1) (d - l))"
| "month_day [] m d = (m, d + 1)"

section \<open>RFC 3339\<close>

text \<open>\<^verbatim>\<open>appendInt\<close>: at least \<open>w\<close> digits, zeros in front.\<close>

definition appendInt :: "int \<Rightarrow> nat \<Rightarrow> string" where
  "appendInt x w =
    (let s = nat_string (nat \<bar>x\<bar>)
     in (if x < 0 then ''-'' else []) @ replicate (w - length s) (CHR ''0'') @ s)"

text \<open>\<^verbatim>\<open>appendNano\<close> with nine digits, trailing zeros and an empty fraction removed.\<close>

definition appendNano :: "int \<Rightarrow> string" where
  "appendNano ns =
    (let s = rev (dropWhile (\<lambda>c. c = CHR ''0'') (rev (appendInt ns 9)))
     in if s = [] then [] else CHR ''.'' # s)"

text \<open>Division of the offset by 60 truncates toward zero, as Go's does.\<close>

definition zone_minutes :: "int \<Rightarrow> int" where
  "zone_minutes z = (if z < 0 then - (- z div 60) else z div 60)"

definition zone_string :: "int \<Rightarrow> string" where
  "zone_string z =
    (if z = 0 then ''Z''
     else (let m = zone_minutes z; a = \<bar>m\<bar>
           in (if m < 0 then ''-'' else ''+'') @ appendInt (a div 60) 2 @ '':'' @ appendInt (a mod 60) 2))"

definition local_seconds :: "gtime \<Rightarrow> int" where
  "local_seconds t = instant t div 1000000000 + zone_offset t"

definition local_year :: "gtime \<Rightarrow> int" where
  "local_year t = fst (year_day (local_seconds t div 86400))"

definition format_rfc3339 :: "gtime \<Rightarrow> string" where
  "format_rfc3339 t =
    (let s = local_seconds t;
         (y, yd) = year_day (s div 86400);
         (m, d) = month_day (month_lengths y) 1 yd;
         sod = s mod 86400
     in appendInt y 4 @ ''-'' @ appendInt m 2 @ ''-'' @ appendInt d 2 @ ''T'' @
        appendInt (sod div 3600) 2 @ '':'' @ appendInt (sod div 60 mod 60) 2 @ '':'' @
        appendInt (sod mod 60) 2 @ appendNano (instant t mod 1000000000) @ zone_string (zone_offset t))"

text \<open>
  \<^verbatim>\<open>MarshalJSON\<close> rejects a year outside 0 to 9999 and a zone of 24 hours or more; \<open>None\<close> is its
  error.
\<close>

definition time_json :: "gtime \<Rightarrow> string option" where
  "time_json t =
    (if \<not> (0 \<le> local_year t \<and> local_year t \<le> 9999) then None
     else if zone_offset t \<noteq> 0 \<and> \<bar>zone_minutes (zone_offset t)\<bar> div 60 \<ge> 24 then None
     else Some (format_rfc3339 t))"

end
