(* ===== verification/Canonical.thy ===== *)
theory Canonical
  imports Float64 GoTime Sha256
begin

text \<open>
  Canonical encoding, \<^verbatim>\<open>src/canonical/canonical.go\<close>: a Go value is seen through \<^verbatim>\<open>encoding/json\<close>
  as a tree whose numbers are literals, and that tree is written by the JSON Canonicalization
  Scheme. The deterministic CBOR encoding comes from a library and is an argument where it is
  selected.
\<close>

section \<open>JSON trees\<close>

text \<open>
  What \<^verbatim>\<open>json.Marshal\<close> followed by \<^verbatim>\<open>Decode\<close> with \<^verbatim>\<open>UseNumber\<close> yields: strings are valid
  UTF-8, numbers are their literals, objects have distinct keys.
\<close>

datatype json =
    JNull
  | JBool bool
  | JNum string
  | JStr string
  | JArr "json list"
  | JObj "(string \<times> json) list"

datatype Encoding = EncodingJSON | EncodingCBOR | EncodingOther int

datatype canonical_error =
    ErrNonFiniteNumber
  | ErrUnknownEncoding
  | ErrLossyNumber
  | ErrMarshalJSON
  | ErrDecodeJSON
  | ErrParseNumber
  | ErrEncodeCBOR

section \<open>How Go values become trees\<close>

definition json_string :: "string \<Rightarrow> json" where
  "json_string s = JStr (coerce_utf8 s)"

definition json_int :: "int \<Rightarrow> json" where
  "json_int i = JNum (itoa i)"

text \<open>A \<^verbatim>\<open>float64\<close> is written with the shortest digits, in exponent form below 1e-6 and from 1e21 on.\<close>

definition json_float_text :: "nat \<Rightarrow> string" where
  "json_float_text b =
    (if b = 0 then ''0''
     else if b < round_decimal 1 (- 6) \<or> b \<ge> round_decimal 1 21
     then (let s = FormatFloat_e b; n = length s
           in if n \<ge> 4 \<and> s ! (n - 4) = CHR ''e'' \<and> s ! (n - 2) = CHR ''0''
              then take (n - 2) s @ drop (n - 1) s else s)
     else FormatFloat_f b)"

definition json_float :: "f64 \<Rightarrow> json option" where
  "json_float f =
    (if IsNaN f \<or> IsInf f then None
     else Some (JNum ((if Signbit f then ''-'' else []) @ json_float_text (f64_bits f))))"

definition json_time :: "gtime \<Rightarrow> json option" where
  "json_time t = map_option JStr (time_json t)"

text \<open>A byte slice; \<open>None\<close> is nil.\<close>

definition json_bytes :: "bytes option \<Rightarrow> json" where
  "json_bytes b = (case b of None \<Rightarrow> JNull | Some bs \<Rightarrow> JStr (base64_encode bs))"

text \<open>
  A value of type \<^verbatim>\<open>any\<close>: the dynamic types a JSON document decodes to, integers, and a rest that
  \<^verbatim>\<open>json.Marshal\<close> refuses (channels, functions).
\<close>

datatype goany =
    AnyNil
  | AnyBool bool
  | AnyInt int
  | AnyFloat f64
  | AnyString string
  | AnySlice "goany list"
  | AnyMap "(string \<times> goany) list"
  | AnyUnsupported

fun option_list :: "'a option list \<Rightarrow> 'a list option" where
  "option_list [] = Some []"
| "option_list (x # xs) =
    (case x of None \<Rightarrow> None | Some y \<Rightarrow> map_option ((#) y) (option_list xs))"

definition option_values :: "('k \<times> 'a option) list \<Rightarrow> ('k \<times> 'a) list option" where
  "option_values kvs = option_list (map (\<lambda>(k, v). map_option (Pair k) v) kvs)"

text \<open>A decoded object keeps the last of the members with equal keys.\<close>

fun dedup_last :: "(string \<times> 'a) list \<Rightarrow> (string \<times> 'a) list" where
  "dedup_last [] = []"
| "dedup_last ((k, v) # kvs) =
    (if k \<in> set (map fst kvs) then dedup_last kvs else (k, v) # dedup_last kvs)"

text \<open>
  \<^verbatim>\<open>json.Marshal\<close> writes the entries of a map in the byte order of their keys.
\<close>

definition map_entries :: "(string \<times> 'a) list \<Rightarrow> (string \<times> 'a) list" where
  "map_entries kvs = dedup_last (map (\<lambda>(k, v). (coerce_utf8 k, v)) (sort_key fst kvs))"

fun goany_json :: "goany \<Rightarrow> json option" where
  "goany_json AnyNil = Some JNull"
| "goany_json (AnyBool b) = Some (JBool b)"
| "goany_json (AnyInt i) = Some (json_int i)"
| "goany_json (AnyFloat f) = json_float f"
| "goany_json (AnyString s) = Some (json_string s)"
| "goany_json (AnySlice xs) = map_option JArr (option_list (map goany_json xs))"
| "goany_json (AnyMap kvs) =
    map_option (\<lambda>ms. JObj (map_entries ms)) (option_values (map (\<lambda>(k, v). (k, goany_json v)) kvs))"
| "goany_json AnyUnsupported = None"

text \<open>
  A struct: its members in declaration order, each with the value it marshals to, an omitted one as
  \<open>Some None\<close>; a member that fails to marshal fails the whole.
\<close>

definition json_struct :: "(string \<times> json option option) list \<Rightarrow> json option" where
  "json_struct members =
    map_option (\<lambda>ms. JObj (concat (map (\<lambda>(k, v). case v of None \<Rightarrow> [] | Some j \<Rightarrow> [(k, j)]) ms)))
      (option_values members)"

section \<open>Strings and keys\<close>

definition hasSupplementary :: "string \<Rightarrow> bool" where
  "hasSupplementary s \<longleftrightarrow> list_ex (\<lambda>r. r \<ge> 0x10000) (string_runes s)"

fun units_less :: "nat list \<Rightarrow> nat list \<Rightarrow> bool" where
  "units_less (x # xs) (y # ys) = (if x \<noteq> y then x < y else units_less xs ys)"
| "units_less xs ys \<longleftrightarrow> length xs < length ys"

definition jcsKeyLess :: "string \<Rightarrow> string \<Rightarrow> bool" where
  "jcsKeyLess a b =
    (if \<not> hasSupplementary a \<and> \<not> hasSupplementary b then a < b
     else units_less (utf16_encode (string_runes a)) (utf16_encode (string_runes b)))"

text \<open>\<^verbatim>\<open>sort.Slice\<close> on the distinct keys of an object, each carrying its member.\<close>

fun insert_key :: "string \<times> 'a \<Rightarrow> (string \<times> 'a) list \<Rightarrow> (string \<times> 'a) list" where
  "insert_key x [] = [x]"
| "insert_key x (y # ys) = (if jcsKeyLess (fst y) (fst x) then y # insert_key x ys else x # y # ys)"

definition sort_keys :: "(string \<times> 'a) list \<Rightarrow> (string \<times> 'a) list" where
  "sort_keys xs = foldr insert_key xs []"

definition jcs_rune :: "nat \<Rightarrow> string" where
  "jcs_rune r =
    (if r = 0x22 then [CHR 0x5C, CHR 0x22]
     else if r = 0x5C then [CHR 0x5C, CHR 0x5C]
     else if r = 0x08 then [CHR 0x5C, CHR ''b'']
     else if r = 0x0C then [CHR 0x5C, CHR ''f'']
     else if r = 0x0A then [CHR 0x5C, CHR ''n'']
     else if r = 0x0D then [CHR 0x5C, CHR ''r'']
     else if r = 0x09 then [CHR 0x5C, CHR ''t'']
     else if r < 0x20 then
       [CHR 0x5C, CHR ''u'', CHR ''0'', CHR ''0'', hex_char (r div 16), hex_char (r mod 16)]
     else runes_string [r])"

definition appendJCSString :: "string \<Rightarrow> string" where
  "appendJCSString s = CHR 0x22 # concat (map jcs_rune (string_runes s)) @ [CHR 0x22]"

section \<open>Numbers\<close>

definition isIntegerLiteral :: "string \<Rightarrow> bool" where
  "isIntegerLiteral lit =
    (let (_, ds) = strip_minus lit in ds \<noteq> [] \<and> list_all is_digit ds)"

definition integer_literal :: "string \<Rightarrow> int" where
  "integer_literal lit = (let (neg, ds) = strip_minus lit in signed_val neg ds)"

definition checkedNumber :: "string \<Rightarrow> canonical_error + f64" where
  "checkedNumber lit =
    (case ParseFloat lit of
       None \<Rightarrow> Inl ErrParseNumber
     | Some f \<Rightarrow>
        if isIntegerLiteral lit \<and>
          (IsNaN f \<or> IsInf f \<or> f64_scaled f \<noteq> integer_literal lit * int f64_unit)
        then Inl ErrLossyNumber
        else if IsNaN f \<or> IsInf f then Inl ErrNonFiniteNumber
        else Inr f)"

definition writeZeros :: "int \<Rightarrow> string" where
  "writeZeros n = replicate (nat n) (CHR ''0'')"

text \<open>\<^verbatim>\<open>strconv.Atoi\<close> of a signed exponent.\<close>

definition exponent_atoi :: "string \<Rightarrow> int" where
  "exponent_atoi s = (let (neg, ds) = strip_sign s in signed_val neg ds)"

definition appendJCSNumber :: "f64 \<Rightarrow> canonical_error + string" where
  "appendJCSNumber f =
    (if IsNaN f \<or> IsInf f then Inl ErrNonFiniteNumber
     else if f64_bits f = 0 then Inr ''0''
     else
       (let sign = (if Signbit f then ''-'' else []);
            s = FormatFloat_e (f64_bits f);
            mantissa = takeWhile (\<lambda>c. c \<noteq> CHR ''e'') s;
            expo = exponent_atoi (drop (length mantissa + 1) s);
            digits = remove1 (CHR ''.'') mantissa;
            k = int (length digits);
            n = expo + 1
        in Inr (sign @
          (if k \<le> n \<and> n \<le> 21 then digits @ writeZeros (n - k)
           else if 0 < n \<and> n \<le> 21 then take (nat n) digits @ ''.'' @ drop (nat n) digits
           else if - 6 < n \<and> n \<le> 0 then ''0.'' @ writeZeros (- n) @ digits
           else take 1 digits @ (if k > 1 then ''.'' @ drop 1 digits else []) @ ''e'' @
                (let m = n - 1 in if m \<ge> 0 then ''+'' @ itoa m else ''-'' @ itoa (- m))))))"

section \<open>Canonical JSON\<close>

fun comma_join :: "string list \<Rightarrow> string" where
  "comma_join [] = []"
| "comma_join [x] = x"
| "comma_join (x # y # xs) = x @ CHR '','' # comma_join (y # xs)"

text \<open>Members are written in key order; the first one that fails ends the call.\<close>

fun member_texts :: "(string \<times> ('e + string)) list \<Rightarrow> 'e + string list" where
  "member_texts [] = Inr []"
| "member_texts ((k, r) # kvs) =
    sbind r (\<lambda>v. sbind (member_texts kvs) (\<lambda>vs. Inr ((appendJCSString k @ CHR '':'' # v) # vs)))"

fun appendJCS :: "json \<Rightarrow> canonical_error + string" where
  "appendJCS JNull = Inr ''null''"
| "appendJCS (JBool b) = Inr (if b then ''true'' else ''false'')"
| "appendJCS (JNum lit) = sbind (checkedNumber lit) appendJCSNumber"
| "appendJCS (JStr s) = Inr (appendJCSString s)"
| "appendJCS (JArr xs) =
    sbind (smap (\<lambda>r. r) (map appendJCS xs)) (\<lambda>ts. Inr (CHR ''['' # comma_join ts @ '']''))"
| "appendJCS (JObj kvs) =
    sbind (member_texts (sort_keys (map (\<lambda>(k, v). (k, appendJCS v)) kvs)))
      (\<lambda>ts. Inr (CHR ''{'' # comma_join ts @ ''}''))"

text \<open>The decoder refuses arrays and objects nested more than 10000 deep.\<close>

fun json_depth :: "json \<Rightarrow> nat" where
  "json_depth (JArr xs) = Suc (foldr max (map json_depth xs) 0)"
| "json_depth (JObj kvs) = Suc (foldr max (map (\<lambda>(k, v). json_depth v) kvs) 0)"
| "json_depth _ = 0"

text \<open>\<open>view\<close> is what \<^verbatim>\<open>json.Marshal\<close> makes of the value, \<open>None\<close> when it returns an error.\<close>

definition JSONCanonicalize :: "json option \<Rightarrow> canonical_error + bytes" where
  "JSONCanonicalize view =
    (case view of
       None \<Rightarrow> Inl ErrMarshalJSON
     | Some tree \<Rightarrow>
        if json_depth tree > 10000 then Inl ErrDecodeJSON
        else sbind (appendJCS tree) (\<lambda>s. Inr (string_bytes s)))"

definition CBOREncode :: "bytes option \<Rightarrow> canonical_error + bytes" where
  "CBOREncode cbor = (case cbor of None \<Rightarrow> Inl ErrEncodeCBOR | Some b \<Rightarrow> Inr b)"

definition canonical_Marshal :: "json option \<Rightarrow> bytes option \<Rightarrow> Encoding \<Rightarrow> canonical_error + bytes" where
  "canonical_Marshal view cbor enc =
    (case enc of
       EncodingJSON \<Rightarrow> JSONCanonicalize view
     | EncodingCBOR \<Rightarrow> CBOREncode cbor
     | EncodingOther _ \<Rightarrow> Inl ErrUnknownEncoding)"

text \<open>\<open>declared\<close> is the value's \<^verbatim>\<open>CanonicalEncoding\<close>, \<open>None\<close> when it does not implement the interface.\<close>

definition canonical_CanonicalHash ::
    "Encoding option \<Rightarrow> json option \<Rightarrow> bytes option \<Rightarrow> canonical_error + digest" where
  "canonical_CanonicalHash declared view cbor =
    (let enc = (case declared of None \<Rightarrow> EncodingJSON | Some e \<Rightarrow> e)
     in sbind (canonical_Marshal view cbor enc) (\<lambda>b. Inr (sha256_sum b)))"

section \<open>When canonicalization succeeds\<close>

lemma nat_string_takeWhile [simp]:
  "takeWhile is_digit (nat_string n) = nat_string n" "dropWhile is_digit (nat_string n) = []"
  using nat_string_digits by (auto simp: takeWhile_eq_all_conv dropWhile_eq_Nil_conv)

lemma strip_minus_itoa: "strip_minus (itoa i) = (i < 0, nat_string (nat \<bar>i\<bar>))"
proof -
  obtain c cs where cs: "nat_string (nat i) = c # cs" by (cases "nat_string (nat i)") auto
  then have "is_digit c" using nat_string_digits [of c "nat i"] by simp
  then have "c \<noteq> CHR ''-''" by auto
  then show ?thesis by (auto simp: itoa_def strip_minus_def cs)
qed

lemma integer_literal_itoa [simp]: "integer_literal (itoa i) = i"
  by (simp add: integer_literal_def strip_minus_itoa signed_val_def)

lemma isIntegerLiteral_itoa [simp]: "isIntegerLiteral (itoa i)"
  by (simp add: isIntegerLiteral_def strip_minus_itoa list_all_iff nat_string_digits)

lemma ParseFloat_itoa: "ParseFloat (itoa i) = Some (make_f64 (i < 0) (round_f64 (nat \<bar>i\<bar>) 1))"
  by (simp add: ParseFloat_def strip_minus_itoa split_digits_def parse_exponent_def round_decimal_def)

lemma checkedNumber_small:
  assumes "\<bar>i\<bar> \<le> 2 ^ 53"
  obtains f where "checkedNumber (itoa i) = Inr f" and "f64_scaled f = i * int f64_unit"
proof -
  have "nat \<bar>i\<bar> \<le> 2 ^ 53" using assms by simp
  then obtain b where b: "b < inf_bits" "mag b = nat \<bar>i\<bar> * f64_unit" by (rule small_nat_representable)
  let ?f = "make_f64 (i < 0) b"
  have parse: "ParseFloat (itoa i) = Some ?f"
    using round_f64_exact [OF b(1), of 1 "nat \<bar>i\<bar>"] b(2) by (simp add: ParseFloat_itoa)
  have bits: "f64_bits ?f = b" "Signbit ?f = (i < 0)" using b(1) inf_bits_bound by simp_all
  then have "f64_scaled ?f = i * int f64_unit" by (auto simp: f64_scaled_def b(2))
  moreover from this have "checkedNumber (itoa i) = Inr ?f"
    using b(1) bits by (simp add: checkedNumber_def parse IsNaN_def IsInf_def)
  ultimately show thesis using that by blast
qed

lemma checkedNumber_finite: "checkedNumber lit = Inr f \<Longrightarrow> \<not> IsNaN f \<and> \<not> IsInf f"
  by (auto simp: checkedNumber_def split: option.splits if_splits)

lemma appendJCSNumber_total: "\<not> IsNaN f \<Longrightarrow> \<not> IsInf f \<Longrightarrow> \<exists>s. appendJCSNumber f = Inr s"
  by (auto simp: appendJCSNumber_def Let_def)

text \<open>Every number of the tree denotes a double, and exactly if it is an integer literal.\<close>

fun numbers_ok :: "json \<Rightarrow> bool" where
  "numbers_ok (JNum lit) \<longleftrightarrow> (\<exists>f. checkedNumber lit = Inr f)"
| "numbers_ok (JArr xs) \<longleftrightarrow> list_all numbers_ok xs"
| "numbers_ok (JObj kvs) \<longleftrightarrow> list_all (\<lambda>(k, v). numbers_ok v) kvs"
| "numbers_ok _ \<longleftrightarrow> True"

lemma set_insert_key [simp]: "set (insert_key x ys) = insert x (set ys)"
  by (induction ys) auto

lemma set_sort_keys [simp]: "set (sort_keys xs) = set xs"
  by (induction xs) (simp_all add: sort_keys_def)

lemma member_texts_total: "(\<exists>ts. member_texts kvs = Inr ts) \<longleftrightarrow> (\<forall>(k, r)\<in>set kvs. \<exists>s. r = Inr s)"
  by (induction kvs rule: member_texts.induct) (auto simp: sbind_Inr_conv split: sum.splits)

lemma smap_id_total: "(\<exists>ts. smap (\<lambda>r. r) rs = Inr ts) \<longleftrightarrow> (\<forall>r\<in>set rs. \<exists>s. r = Inr s)"
  by (induction rs) (auto simp: sbind_Inr_conv)

lemma appendJCS_total: "(\<exists>s. appendJCS t = Inr s) \<longleftrightarrow> numbers_ok t"
proof (induction t rule: appendJCS.induct)
  case (3 lit)
  then show ?case
    using checkedNumber_finite appendJCSNumber_total by (fastforce simp: sbind_Inr_conv)
next
  case (5 xs)
  have "(\<exists>s. appendJCS (JArr xs) = Inr s) \<longleftrightarrow> (\<exists>ts. smap (\<lambda>r. r) (map appendJCS xs) = Inr ts)"
    by (auto simp: sbind_Inr_conv)
  also have "\<dots> \<longleftrightarrow> (\<forall>x\<in>set xs. \<exists>s. appendJCS x = Inr s)" unfolding smap_id_total by simp
  finally show ?case using 5 by (simp add: list_all_iff)
next
  case (6 kvs)
  let ?ms = "sort_keys (map (\<lambda>(k, v). (k, appendJCS v)) kvs)"
  have "(\<exists>s. appendJCS (JObj kvs) = Inr s) \<longleftrightarrow> (\<exists>ts. member_texts ?ms = Inr ts)"
    by (auto simp: sbind_Inr_conv)
  also have "\<dots> \<longleftrightarrow> (\<forall>(k, v)\<in>set kvs. \<exists>s. appendJCS v = Inr s)"
    unfolding member_texts_total by (auto split: prod.splits)
  finally show ?case using 6 by (fastforce simp: list_all_iff)
qed simp_all

lemma JSONCanonicalize_Inr:
  "(\<exists>b. JSONCanonicalize view = Inr b) \<longleftrightarrow>
   (\<exists>t. view = Some t \<and> json_depth t \<le> 10000 \<and> numbers_ok t)"
  by (auto simp: JSONCanonicalize_def sbind_Inr_conv appendJCS_total [symmetric] split: option.splits)

lemma canonical_CanonicalHash_JSON:
  "(\<exists>h. canonical_CanonicalHash (Some EncodingJSON) view cbor = Inr h) \<longleftrightarrow>
   (\<exists>t. view = Some t \<and> json_depth t \<le> 10000 \<and> numbers_ok t)"
  unfolding JSONCanonicalize_Inr [symmetric]
  by (auto simp: canonical_CanonicalHash_def canonical_Marshal_def sbind_Inr_conv)

lemma canonical_CanonicalHash_length: "canonical_CanonicalHash enc view cbor = Inr h \<Longrightarrow> length h = 32"
  by (auto simp: canonical_CanonicalHash_def sbind_Inr_conv)

lemma numbers_ok_json_int: "\<bar>i\<bar> \<le> 2 ^ 53 \<Longrightarrow> numbers_ok (json_int i)"
  by (simp only: json_int_def numbers_ok.simps) (metis checkedNumber_small)

end
