(* ===== verification/Keys.thy ===== *)
theory Keys
  imports Sha256
begin

text \<open>
  The key wrappers of \<^verbatim>\<open>src/crypto/ed25519\<close>, \<^verbatim>\<open>ecdsa\<close>, \<^verbatim>\<open>secp256k1\<close> and \<^verbatim>\<open>rsa\<close>; the keys of
  \<^verbatim>\<open>x25519\<close> are only a type the signature registry does not accept. The primitives themselves live in the standard library and in a third-party package:
  they are the fields of \<open>clib\<close>, an argument of every operation that calls them. What the wrappers add is
  modelled: length and range checks, the binding of hash to curve or key, the hash applied before
  signing, and the low-s rule.
\<close>

section \<open>Curves, hashes and raw keys\<close>

datatype Curve = P256 | P384 | CurveOther

datatype HashAlg = SHA256 | SHA384 | SHA512 | HashOther

record EcdsaPub =
  ec_curve :: Curve
  ec_X :: nat
  ec_Y :: nat

record EcdsaPriv =
  ec_pub :: EcdsaPub
  ec_D :: nat

record RsaPub =
  rsa_N :: nat
  rsa_E :: int

record RsaPriv =
  rsa_pub :: RsaPub
  rsa_D :: nat

type_synonym point = "nat \<times> nat"

text \<open>
  \<^verbatim>\<open>crypto.PublicKey\<close> and \<^verbatim>\<open>crypto.PrivateKey\<close> by dynamic type: the wrappers of this library, a type it does not know,
  and the nil interface. An ECDSA wrapper may hold a nil key.
\<close>

datatype PublicKey =
    PubEd25519 bytes
  | PubSecp256k1 point
  | PubEcdsa "EcdsaPub option" HashAlg
  | PubRsaPSS RsaPub HashAlg
  | PubRsaPKCS1 RsaPub HashAlg
  | PubX25519 bytes
  | PubUnknown
  | PubNil

datatype PrivateKey =
    PrivEd25519 bytes
  | PrivSecp256k1 nat
  | PrivEcdsa "EcdsaPriv option" HashAlg
  | PrivRsaPSS RsaPriv HashAlg
  | PrivRsaPKCS1 RsaPriv HashAlg
  | PrivX25519 bytes
  | PrivUnknown
  | PrivNil

record clib =
  lib_hash :: "HashAlg \<Rightarrow> bytes \<Rightarrow> bytes"
  lib_ed25519_seed :: "bytes \<Rightarrow> bytes"
  lib_ed25519_Sign :: "bytes \<Rightarrow> bytes \<Rightarrow> bytes"
  lib_ed25519_Verify :: "bytes \<Rightarrow> bytes \<Rightarrow> bytes \<Rightarrow> bool"
  lib_ecdsa_SignASN1 :: "EcdsaPriv \<Rightarrow> bytes \<Rightarrow> bytes option"
  lib_ecdsa_VerifyASN1 :: "EcdsaPub \<Rightarrow> bytes \<Rightarrow> bytes \<Rightarrow> bool"
  lib_secp_PubKey :: "nat \<Rightarrow> point"
  lib_secp_ParsePubKey :: "bytes \<Rightarrow> point option"
  lib_secp_Sign :: "nat \<Rightarrow> bytes \<Rightarrow> nat \<times> nat"
  lib_secp_Verify :: "nat \<Rightarrow> nat \<Rightarrow> bytes \<Rightarrow> point \<Rightarrow> bool"
  lib_rsa_SignPSS :: "RsaPriv \<Rightarrow> HashAlg \<Rightarrow> bytes \<Rightarrow> bytes option"
  lib_rsa_VerifyPSS :: "RsaPub \<Rightarrow> HashAlg \<Rightarrow> bytes \<Rightarrow> bytes \<Rightarrow> bool"
  lib_rsa_SignPKCS1v15 :: "RsaPriv \<Rightarrow> HashAlg \<Rightarrow> bytes \<Rightarrow> bytes option"
  lib_rsa_VerifyPKCS1v15 :: "RsaPub \<Rightarrow> HashAlg \<Rightarrow> bytes \<Rightarrow> bytes \<Rightarrow> bool"
  lib_x25519_base :: "bytes \<Rightarrow> bytes"
  lib_MarshalPKIX :: "EcdsaPub + RsaPub \<Rightarrow> bytes option"
  lib_MarshalPKIX_other :: "PublicKey \<Rightarrow> bytes option" \<comment> \<open>on a key that is not one of the wrappers\<close>

datatype key_error =
    ErrInvalidKey
  | ErrInvalidScalar
  | ErrInvalidSignature
  | ErrUnsupportedCurve
  | ErrUnsupportedHash
  | ErrNilKey
  | ErrKeyTooSmall
  | ErrSignFailed

section \<open>Ed25519\<close>

definition ed25519_GenerateKey :: "clib \<Rightarrow> bytes \<Rightarrow> PrivateKey \<times> PublicKey" where
  "ed25519_GenerateKey lib seed =
    (let priv = lib_ed25519_seed lib seed in (PrivEd25519 priv, PubEd25519 (drop 32 priv)))"

definition ed25519_NewPrivateKey :: "bytes \<Rightarrow> key_error + PrivateKey" where
  "ed25519_NewPrivateKey key = (if length key \<noteq> 64 then Inl ErrInvalidKey else Inr (PrivEd25519 key))"

definition ed25519_NewPublicKey :: "bytes \<Rightarrow> key_error + PublicKey" where
  "ed25519_NewPublicKey key = (if length key \<noteq> 32 then Inl ErrInvalidKey else Inr (PubEd25519 key))"

text \<open>The standard library's private key is the seed followed by the public key.\<close>

definition ed25519_Public :: "bytes \<Rightarrow> bytes" where
  "ed25519_Public priv = drop 32 priv"

definition ed25519_Sign :: "clib \<Rightarrow> bytes \<Rightarrow> bytes \<Rightarrow> bytes" where
  "ed25519_Sign lib priv message = lib_ed25519_Sign lib priv message"

definition ed25519_Verify :: "clib \<Rightarrow> bytes \<Rightarrow> bytes \<Rightarrow> bytes \<Rightarrow> bool" where
  "ed25519_Verify lib pub sig message = lib_ed25519_Verify lib pub message sig"

section \<open>ECDSA on P-256 and P-384\<close>

definition validateCurveHash :: "Curve \<Rightarrow> HashAlg \<Rightarrow> key_error + unit" where
  "validateCurveHash curve hash =
    (case curve of
       P256 \<Rightarrow> if hash \<noteq> SHA256 then Inl ErrUnsupportedHash else Inr ()
     | P384 \<Rightarrow> if hash \<noteq> SHA384 then Inl ErrUnsupportedHash else Inr ()
     | CurveOther \<Rightarrow> Inl ErrUnsupportedCurve)"

definition ecdsa_NewPrivateKey :: "EcdsaPriv option \<Rightarrow> HashAlg \<Rightarrow> key_error + PrivateKey" where
  "ecdsa_NewPrivateKey key hash =
    (case key of
       None \<Rightarrow> Inl ErrNilKey
     | Some k \<Rightarrow> sbind (validateCurveHash (ec_curve (ec_pub k)) hash) (\<lambda>_. Inr (PrivEcdsa key hash)))"

definition ecdsa_NewPublicKey :: "EcdsaPub option \<Rightarrow> HashAlg \<Rightarrow> key_error + PublicKey" where
  "ecdsa_NewPublicKey key hash =
    (case key of
       None \<Rightarrow> Inl ErrNilKey
     | Some k \<Rightarrow> sbind (validateCurveHash (ec_curve k) hash) (\<lambda>_. Inr (PubEcdsa key hash)))"

definition ecdsa_Sign :: "clib \<Rightarrow> EcdsaPriv option \<Rightarrow> HashAlg \<Rightarrow> bytes \<Rightarrow> key_error + bytes" where
  "ecdsa_Sign lib key hash message =
    (case key of
       None \<Rightarrow> Inl ErrNilKey
     | Some k \<Rightarrow> (case lib_ecdsa_SignASN1 lib k (lib_hash lib hash message) of
         None \<Rightarrow> Inl ErrSignFailed | Some sig \<Rightarrow> Inr sig))"

definition ecdsa_Verify :: "clib \<Rightarrow> EcdsaPub option \<Rightarrow> HashAlg \<Rightarrow> bytes \<Rightarrow> bytes \<Rightarrow> bool" where
  "ecdsa_Verify lib key hash sig message =
    (case key of
       None \<Rightarrow> False
     | Some k \<Rightarrow> lib_ecdsa_VerifyASN1 lib k (lib_hash lib hash message) sig)"

text \<open>\<^verbatim>\<open>Curve\<close> is nil, an unsupported curve, when the key is.\<close>

definition ecdsa_Curve :: "EcdsaPub option \<Rightarrow> Curve" where
  "ecdsa_Curve key = (case key of None \<Rightarrow> CurveOther | Some k \<Rightarrow> ec_curve k)"

section \<open>secp256k1\<close>

definition secp256k1_N :: nat where
  "secp256k1_N = 0xFFFFFFFFFFFFFFFFFFFFFFFFFFFFFFFEBAAEDCE6AF48A03BBFD25E8CD0364141"

text \<open>\<^verbatim>\<open>ModNScalar.SetBytes\<close> reduces modulo the group order and reports whether it had to.\<close>

definition scalar_SetBytes :: "bytes \<Rightarrow> nat \<times> bool" where
  "scalar_SetBytes b = (be_val b mod secp256k1_N, secp256k1_N \<le> be_val b)"

definition IsOverHalfOrder :: "nat \<Rightarrow> bool" where
  "IsOverHalfOrder s \<longleftrightarrow> s > secp256k1_N div 2"

definition secp256k1_NewPrivateKey :: "bytes \<Rightarrow> key_error + PrivateKey" where
  "secp256k1_NewPrivateKey key =
    (if length key \<noteq> 32 then Inl ErrInvalidKey
     else (let (k, overflow) = scalar_SetBytes key
           in if overflow then Inl ErrInvalidScalar
              else if k = 0 then Inl ErrInvalidScalar
              else Inr (PrivSecp256k1 k)))"

definition secp256k1_NewPublicKey :: "clib \<Rightarrow> bytes \<Rightarrow> key_error + PublicKey" where
  "secp256k1_NewPublicKey lib key =
    (if length key \<noteq> 33 then Inl ErrInvalidKey
     else (case lib_secp_ParsePubKey lib key of
       None \<Rightarrow> Inl ErrInvalidKey | Some p \<Rightarrow> Inr (PubSecp256k1 p)))"

definition secp256k1_Public :: "clib \<Rightarrow> nat \<Rightarrow> PublicKey" where
  "secp256k1_Public lib key = PubSecp256k1 (lib_secp_PubKey lib key)"

definition secp256k1_Sign :: "clib \<Rightarrow> nat \<Rightarrow> bytes \<Rightarrow> key_error + bytes" where
  "secp256k1_Sign lib key hash =
    (if length hash \<noteq> 32 then Inl ErrInvalidSignature
     else (let (r, s) = lib_secp_Sign lib key hash in Inr (be_bytes 32 r @ be_bytes 32 s)))"

definition secp256k1_Verify :: "clib \<Rightarrow> point \<Rightarrow> bytes \<Rightarrow> bytes \<Rightarrow> bool" where
  "secp256k1_Verify lib pub sig hash =
    (if length sig \<noteq> 64 \<or> length hash \<noteq> 32 then False
     else (let r = fst (scalar_SetBytes (take 32 sig)); s = fst (scalar_SetBytes (drop 32 sig))
           in if IsOverHalfOrder s then False else lib_secp_Verify lib r s hash pub))"

definition secp256k1_Bytes :: "point \<Rightarrow> bytes" where
  "secp256k1_Bytes p = (if even (snd p) then 0x02 else 0x03) # be_bytes 32 (fst p)"

section \<open>RSA\<close>

definition minKeyBits :: nat where
  "minKeyBits = 2048"

definition validateHash :: "HashAlg \<Rightarrow> key_error + unit" where
  "validateHash hash = (case hash of HashOther \<Rightarrow> Inl ErrUnsupportedHash | _ \<Rightarrow> Inr ())"

definition validateKeySize :: "nat \<Rightarrow> key_error + unit" where
  "validateKeySize bits = (if bits < minKeyBits then Inl ErrKeyTooSmall else Inr ())"

text \<open>A raw RSA key whose pointer or modulus is nil is rejected first; \<open>None\<close> stands for either.\<close>

definition validatePublicKey :: "RsaPub option \<Rightarrow> key_error + RsaPub" where
  "validatePublicKey key = (case key of None \<Rightarrow> Inl ErrNilKey | Some k \<Rightarrow> Inr k)"

definition validatePrivateKey :: "RsaPriv option \<Rightarrow> key_error + RsaPriv" where
  "validatePrivateKey key = (case key of None \<Rightarrow> Inl ErrNilKey | Some k \<Rightarrow> Inr k)"

definition NewPSSPublicKey :: "RsaPub option \<Rightarrow> HashAlg \<Rightarrow> key_error + PublicKey" where
  "NewPSSPublicKey key hash =
    sbind (validatePublicKey key) (\<lambda>k.
    sbind (validateKeySize (nbits (rsa_N k))) (\<lambda>_.
    sbind (validateHash hash) (\<lambda>_. Inr (PubRsaPSS k hash))))"

definition NewPKCS1PublicKey :: "RsaPub option \<Rightarrow> HashAlg \<Rightarrow> key_error + PublicKey" where
  "NewPKCS1PublicKey key hash =
    sbind (validatePublicKey key) (\<lambda>k.
    sbind (validateKeySize (nbits (rsa_N k))) (\<lambda>_.
    sbind (validateHash hash) (\<lambda>_. Inr (PubRsaPKCS1 k hash))))"

definition NewPSSPrivateKey :: "RsaPriv option \<Rightarrow> HashAlg \<Rightarrow> key_error + PrivateKey" where
  "NewPSSPrivateKey key hash =
    sbind (validatePrivateKey key) (\<lambda>k.
    sbind (validateKeySize (nbits (rsa_N (rsa_pub k)))) (\<lambda>_.
    sbind (validateHash hash) (\<lambda>_. Inr (PrivRsaPSS k hash))))"

definition NewPKCS1PrivateKey :: "RsaPriv option \<Rightarrow> HashAlg \<Rightarrow> key_error + PrivateKey" where
  "NewPKCS1PrivateKey key hash =
    sbind (validatePrivateKey key) (\<lambda>k.
    sbind (validateKeySize (nbits (rsa_N (rsa_pub k)))) (\<lambda>_.
    sbind (validateHash hash) (\<lambda>_. Inr (PrivRsaPKCS1 k hash))))"

definition rsa_sign_result :: "bytes option \<Rightarrow> key_error + bytes" where
  "rsa_sign_result r = (case r of None \<Rightarrow> Inl ErrSignFailed | Some sig \<Rightarrow> Inr sig)"

definition PSS_Sign :: "clib \<Rightarrow> RsaPriv \<Rightarrow> HashAlg \<Rightarrow> bytes \<Rightarrow> key_error + bytes" where
  "PSS_Sign lib key hash message =
    rsa_sign_result (lib_rsa_SignPSS lib key hash (lib_hash lib hash message))"

definition PSS_Verify :: "clib \<Rightarrow> RsaPub \<Rightarrow> HashAlg \<Rightarrow> bytes \<Rightarrow> bytes \<Rightarrow> bool" where
  "PSS_Verify lib key hash sig message = lib_rsa_VerifyPSS lib key hash (lib_hash lib hash message) sig"

definition PKCS1_Sign :: "clib \<Rightarrow> RsaPriv \<Rightarrow> HashAlg \<Rightarrow> bytes \<Rightarrow> key_error + bytes" where
  "PKCS1_Sign lib key hash message =
    rsa_sign_result (lib_rsa_SignPKCS1v15 lib key hash (lib_hash lib hash message))"

definition PKCS1_Verify :: "clib \<Rightarrow> RsaPub \<Rightarrow> HashAlg \<Rightarrow> bytes \<Rightarrow> bytes \<Rightarrow> bool" where
  "PKCS1_Verify lib key hash sig message =
    lib_rsa_VerifyPKCS1v15 lib key hash (lib_hash lib hash message) sig"

section \<open>Properties\<close>

lemma secp256k1_N_bound: "secp256k1_N < 256 ^ 32"
  by (simp add: secp256k1_N_def)

lemma secp256k1_N_odd: "secp256k1_N = 2 * (secp256k1_N div 2) + 1"
  by (simp add: secp256k1_N_def)

lemma secp256k1_Verify_split:
  assumes "length r = 32" and "length s = 32"
  shows "secp256k1_Verify lib pub (r @ s) hash \<longleftrightarrow>
    length hash = 32 \<and> \<not> IsOverHalfOrder (be_val s mod secp256k1_N) \<and>
    lib_secp_Verify lib (be_val r mod secp256k1_N) (be_val s mod secp256k1_N) hash pub"
  using assms by (simp add: secp256k1_Verify_def scalar_SetBytes_def Let_def)

text \<open>A library in which every operation is a concrete function, for evaluating the model.\<close>

definition demo_lib :: clib where
  "demo_lib = \<lparr>
    lib_hash = (\<lambda>_ m. sha256_sum m),
    lib_ed25519_seed = (\<lambda>seed. seed @ seed),
    lib_ed25519_Sign = (\<lambda>priv m. sha256_sum (drop 32 priv @ m)),
    lib_ed25519_Verify = (\<lambda>pub m sig. sig = sha256_sum (pub @ m)),
    lib_ecdsa_SignASN1 = (\<lambda>_ d. Some d),
    lib_ecdsa_VerifyASN1 = (\<lambda>_ d sig. sig = d),
    lib_secp_PubKey = (\<lambda>k. (k, k)),
    lib_secp_ParsePubKey = (\<lambda>b. Some (be_val b, be_val b)),
    lib_secp_Sign = (\<lambda>_ _. (1, 1)),
    lib_secp_Verify = (\<lambda>r s _ _. r = 1 \<and> s = 1),
    lib_rsa_SignPSS = (\<lambda>_ _ d. Some d),
    lib_rsa_VerifyPSS = (\<lambda>_ _ d sig. sig = d),
    lib_rsa_SignPKCS1v15 = (\<lambda>_ _ d. Some d),
    lib_rsa_VerifyPKCS1v15 = (\<lambda>_ _ d sig. sig = d),
    lib_x25519_base = (\<lambda>k. k),
    lib_MarshalPKIX = (\<lambda>k. case k of Inl e \<Rightarrow> Some (be_bytes 48 (ec_X e)) | Inr r \<Rightarrow> Some (be_bytes 256 (rsa_N r))),
    lib_MarshalPKIX_other = (\<lambda>_. None)\<rparr>"

text \<open>
  the low-s rule makes an accepted signature unique under negation of \<open>s\<close>: when \<^verbatim>\<open>Verify\<close>
  accepts \<open>(r, s)\<close> with \<open>s\<close> in range, it rejects \<open>(r, n - s)\<close>, whatever the curve arithmetic says.
\<close>

theorem secp256k1_Verify_low_s:
  assumes "secp256k1_Verify lib pub (be_bytes 32 r @ be_bytes 32 s) hash" and "0 < s" and "s < secp256k1_N"
  shows "\<not> secp256k1_Verify lib pub (be_bytes 32 r @ be_bytes 32 (secp256k1_N - s)) hash"
proof -
  have "s < 256 ^ 32" "secp256k1_N - s < 256 ^ 32" using assms(3) secp256k1_N_bound by linarith+
  then have val: "be_val (be_bytes 32 s) = s" "be_val (be_bytes 32 (secp256k1_N - s)) = secp256k1_N - s"
    by (simp_all add: be_val_be_bytes)
  have "s \<le> secp256k1_N div 2"
    using assms by (simp add: secp256k1_Verify_split val IsOverHalfOrder_def)
  then have "secp256k1_N - s > secp256k1_N div 2" using secp256k1_N_odd by linarith
  then show ?thesis using assms(2,3) by (simp add: secp256k1_Verify_split val IsOverHalfOrder_def)
qed

theorem secp256k1_Verify_low_s_witness:
  "secp256k1_Verify demo_lib (7, 7) (be_bytes 32 1 @ be_bytes 32 1) (replicate 32 0) \<and>
   \<not> secp256k1_Verify demo_lib (7, 7) (be_bytes 32 1 @ be_bytes 32 (secp256k1_N - 1)) (replicate 32 0)"
proof -
  have N: "1 < secp256k1_N" by (simp add: secp256k1_N_def)
  then have "\<not> IsOverHalfOrder (1 mod secp256k1_N)" by (simp add: IsOverHalfOrder_def secp256k1_N_def)
  then have acc: "secp256k1_Verify demo_lib (7, 7) (be_bytes 32 1 @ be_bytes 32 1) (replicate 32 0)"
    using N by (simp add: secp256k1_Verify_split be_val_be_bytes demo_lib_def)
  with secp256k1_Verify_low_s [OF this _ N] show ?thesis by simp
qed



end
