(* ===== verification/Signature.thy ===== *)
theory Signature
  imports Keys
begin

text \<open>
  Signature dispatch, \<^verbatim>\<open>src/signature\<close>: the algorithm identifiers with their JOSE and COSE names,
  the resolution of a key to its algorithm, the registry of signing and verifying closures, and the
  in-process signer.
\<close>

section \<open>Algorithms\<close>

text \<open>\<^verbatim>\<open>Algorithm\<close> is a Go \<^verbatim>\<open>int\<close>; zero stands for no registered algorithm.\<close>

type_synonym Algorithm = int

definition AlgorithmEdDSA :: Algorithm where "AlgorithmEdDSA = 1"
definition AlgorithmES256K :: Algorithm where "AlgorithmES256K = 2"
definition AlgorithmES256 :: Algorithm where "AlgorithmES256 = 3"
definition AlgorithmES384 :: Algorithm where "AlgorithmES384 = 4"
definition AlgorithmPS256 :: Algorithm where "AlgorithmPS256 = 5"
definition AlgorithmPS384 :: Algorithm where "AlgorithmPS384 = 6"
definition AlgorithmPS512 :: Algorithm where "AlgorithmPS512 = 7"
definition AlgorithmRS256 :: Algorithm where "AlgorithmRS256 = 8"
definition AlgorithmRS384 :: Algorithm where "AlgorithmRS384 = 9"
definition AlgorithmRS512 :: Algorithm where "AlgorithmRS512 = 10"

lemmas algorithm_defs =
  AlgorithmEdDSA_def AlgorithmES256K_def AlgorithmES256_def AlgorithmES384_def AlgorithmPS256_def
  AlgorithmPS384_def AlgorithmPS512_def AlgorithmRS256_def AlgorithmRS384_def AlgorithmRS512_def

definition algorithmTable :: "(string \<times> int) list" where
  "algorithmTable =
    [([], 0), (''EdDSA'', - 8), (''ES256K'', - 47), (''ES256'', - 7), (''ES384'', - 35), (''PS256'', - 37),
     (''PS384'', - 38), (''PS512'', - 39), (''RS256'', - 257), (''RS384'', - 258), (''RS512'', - 259)]"

definition JOSE :: "Algorithm \<Rightarrow> string" where
  "JOSE a = (if a < 0 \<or> a \<ge> int (length algorithmTable) then [] else fst (algorithmTable ! nat a))"

definition COSE :: "Algorithm \<Rightarrow> int" where
  "COSE a = (if a < 0 \<or> a \<ge> int (length algorithmTable) then 0 else snd (algorithmTable ! nat a))"

text \<open>The lookups scan the table from index 1.\<close>

definition AlgorithmForJOSE :: "string \<Rightarrow> Algorithm option" where
  "AlgorithmForJOSE name =
    map_option int (List.find (\<lambda>i. fst (algorithmTable ! i) = name) [1..<length algorithmTable])"

definition AlgorithmForCOSE :: "int \<Rightarrow> Algorithm option" where
  "AlgorithmForCOSE label =
    map_option int (List.find (\<lambda>i. snd (algorithmTable ! i) = label) [1..<length algorithmTable])"

section \<open>Errors and key resolution\<close>

datatype sig_error =
    ErrUnsupportedAlgorithm
  | ErrAlgorithmNotRegistered
  | ErrAlgMismatch Algorithm Algorithm
  | ErrKeyOp key_error
  | ErrNilPrivateKey
  | ErrContext

definition ecdsaAlgForCurve :: "Curve \<Rightarrow> sig_error + Algorithm" where
  "ecdsaAlgForCurve curve =
    (case curve of
       P256 \<Rightarrow> Inr AlgorithmES256
     | P384 \<Rightarrow> Inr AlgorithmES384
     | CurveOther \<Rightarrow> Inl ErrUnsupportedAlgorithm)"

definition rsaPSSAlgForHash :: "HashAlg \<Rightarrow> sig_error + Algorithm" where
  "rsaPSSAlgForHash hash =
    (case hash of
       SHA256 \<Rightarrow> Inr AlgorithmPS256
     | SHA384 \<Rightarrow> Inr AlgorithmPS384
     | SHA512 \<Rightarrow> Inr AlgorithmPS512
     | HashOther \<Rightarrow> Inl ErrUnsupportedAlgorithm)"

definition rsaPKCS1AlgForHash :: "HashAlg \<Rightarrow> sig_error + Algorithm" where
  "rsaPKCS1AlgForHash hash =
    (case hash of
       SHA256 \<Rightarrow> Inr AlgorithmRS256
     | SHA384 \<Rightarrow> Inr AlgorithmRS384
     | SHA512 \<Rightarrow> Inr AlgorithmRS512
     | HashOther \<Rightarrow> Inl ErrUnsupportedAlgorithm)"

definition AlgorithmForPublicKey :: "PublicKey \<Rightarrow> sig_error + Algorithm" where
  "AlgorithmForPublicKey key =
    (case key of
       PubEd25519 _ \<Rightarrow> Inr AlgorithmEdDSA
     | PubSecp256k1 _ \<Rightarrow> Inr AlgorithmES256K
     | PubEcdsa k _ \<Rightarrow> ecdsaAlgForCurve (ecdsa_Curve k)
     | PubRsaPSS _ h \<Rightarrow> rsaPSSAlgForHash h
     | PubRsaPKCS1 _ h \<Rightarrow> rsaPKCS1AlgForHash h
     | PubX25519 _ \<Rightarrow> Inl ErrUnsupportedAlgorithm
     | PubUnknown \<Rightarrow> Inl ErrUnsupportedAlgorithm
     | PubNil \<Rightarrow> Inl ErrUnsupportedAlgorithm)"

definition AlgorithmForPrivateKey :: "PrivateKey \<Rightarrow> sig_error + Algorithm" where
  "AlgorithmForPrivateKey key =
    (case key of
       PrivEd25519 _ \<Rightarrow> Inr AlgorithmEdDSA
     | PrivSecp256k1 _ \<Rightarrow> Inr AlgorithmES256K
     | PrivEcdsa k _ \<Rightarrow> ecdsaAlgForCurve (ecdsa_Curve (map_option ec_pub k))
     | PrivRsaPSS _ h \<Rightarrow> rsaPSSAlgForHash h
     | PrivRsaPKCS1 _ h \<Rightarrow> rsaPKCS1AlgForHash h
     | PrivX25519 _ \<Rightarrow> Inl ErrUnsupportedAlgorithm
     | PrivUnknown \<Rightarrow> Inl ErrUnsupportedAlgorithm
     | PrivNil \<Rightarrow> Inl ErrUnsupportedAlgorithm)"

definition algForPrivateKey :: "PrivateKey \<Rightarrow> Algorithm" where
  "algForPrivateKey key = (case AlgorithmForPrivateKey key of Inl _ \<Rightarrow> 0 | Inr a \<Rightarrow> a)"

definition algForPublicKey :: "PublicKey \<Rightarrow> Algorithm" where
  "algForPublicKey key = (case AlgorithmForPublicKey key of Inl _ \<Rightarrow> 0 | Inr a \<Rightarrow> a)"

section \<open>The registered closures\<close>

text \<open>A key operation's error is returned as it is.\<close>

definition lift_key :: "key_error + 'a \<Rightarrow> sig_error + 'a" where
  "lift_key r = (case r of Inl e \<Rightarrow> Inl (ErrKeyOp e) | Inr x \<Rightarrow> Inr x)"

text \<open>The test the curve- and hash-bound closures make: the key resolves to the registered algorithm.\<close>

definition require_alg :: "Algorithm \<Rightarrow> sig_error + Algorithm \<Rightarrow> sig_error + unit" where
  "require_alg want r =
    (case r of
       Inl _ \<Rightarrow> Inl (ErrAlgMismatch want 0)
     | Inr alg \<Rightarrow> if alg \<noteq> want then Inl (ErrAlgMismatch want alg) else Inr ())"

definition sign_EdDSA :: "clib \<Rightarrow> PrivateKey \<Rightarrow> bytes \<Rightarrow> sig_error + bytes" where
  "sign_EdDSA lib key msg =
    (case key of
       PrivEd25519 k \<Rightarrow> Inr (ed25519_Sign lib k msg)
     | _ \<Rightarrow> Inl (ErrAlgMismatch AlgorithmEdDSA (algForPrivateKey key)))"

definition verify_EdDSA :: "clib \<Rightarrow> PublicKey \<Rightarrow> bytes \<Rightarrow> bytes \<Rightarrow> sig_error + bool" where
  "verify_EdDSA lib key sig msg =
    (case key of
       PubEd25519 k \<Rightarrow> Inr (ed25519_Verify lib k sig msg)
     | _ \<Rightarrow> Inl (ErrAlgMismatch AlgorithmEdDSA (algForPublicKey key)))"

text \<open>ES256K hashes the message with SHA-256 before the key sees it.\<close>

definition sign_ES256K :: "clib \<Rightarrow> PrivateKey \<Rightarrow> bytes \<Rightarrow> sig_error + bytes" where
  "sign_ES256K lib key msg =
    (case key of
       PrivSecp256k1 k \<Rightarrow> lift_key (secp256k1_Sign lib k (sha256_sum msg))
     | _ \<Rightarrow> Inl (ErrAlgMismatch AlgorithmES256K (algForPrivateKey key)))"

definition verify_ES256K :: "clib \<Rightarrow> PublicKey \<Rightarrow> bytes \<Rightarrow> bytes \<Rightarrow> sig_error + bool" where
  "verify_ES256K lib key sig msg =
    (case key of
       PubSecp256k1 k \<Rightarrow> Inr (secp256k1_Verify lib k sig (sha256_sum msg))
     | _ \<Rightarrow> Inl (ErrAlgMismatch AlgorithmES256K (algForPublicKey key)))"

text \<open>The closures of ES256 and ES384, of PS256 to PS512, and of RS256 to RS512 differ in \<open>want\<close> only.\<close>

definition sign_ecdsa :: "Algorithm \<Rightarrow> clib \<Rightarrow> PrivateKey \<Rightarrow> bytes \<Rightarrow> sig_error + bytes" where
  "sign_ecdsa want lib key msg =
    (case key of
       PrivEcdsa k h \<Rightarrow>
         sbind (require_alg want (ecdsaAlgForCurve (ecdsa_Curve (map_option ec_pub k)))) (\<lambda>_.
           lift_key (ecdsa_Sign lib k h msg))
     | _ \<Rightarrow> Inl (ErrAlgMismatch want (algForPrivateKey key)))"

definition verify_ecdsa :: "Algorithm \<Rightarrow> clib \<Rightarrow> PublicKey \<Rightarrow> bytes \<Rightarrow> bytes \<Rightarrow> sig_error + bool" where
  "verify_ecdsa want lib key sig msg =
    (case key of
       PubEcdsa k h \<Rightarrow>
         sbind (require_alg want (ecdsaAlgForCurve (ecdsa_Curve k))) (\<lambda>_. Inr (ecdsa_Verify lib k h sig msg))
     | _ \<Rightarrow> Inl (ErrAlgMismatch want (algForPublicKey key)))"

definition sign_pss :: "Algorithm \<Rightarrow> clib \<Rightarrow> PrivateKey \<Rightarrow> bytes \<Rightarrow> sig_error + bytes" where
  "sign_pss want lib key msg =
    (case key of
       PrivRsaPSS k h \<Rightarrow>
         sbind (require_alg want (rsaPSSAlgForHash h)) (\<lambda>_. lift_key (PSS_Sign lib k h msg))
     | _ \<Rightarrow> Inl (ErrAlgMismatch want (algForPrivateKey key)))"

definition verify_pss :: "Algorithm \<Rightarrow> clib \<Rightarrow> PublicKey \<Rightarrow> bytes \<Rightarrow> bytes \<Rightarrow> sig_error + bool" where
  "verify_pss want lib key sig msg =
    (case key of
       PubRsaPSS k h \<Rightarrow>
         sbind (require_alg want (rsaPSSAlgForHash h)) (\<lambda>_. Inr (PSS_Verify lib k h sig msg))
     | _ \<Rightarrow> Inl (ErrAlgMismatch want (algForPublicKey key)))"

definition sign_pkcs1 :: "Algorithm \<Rightarrow> clib \<Rightarrow> PrivateKey \<Rightarrow> bytes \<Rightarrow> sig_error + bytes" where
  "sign_pkcs1 want lib key msg =
    (case key of
       PrivRsaPKCS1 k h \<Rightarrow>
         sbind (require_alg want (rsaPKCS1AlgForHash h)) (\<lambda>_. lift_key (PKCS1_Sign lib k h msg))
     | _ \<Rightarrow> Inl (ErrAlgMismatch want (algForPrivateKey key)))"

definition verify_pkcs1 :: "Algorithm \<Rightarrow> clib \<Rightarrow> PublicKey \<Rightarrow> bytes \<Rightarrow> bytes \<Rightarrow> sig_error + bool" where
  "verify_pkcs1 want lib key sig msg =
    (case key of
       PubRsaPKCS1 k h \<Rightarrow>
         sbind (require_alg want (rsaPKCS1AlgForHash h)) (\<lambda>_. Inr (PKCS1_Verify lib k h sig msg))
     | _ \<Rightarrow> Inl (ErrAlgMismatch want (algForPublicKey key)))"

record registryEntry =
  entry_sign :: "PrivateKey \<Rightarrow> bytes \<Rightarrow> sig_error + bytes"
  entry_verify :: "PublicKey \<Rightarrow> bytes \<Rightarrow> bytes \<Rightarrow> sig_error + bool"

type_synonym sig_registry = "Algorithm \<rightharpoonup> registryEntry"

definition sig_register ::
    "Algorithm \<Rightarrow> (PrivateKey \<Rightarrow> bytes \<Rightarrow> sig_error + bytes) \<Rightarrow>
     (PublicKey \<Rightarrow> bytes \<Rightarrow> bytes \<Rightarrow> sig_error + bool) \<Rightarrow> sig_registry \<Rightarrow> sig_registry" where
  "sig_register alg s v reg = reg(alg \<mapsto> \<lparr>entry_sign = s, entry_verify = v\<rparr>)"

text \<open>The registry after package initialisation, each file's \<^verbatim>\<open>init\<close> in turn.\<close>

definition init_registry :: "clib \<Rightarrow> sig_registry" where
  "init_registry lib =
    sig_register AlgorithmRS512 (sign_pkcs1 AlgorithmRS512 lib) (verify_pkcs1 AlgorithmRS512 lib)
   (sig_register AlgorithmRS384 (sign_pkcs1 AlgorithmRS384 lib) (verify_pkcs1 AlgorithmRS384 lib)
   (sig_register AlgorithmRS256 (sign_pkcs1 AlgorithmRS256 lib) (verify_pkcs1 AlgorithmRS256 lib)
   (sig_register AlgorithmPS512 (sign_pss AlgorithmPS512 lib) (verify_pss AlgorithmPS512 lib)
   (sig_register AlgorithmPS384 (sign_pss AlgorithmPS384 lib) (verify_pss AlgorithmPS384 lib)
   (sig_register AlgorithmPS256 (sign_pss AlgorithmPS256 lib) (verify_pss AlgorithmPS256 lib)
   (sig_register AlgorithmES384 (sign_ecdsa AlgorithmES384 lib) (verify_ecdsa AlgorithmES384 lib)
   (sig_register AlgorithmES256 (sign_ecdsa AlgorithmES256 lib) (verify_ecdsa AlgorithmES256 lib)
   (sig_register AlgorithmES256K (sign_ES256K lib) (verify_ES256K lib)
   (sig_register AlgorithmEdDSA (sign_EdDSA lib) (verify_EdDSA lib) Map.empty)))))))))"

definition sig_Sign :: "clib \<Rightarrow> Algorithm \<Rightarrow> PrivateKey \<Rightarrow> bytes \<Rightarrow> sig_error + bytes" where
  "sig_Sign lib alg key msg =
    (case init_registry lib alg of
       None \<Rightarrow> Inl ErrAlgorithmNotRegistered
     | Some entry \<Rightarrow> entry_sign entry key msg)"

definition sig_Verify :: "clib \<Rightarrow> Algorithm \<Rightarrow> PublicKey \<Rightarrow> bytes \<Rightarrow> bytes \<Rightarrow> sig_error + bool" where
  "sig_Verify lib alg key sig msg =
    (case init_registry lib alg of
       None \<Rightarrow> Inl ErrAlgorithmNotRegistered
     | Some entry \<Rightarrow> entry_verify entry key sig msg)"

section \<open>Signers\<close>

text \<open>
  The \<^verbatim>\<open>Signer\<close> interface by its two methods; the Boolean is whether the context is cancelled.
\<close>

record Signer =
  PublicKey_of :: "bool \<Rightarrow> sig_error + PublicKey"
  Sign_with :: "bool \<Rightarrow> bytes \<Rightarrow> sig_error + bytes"

record LocalSigner =
  ls_key :: PrivateKey
  ls_pub :: PublicKey
  ls_alg :: Algorithm

definition publicKeyForPrivateKey :: "clib \<Rightarrow> PrivateKey \<Rightarrow> sig_error + PublicKey" where
  "publicKeyForPrivateKey lib key =
    (case key of
       PrivEd25519 k \<Rightarrow> Inr (PubEd25519 (ed25519_Public k))
     | PrivSecp256k1 k \<Rightarrow> Inr (secp256k1_Public lib k)
     | PrivEcdsa k h \<Rightarrow> Inr (PubEcdsa (map_option ec_pub k) h)
     | PrivRsaPSS k h \<Rightarrow> Inr (PubRsaPSS (rsa_pub k) h)
     | PrivRsaPKCS1 k h \<Rightarrow> Inr (PubRsaPKCS1 (rsa_pub k) h)
     | PrivX25519 _ \<Rightarrow> Inl ErrUnsupportedAlgorithm
     | PrivUnknown \<Rightarrow> Inl ErrUnsupportedAlgorithm
     | PrivNil \<Rightarrow> Inl ErrUnsupportedAlgorithm)"

definition NewLocalSigner :: "clib \<Rightarrow> PrivateKey \<Rightarrow> sig_error + LocalSigner" where
  "NewLocalSigner lib key =
    (if key = PrivNil then Inl ErrNilPrivateKey
     else sbind (AlgorithmForPrivateKey key) (\<lambda>alg.
          sbind (publicKeyForPrivateKey lib key) (\<lambda>pub.
            Inr \<lparr>ls_key = key, ls_pub = pub, ls_alg = alg\<rparr>)))"

definition LocalSigner_PublicKey :: "LocalSigner \<Rightarrow> bool \<Rightarrow> sig_error + PublicKey" where
  "LocalSigner_PublicKey s cancelled = (if cancelled then Inl ErrContext else Inr (ls_pub s))"

definition LocalSigner_Sign :: "clib \<Rightarrow> LocalSigner \<Rightarrow> bool \<Rightarrow> bytes \<Rightarrow> sig_error + bytes" where
  "LocalSigner_Sign lib s cancelled digest =
    (if cancelled then Inl ErrContext else sig_Sign lib (ls_alg s) (ls_key s) digest)"

definition local_signer :: "clib \<Rightarrow> LocalSigner \<Rightarrow> Signer" where
  "local_signer lib s = \<lparr>PublicKey_of = LocalSigner_PublicKey s, Sign_with = LocalSigner_Sign lib s\<rparr>"

section \<open>Dispatch, in one equation\<close>

text \<open>What the closures do for the key's own algorithm.\<close>

definition key_sign :: "clib \<Rightarrow> PrivateKey \<Rightarrow> bytes \<Rightarrow> sig_error + bytes" where
  "key_sign lib key msg =
    (case key of
       PrivEd25519 k \<Rightarrow> Inr (ed25519_Sign lib k msg)
     | PrivSecp256k1 k \<Rightarrow> lift_key (secp256k1_Sign lib k (sha256_sum msg))
     | PrivEcdsa k h \<Rightarrow> lift_key (ecdsa_Sign lib k h msg)
     | PrivRsaPSS k h \<Rightarrow> lift_key (PSS_Sign lib k h msg)
     | PrivRsaPKCS1 k h \<Rightarrow> lift_key (PKCS1_Sign lib k h msg)
     | _ \<Rightarrow> Inl ErrUnsupportedAlgorithm)"

definition key_verify :: "clib \<Rightarrow> PublicKey \<Rightarrow> bytes \<Rightarrow> bytes \<Rightarrow> bool" where
  "key_verify lib key sig msg =
    (case key of
       PubEd25519 k \<Rightarrow> ed25519_Verify lib k sig msg
     | PubSecp256k1 k \<Rightarrow> secp256k1_Verify lib k sig (sha256_sum msg)
     | PubEcdsa k h \<Rightarrow> ecdsa_Verify lib k h sig msg
     | PubRsaPSS k h \<Rightarrow> PSS_Verify lib k h sig msg
     | PubRsaPKCS1 k h \<Rightarrow> PKCS1_Verify lib k h sig msg
     | _ \<Rightarrow> False)"

lemma init_registry_simps [simp]:
  "init_registry lib 1 = Some \<lparr>entry_sign = sign_EdDSA lib, entry_verify = verify_EdDSA lib\<rparr>"
  "init_registry lib 2 = Some \<lparr>entry_sign = sign_ES256K lib, entry_verify = verify_ES256K lib\<rparr>"
  "init_registry lib 3 = Some \<lparr>entry_sign = sign_ecdsa 3 lib, entry_verify = verify_ecdsa 3 lib\<rparr>"
  "init_registry lib 4 = Some \<lparr>entry_sign = sign_ecdsa 4 lib, entry_verify = verify_ecdsa 4 lib\<rparr>"
  "init_registry lib 5 = Some \<lparr>entry_sign = sign_pss 5 lib, entry_verify = verify_pss 5 lib\<rparr>"
  "init_registry lib 6 = Some \<lparr>entry_sign = sign_pss 6 lib, entry_verify = verify_pss 6 lib\<rparr>"
  "init_registry lib 7 = Some \<lparr>entry_sign = sign_pss 7 lib, entry_verify = verify_pss 7 lib\<rparr>"
  "init_registry lib 8 = Some \<lparr>entry_sign = sign_pkcs1 8 lib, entry_verify = verify_pkcs1 8 lib\<rparr>"
  "init_registry lib 9 = Some \<lparr>entry_sign = sign_pkcs1 9 lib, entry_verify = verify_pkcs1 9 lib\<rparr>"
  "init_registry lib 10 = Some \<lparr>entry_sign = sign_pkcs1 10 lib, entry_verify = verify_pkcs1 10 lib\<rparr>"
  by (simp_all add: init_registry_def sig_register_def algorithm_defs)

lemma registered_algorithms: "init_registry lib alg \<noteq> None \<longleftrightarrow> alg \<in> {1, 2, 3, 4, 5, 6, 7, 8, 9, 10}"
  by (simp add: init_registry_def sig_register_def algorithm_defs)

lemma registered_cases:
  assumes "init_registry lib alg = Some e"
  obtains "alg = 1" | "alg = 2" | "alg = 3" | "alg = 4" | "alg = 5" | "alg = 6" | "alg = 7" | "alg = 8"
    | "alg = 9" | "alg = 10"
  using registered_algorithms [of lib alg] assms by auto

lemmas verify_closures =
  verify_EdDSA_def verify_ES256K_def verify_ecdsa_def verify_pss_def verify_pkcs1_def

lemmas key_algorithms =
  AlgorithmForPublicKey_def AlgorithmForPrivateKey_def ecdsaAlgForCurve_def rsaPSSAlgForHash_def
  rsaPKCS1AlgForHash_def algorithm_defs

lemma sig_Verify_Inr:
  "sig_Verify lib alg key sig msg = Inr b \<longleftrightarrow>
   AlgorithmForPublicKey key = Inr alg \<and> b = key_verify lib key sig msg"
proof (cases "init_registry lib alg")
  case None
  then have "alg \<notin> {1, 2, 3, 4, 5, 6, 7, 8, 9, 10}" using registered_algorithms by metis
  with None show ?thesis
    by (auto simp: sig_Verify_def key_algorithms split: PublicKey.splits Curve.splits HashAlg.splits)
next
  case (Some e)
  then show ?thesis
    by (cases rule: registered_cases)
      (auto simp: sig_Verify_def verify_closures key_verify_def require_alg_def key_algorithms
        split: PublicKey.splits Curve.splits HashAlg.splits)
qed

lemma sig_Sign_own:
  assumes "AlgorithmForPrivateKey key = Inr alg"
  shows "sig_Sign lib alg key msg = key_sign lib key msg"
  using assms
  by (auto simp: sig_Sign_def key_sign_def key_algorithms sign_EdDSA_def sign_ES256K_def sign_ecdsa_def
      sign_pss_def sign_pkcs1_def require_alg_def split: PrivateKey.splits Curve.splits HashAlg.splits)

lemma public_key_algorithm:
  "publicKeyForPrivateKey lib key = Inr pub \<Longrightarrow> AlgorithmForPublicKey pub = AlgorithmForPrivateKey key"
  by (auto simp: publicKeyForPrivateKey_def secp256k1_Public_def AlgorithmForPublicKey_def
      AlgorithmForPrivateKey_def split: PrivateKey.splits)

section \<open>Properties\<close>

text \<open>
  C22: no algorithm confusion. \<^verbatim>\<open>Verify\<close> returns a verdict exactly when the key's own type, curve
  or hash resolves to the requested algorithm, and then the verdict is the key's own verification;
  every other combination is an error.
\<close>

theorem sig_Verify_no_confusion:
  "sig_Verify lib alg key sig msg = Inr b \<longleftrightarrow>
   AlgorithmForPublicKey key = Inr alg \<and> b = key_verify lib key sig msg"
  by (rule sig_Verify_Inr)

text \<open>
  The library's documented contract for one private key: what it signs with the key verifies under
  the key's public half; secp256k1 signatures are reduced and low-s.
\<close>

definition signs_correctly :: "clib \<Rightarrow> PrivateKey \<Rightarrow> bool" where
  "signs_correctly lib key =
    (case key of
       PrivEd25519 k \<Rightarrow> \<forall>m. lib_ed25519_Verify lib (drop 32 k) m (lib_ed25519_Sign lib k m)
     | PrivSecp256k1 k \<Rightarrow> \<forall>h r s. lib_secp_Sign lib k h = (r, s) \<longrightarrow>
         r < secp256k1_N \<and> s \<le> secp256k1_N div 2 \<and> lib_secp_Verify lib r s h (lib_secp_PubKey lib k)
     | PrivEcdsa k h \<Rightarrow> \<forall>k' d sig. k = Some k' \<longrightarrow> lib_ecdsa_SignASN1 lib k' d = Some sig \<longrightarrow>
         lib_ecdsa_VerifyASN1 lib (ec_pub k') d sig
     | PrivRsaPSS k h \<Rightarrow> \<forall>d sig. lib_rsa_SignPSS lib k h d = Some sig \<longrightarrow>
         lib_rsa_VerifyPSS lib (rsa_pub k) h d sig
     | PrivRsaPKCS1 k h \<Rightarrow> \<forall>d sig. lib_rsa_SignPKCS1v15 lib k h d = Some sig \<longrightarrow>
         lib_rsa_VerifyPKCS1v15 lib (rsa_pub k) h d sig
     | _ \<Rightarrow> True)"

lemma secp256k1_roundtrip:
  assumes "signs_correctly lib (PrivSecp256k1 k)" and "secp256k1_Sign lib k hash = Inr sig"
  shows "secp256k1_Verify lib (lib_secp_PubKey lib k) sig hash"
proof -
  obtain r s where rs: "lib_secp_Sign lib k hash = (r, s)" by fastforce
  then have sig: "sig = be_bytes 32 r @ be_bytes 32 s" and len: "length hash = 32"
    using assms(2) by (auto simp: secp256k1_Sign_def split: if_splits)
  have ok: "r < secp256k1_N" "s \<le> secp256k1_N div 2" "lib_secp_Verify lib r s hash (lib_secp_PubKey lib k)"
    using assms(1) rs by (auto simp: signs_correctly_def)
  then have lt: "s < secp256k1_N" "r < 256 ^ 32" "s < 256 ^ 32"
    using secp256k1_N_bound secp256k1_N_odd by linarith+
  show ?thesis
    unfolding sig using ok lt len
    by (simp add: secp256k1_Verify_split be_val_be_bytes IsOverHalfOrder_def)
qed

lemma key_sign_verify:
  assumes "signs_correctly lib key" and "publicKeyForPrivateKey lib key = Inr pub"
    and "key_sign lib key msg = Inr sig"
  shows "key_verify lib pub sig msg"
  using assms secp256k1_roundtrip [of lib _ "sha256_sum msg" sig]
  by (auto simp: signs_correctly_def key_sign_def key_verify_def publicKeyForPrivateKey_def
      secp256k1_Public_def ed25519_Sign_def ed25519_Verify_def ed25519_Public_def ecdsa_Sign_def
      ecdsa_Verify_def PSS_Sign_def PSS_Verify_def PKCS1_Sign_def PKCS1_Verify_def rsa_sign_result_def
      lift_key_def split: PrivateKey.splits sum.splits option.splits)

lemma local_signer_verifies:
  assumes "signs_correctly lib key" and "NewLocalSigner lib key = Inr s"
    and "LocalSigner_Sign lib s c digest = Inr sig"
  shows "sig_Verify lib (ls_alg s) (ls_pub s) sig digest = Inr True"
proof -
  from assms(2) have s: "ls_key s = key" "AlgorithmForPrivateKey key = Inr (ls_alg s)"
    "publicKeyForPrivateKey lib key = Inr (ls_pub s)"
    by (auto simp: NewLocalSigner_def sbind_Inr_conv split: if_splits)
  with assms(3) have "key_sign lib key digest = Inr sig"
    by (auto simp: LocalSigner_Sign_def sig_Sign_own split: if_splits)
  with assms(1) s have "key_verify lib (ls_pub s) sig digest" by (intro key_sign_verify)
  with s public_key_algorithm show ?thesis by (simp add: sig_Verify_Inr)
qed

section \<open>Signed objects as an interface\<close>

text \<open>
  What authorities and attestations share: a hash that the signature is made over, a declared
  algorithm, and a verification that accepts exactly a key of that algorithm under which the
  signature verifies.
\<close>

locale signed_object =
  fixes lib :: clib
    and hash_of :: "'o \<Rightarrow> 'e + digest"
    and alg_of :: "'o \<Rightarrow> Algorithm"
    and sig_of :: "'o \<Rightarrow> bytes"
    and verifies :: "'o \<Rightarrow> PublicKey \<Rightarrow> bool"
  assumes verifies_iff: "verifies x pub \<longleftrightarrow>
    AlgorithmForPublicKey pub = Inr (alg_of x) \<and> (\<exists>h. hash_of x = Inr h \<and> key_verify lib pub (sig_of x) h)"
begin

lemma signed_verifies:
  assumes "signs_correctly lib key" and "NewLocalSigner lib key = Inr s"
    and "LocalSigner_Sign lib s c h = Inr sig"
    and "hash_of x = Inr h" and "sig_of x = sig" and "AlgorithmForPublicKey (ls_pub s) = Inr (alg_of x)"
  shows "verifies x (ls_pub s)"
  using local_signer_verifies [OF assms(1-3)] assms(4-6) by (simp add: verifies_iff sig_Verify_Inr)

lemma verifies_one_algorithm: "verifies x pub \<Longrightarrow> verifies y pub \<Longrightarrow> alg_of x = alg_of y"
  by (simp add: verifies_iff)

lemma verifies_same_hash:
  "hash_of x = hash_of y \<Longrightarrow> alg_of x = alg_of y \<Longrightarrow> sig_of x = sig_of y \<Longrightarrow> verifies x pub \<longleftrightarrow> verifies y pub"
  by (simp add: verifies_iff)

end

text \<open>
  a signature made by a local signer verifies under the signer's algorithm and public key, for
  every key whose library operations meet their contract.
\<close>

theorem local_signer_roundtrip:
  assumes "signs_correctly lib key" and "NewLocalSigner lib key = Inr s"
    and "LocalSigner_Sign lib s cancelled digest = Inr sig"
  shows "sig_Verify lib (ls_alg s) (ls_pub s) sig digest = Inr True"
  using assms by (rule local_signer_verifies)

theorem local_signer_roundtrip_witness:
  "\<exists>s sig. NewLocalSigner demo_lib (PrivSecp256k1 5) = Inr s \<and>
     LocalSigner_Sign demo_lib s False [1, 2, 3] = Inr sig \<and>
     sig_Verify demo_lib (ls_alg s) (ls_pub s) sig [1, 2, 3] = Inr True"
proof -
  let ?s = "\<lparr>ls_key = PrivSecp256k1 5, ls_pub = PubSecp256k1 (5, 5), ls_alg = 2\<rparr>"
  let ?sig = "be_bytes 32 1 @ be_bytes 32 1"
  have c: "signs_correctly demo_lib (PrivSecp256k1 5)"
    by (simp add: signs_correctly_def demo_lib_def secp256k1_N_def)
  have n: "NewLocalSigner demo_lib (PrivSecp256k1 5) = Inr ?s"
    by (simp add: NewLocalSigner_def key_algorithms publicKeyForPrivateKey_def secp256k1_Public_def demo_lib_def)
  have g: "LocalSigner_Sign demo_lib ?s False [1, 2, 3] = Inr ?sig"
    by (simp add: LocalSigner_Sign_def sig_Sign_def sign_ES256K_def lift_key_def secp256k1_Sign_def demo_lib_def)
  from local_signer_roundtrip [OF c n g] n g show ?thesis by blast
qed

text \<open>Scanning a table with pairwise different entries finds the one index of an entry.\<close>

lemma find_table:
  assumes "distinct (map f t)"
  shows "List.find (\<lambda>i. f (t ! i) = x) [1..<length t] = Some i \<longleftrightarrow> 1 \<le> i \<and> i < length t \<and> f (t ! i) = x"
proof -
  have "List.find (\<lambda>i. f (t ! i) = x) [1..<length t] = Some i \<longleftrightarrow>
      (\<exists>j<length t - 1. f (t ! (1 + j)) = x \<and> i = 1 + j \<and> (\<forall>k<j. f (t ! (1 + k)) \<noteq> x))"
    by (auto simp: find_Some_iff)
  also have "\<dots> \<longleftrightarrow> (\<exists>j<length t - 1. f (t ! (1 + j)) = x \<and> i = 1 + j)"
  proof -
    have "\<forall>k<j. f (t ! (1 + k)) \<noteq> x" if "j < length t - 1" "f (t ! (1 + j)) = x" for j
    proof (intro allI impI notI)
      fix k assume "k < j" "f (t ! (1 + k)) = x"
      moreover from this that have "1 + j < length t" "1 + k < length t" by simp_all
      ultimately show False using that nth_eq_iff_index_eq [OF assms, of "1 + j" "1 + k"] by simp
    qed
    then show ?thesis by blast
  qed
  also have "\<dots> \<longleftrightarrow> 1 \<le> i \<and> i < length t \<and> f (t ! i) = x"
    by (auto intro: exI [of _ "i - 1"])
  finally show ?thesis .
qed

text \<open>
  The JOSE names and the COSE labels identify the ten registered algorithms: each lookup is the
  exact inverse of the table.
\<close>

theorem algorithm_names_inverse:
  "(AlgorithmForJOSE name = Some a \<longleftrightarrow> 1 \<le> a \<and> a \<le> 10 \<and> JOSE a = name) \<and>
   (AlgorithmForCOSE label = Some a \<longleftrightarrow> 1 \<le> a \<and> a \<le> 10 \<and> COSE a = label)"
proof -
  have "distinct (map fst algorithmTable)" "distinct (map snd algorithmTable)"
    by (simp_all add: algorithmTable_def)
  note finds = this [THEN find_table]
  have len: "length algorithmTable = 11" by (simp add: algorithmTable_def)
  have jose: "AlgorithmForJOSE name = Some a \<longleftrightarrow>
      (\<exists>i. a = int i \<and> 1 \<le> i \<and> i < 11 \<and> fst (algorithmTable ! i) = name)"
    unfolding AlgorithmForJOSE_def map_option_eq_Some finds(1) unfolding len by blast
  have cose: "AlgorithmForCOSE label = Some a \<longleftrightarrow>
      (\<exists>i. a = int i \<and> 1 \<le> i \<and> i < 11 \<and> snd (algorithmTable ! i) = label)"
    unfolding AlgorithmForCOSE_def map_option_eq_Some finds(2) unfolding len by blast
  show ?thesis
    unfolding jose cose JOSE_def COSE_def len by (auto intro!: exI [of _ "nat a"])
qed

end
