(* ===== verification/Authority.thy ===== *)
theory Authority
  imports Canonical Signature
begin

text \<open>
  Authorities, \<^verbatim>\<open>src/authority\<close>: the grant and its parts, structural validation, the canonical hash
  of the unsigned form, signing and proof verification. A pointer is an \<open>option\<close>; so is a slice
  whose nil and empty values marshal differently.
\<close>

section \<open>The data model\<close>

record Capability =
  cap_Namespace :: string
  cap_Name :: string

definition CapabilityAttest :: Capability where
  "CapabilityAttest = \<lparr>cap_Namespace = ''trust'', cap_Name = ''attest''\<rparr>"

definition CapabilityDelegate :: Capability where
  "CapabilityDelegate = \<lparr>cap_Namespace = ''trust'', cap_Name = ''delegate''\<rparr>"

definition CapabilityRevoke :: Capability where
  "CapabilityRevoke = \<lparr>cap_Namespace = ''trust'', cap_Name = ''revoke''\<rparr>"

definition CapabilitySign :: Capability where
  "CapabilitySign = \<lparr>cap_Namespace = ''trust'', cap_Name = ''sign''\<rparr>"

record TimeWindow =
  tw_Start :: gtime
  tw_End :: gtime

record Quantity =
  q_Unit :: string
  q_Limit :: int

record Monetary =
  m_Currency :: string
  m_Limit :: f64

text \<open>The string dimensions marshal with \<^verbatim>\<open>omitempty\<close>: nil and empty are the same to every operation.\<close>

record Scope =
  Resources :: "string list"
  Subjects :: "string list"
  Actions :: "string list"
  Organizations :: "string list"
  Geography :: "string list"
  Channels :: "string list"
  sc_TimeWindow :: "TimeWindow option"
  sc_Quantity :: "Quantity option"
  sc_Monetary :: "Monetary option"

record Validity =
  NotBefore :: gtime
  NotAfter :: gtime

record DelegationConstraints =
  MaxDepth :: "int option"

type_synonym Status = int

definition StatusActive :: Status where "StatusActive = 1"
definition StatusRevoked :: Status where "StatusRevoked = 2"
definition StatusSuperseded :: Status where "StatusSuperseded = 3"
definition StatusExpired :: Status where "StatusExpired = 4"

lemmas status_defs = StatusActive_def StatusRevoked_def StatusSuperseded_def StatusExpired_def

record Proof =
  pr_Algorithm :: Algorithm
  pr_KeyID :: string
  pr_Signature :: "bytes option"

record Authority =
  auth_Subject :: string
  auth_Parent :: "string option"
  auth_Capabilities :: "Capability list option"
  auth_Scope :: Scope
  auth_Validity :: Validity
  auth_DelegationConstraints :: DelegationConstraints
  auth_Status :: Status
  auth_Proof :: Proof

datatype authority_error =
    ErrNilAuthority
  | ErrEmptySubject
  | ErrEmptyCapabilityNamespace
  | ErrEmptyCapabilityName
  | ErrUnsortedCapabilities
  | ErrUnsortedScope
  | ErrUnknownStatus
  | ErrTamperedAuthority
  | ErrWrongKey
  | ErrNilSigner
  | ErrAuthorityHash canonical_error
  | ErrAuthoritySign sig_error

text \<open>Ranging over a slice treats nil as empty.\<close>

definition slice :: "'a list option \<Rightarrow> 'a list" where
  "slice xs = (case xs of None \<Rightarrow> [] | Some ys \<Rightarrow> ys)"

lemma slice_simps [simp]: "slice None = []" "slice (Some ys) = ys"
  by (simp_all add: slice_def)

section \<open>Structural validation\<close>

definition caps_unsorted :: "Capability \<Rightarrow> Capability \<Rightarrow> bool" where
  "caps_unsorted prev c \<longleftrightarrow>
    cap_Namespace prev > cap_Namespace c \<or>
    (cap_Namespace prev = cap_Namespace c \<and> cap_Name prev \<ge> cap_Name c)"

text \<open>The loop with the previous capability, none at index 0.\<close>

fun validate_caps :: "Capability option \<Rightarrow> Capability list \<Rightarrow> authority_error + unit" where
  "validate_caps prev [] = Inr ()"
| "validate_caps prev (c # caps) =
    (if cap_Namespace c = [] then Inl ErrEmptyCapabilityNamespace
     else if cap_Name c = [] then Inl ErrEmptyCapabilityName
     else if (case prev of None \<Rightarrow> False | Some p \<Rightarrow> caps_unsorted p c) then Inl ErrUnsortedCapabilities
     else validate_caps (Some c) caps)"

definition ValidateCapabilities :: "Capability list option \<Rightarrow> authority_error + unit" where
  "ValidateCapabilities caps = validate_caps None (slice caps)"

fun validateSortedStrings :: "string list \<Rightarrow> authority_error + unit" where
  "validateSortedStrings (a # b # vals) =
    (if a \<ge> b then Inl ErrUnsortedScope else validateSortedStrings (b # vals))"
| "validateSortedStrings _ = Inr ()"

fun each_dimension :: "string list list \<Rightarrow> authority_error + unit" where
  "each_dimension [] = Inr ()"
| "each_dimension (d # ds) = sbind (validateSortedStrings d) (\<lambda>_. each_dimension ds)"

definition ValidateScope :: "Scope \<Rightarrow> authority_error + unit" where
  "ValidateScope s =
    each_dimension [Resources s, Subjects s, Actions s, Organizations s, Geography s, Channels s]"

definition known_status :: "Status \<Rightarrow> bool" where
  "known_status s \<longleftrightarrow>
    s = StatusActive \<or> s = StatusRevoked \<or> s = StatusSuperseded \<or> s = StatusExpired"

definition authority_Validate :: "Authority option \<Rightarrow> authority_error + unit" where
  "authority_Validate auth =
    (case auth of
       None \<Rightarrow> Inl ErrNilAuthority
     | Some a \<Rightarrow>
        if auth_Subject a = [] then Inl ErrEmptySubject
        else sbind (ValidateCapabilities (auth_Capabilities a)) (\<lambda>_.
             sbind (ValidateScope (auth_Scope a)) (\<lambda>_.
               if known_status (auth_Status a) then Inr () else Inl ErrUnknownStatus)))"

section \<open>The canonical form\<close>

text \<open>Members of a struct: always present, omitted when empty, omitted when nil.\<close>

definition mem_json :: "json option \<Rightarrow> json option option" where
  "mem_json v = map_option Some v"

definition mem_strings :: "string list \<Rightarrow> json option option" where
  "mem_strings xs = Some (if xs = [] then None else Some (JArr (map json_string xs)))"

definition mem_pointer :: "('a \<Rightarrow> json option) \<Rightarrow> 'a option \<Rightarrow> json option option" where
  "mem_pointer f p = (case p of None \<Rightarrow> Some None | Some x \<Rightarrow> map_option Some (f x))"

definition slice_json :: "('a \<Rightarrow> json option) \<Rightarrow> 'a list option \<Rightarrow> json option" where
  "slice_json f xs =
    (case xs of None \<Rightarrow> Some JNull | Some ys \<Rightarrow> map_option JArr (option_list (map f ys)))"

definition capability_json :: "Capability \<Rightarrow> json option" where
  "capability_json c = json_struct
    [(''namespace'', mem_json (Some (json_string (cap_Namespace c)))),
     (''name'', mem_json (Some (json_string (cap_Name c))))]"

definition timewindow_json :: "TimeWindow \<Rightarrow> json option" where
  "timewindow_json w = json_struct
    [(''start'', mem_json (json_time (tw_Start w))), (''end'', mem_json (json_time (tw_End w)))]"

definition quantity_json :: "Quantity \<Rightarrow> json option" where
  "quantity_json q = json_struct
    [(''unit'', mem_json (Some (json_string (q_Unit q)))), (''limit'', mem_json (Some (json_int (q_Limit q))))]"

definition monetary_json :: "Monetary \<Rightarrow> json option" where
  "monetary_json m = json_struct
    [(''currency'', mem_json (Some (json_string (m_Currency m)))), (''limit'', mem_json (json_float (m_Limit m)))]"

definition scope_json :: "Scope \<Rightarrow> json option" where
  "scope_json s = json_struct
    [(''resources'', mem_strings (Resources s)),
     (''subjects'', mem_strings (Subjects s)),
     (''actions'', mem_strings (Actions s)),
     (''organizations'', mem_strings (Organizations s)),
     (''geography'', mem_strings (Geography s)),
     (''channels'', mem_strings (Channels s)),
     (''timeWindow'', mem_pointer timewindow_json (sc_TimeWindow s)),
     (''quantity'', mem_pointer quantity_json (sc_Quantity s)),
     (''monetary'', mem_pointer monetary_json (sc_Monetary s))]"

definition validity_json :: "Validity \<Rightarrow> json option" where
  "validity_json v = json_struct
    [(''notBefore'', mem_json (json_time (NotBefore v))), (''notAfter'', mem_json (json_time (NotAfter v)))]"

definition constraints_json :: "DelegationConstraints \<Rightarrow> json option" where
  "constraints_json d = json_struct [(''maxDepth'', mem_pointer (\<lambda>i. Some (json_int i)) (MaxDepth d))]"

text \<open>A signature marshals with \<^verbatim>\<open>omitempty\<close>: nil and empty are left out.\<close>

definition mem_signature :: "bytes option \<Rightarrow> json option option" where
  "mem_signature sig = Some (if slice sig = [] then None else Some (json_bytes sig))"

definition proof_json :: "Proof \<Rightarrow> json option" where
  "proof_json p = json_struct
    [(''algorithm'', mem_json (Some (json_int (pr_Algorithm p)))),
     (''keyId'', mem_json (Some (json_string (pr_KeyID p)))),
     (''signature'', mem_signature (pr_Signature p))]"

definition authority_json :: "Authority \<Rightarrow> json option" where
  "authority_json a = json_struct
    [(''subject'', mem_json (Some (json_string (auth_Subject a)))),
     (''parent'', mem_pointer (\<lambda>s. Some (json_string s)) (auth_Parent a)),
     (''capabilities'', mem_json (slice_json capability_json (auth_Capabilities a))),
     (''scope'', mem_json (scope_json (auth_Scope a))),
     (''validity'', mem_json (validity_json (auth_Validity a))),
     (''delegationConstraints'', mem_json (constraints_json (auth_DelegationConstraints a))),
     (''status'', mem_json (Some (json_int (auth_Status a)))),
     (''proof'', mem_json (proof_json (auth_Proof a)))]"

definition authority_CanonicalEncoding :: "Authority \<Rightarrow> Encoding" where
  "authority_CanonicalEncoding a = EncodingJSON"

text \<open>\<^verbatim>\<open>wire.Proof.Signature = nil\<close> on a shallow copy.\<close>

definition unsigned_authority :: "Authority \<Rightarrow> Authority" where
  "unsigned_authority a = a\<lparr>auth_Proof := (auth_Proof a)\<lparr>pr_Signature := None\<rparr>\<rparr>"

definition authority_CanonicalHash :: "Authority option \<Rightarrow> authority_error + digest" where
  "authority_CanonicalHash auth =
    (case auth of
       None \<Rightarrow> Inl ErrNilAuthority
     | Some a \<Rightarrow>
        (let wire = unsigned_authority a
         in case canonical_CanonicalHash (Some (authority_CanonicalEncoding wire)) (authority_json wire) None of
              Inl e \<Rightarrow> Inl (ErrAuthorityHash e)
            | Inr h \<Rightarrow> Inr h))"

section \<open>Proofs\<close>

text \<open>
  \<^verbatim>\<open>SignAuthority\<close> mutates the authority it is given, also when it fails: the result carries the
  authority as the call leaves it.
\<close>

definition SignAuthority ::
    "Authority option \<Rightarrow> Signer option \<Rightarrow> bool \<Rightarrow> string \<Rightarrow> Authority option \<times> (authority_error + unit)" where
  "SignAuthority auth signer cancelled keyID =
    (case auth of
       None \<Rightarrow> (None, Inl ErrNilAuthority)
     | Some a \<Rightarrow>
       (case signer of
          None \<Rightarrow> (auth, Inl ErrNilSigner)
        | Some sg \<Rightarrow>
          (case PublicKey_of sg cancelled of
             Inl e \<Rightarrow> (auth, Inl (ErrAuthoritySign e))
           | Inr pub \<Rightarrow>
             (case AlgorithmForPublicKey pub of
                Inl e \<Rightarrow> (auth, Inl (ErrAuthoritySign e))
              | Inr alg \<Rightarrow>
                (let a1 = a\<lparr>auth_Proof := \<lparr>pr_Algorithm = alg, pr_KeyID = keyID, pr_Signature = None\<rparr>\<rparr>
                 in case authority_CanonicalHash (Some a1) of
                      Inl e \<Rightarrow> (Some a1, Inl e)
                    | Inr h \<Rightarrow>
                      (case Sign_with sg cancelled h of
                         Inl e \<Rightarrow> (Some a1, Inl (ErrAuthoritySign e))
                       | Inr sig \<Rightarrow>
                         (Some (a1\<lparr>auth_Proof := (auth_Proof a1)\<lparr>pr_Signature := Some sig\<rparr>\<rparr>), Inr ())))))))"

definition VerifyAuthorityProof :: "clib \<Rightarrow> Authority option \<Rightarrow> PublicKey \<Rightarrow> authority_error + unit" where
  "VerifyAuthorityProof lib auth pubKey =
    (case auth of
       None \<Rightarrow> Inl ErrNilAuthority
     | Some a \<Rightarrow>
       (case AlgorithmForPublicKey pubKey of
          Inl _ \<Rightarrow> Inl ErrWrongKey
        | Inr alg \<Rightarrow>
          if alg \<noteq> pr_Algorithm (auth_Proof a) then Inl ErrWrongKey
          else sbind (authority_CanonicalHash auth) (\<lambda>h.
            case sig_Verify lib (pr_Algorithm (auth_Proof a)) pubKey (slice (pr_Signature (auth_Proof a))) h of
              Inl _ \<Rightarrow> Inl ErrTamperedAuthority
            | Inr ok \<Rightarrow> if ok then Inr () else Inl ErrTamperedAuthority)))"

section \<open>What validation establishes\<close>

definition cap_less :: "Capability \<Rightarrow> Capability \<Rightarrow> bool" where
  "cap_less a b \<longleftrightarrow>
    cap_Namespace a < cap_Namespace b \<or>
    (cap_Namespace a = cap_Namespace b \<and> cap_Name a < cap_Name b)"

lemma caps_unsorted_iff: "caps_unsorted a b \<longleftrightarrow> \<not> cap_less a b"
  by (auto simp: caps_unsorted_def cap_less_def)

lemma cap_less_trans: "cap_less a b \<Longrightarrow> cap_less b c \<Longrightarrow> cap_less a c"
  by (auto simp: cap_less_def)

lemma transp_cap_less: "transp cap_less"
  by (rule transpI) (rule cap_less_trans)

lemma validate_caps_Some:
  "validate_caps (Some p) caps = Inr () \<longleftrightarrow>
   sorted_wrt cap_less (p # caps) \<and> (\<forall>c\<in>set caps. cap_Namespace c \<noteq> [] \<and> cap_Name c \<noteq> [])"
proof (induction caps arbitrary: p)
  case (Cons c caps)
  then show ?case by (auto simp: caps_unsorted_iff dest: cap_less_trans)
qed simp

lemma ValidateCapabilities_Inr:
  "ValidateCapabilities caps = Inr () \<longleftrightarrow>
   sorted_wrt cap_less (slice caps) \<and> (\<forall>c\<in>set (slice caps). cap_Namespace c \<noteq> [] \<and> cap_Name c \<noteq> [])"
  by (cases "slice caps") (auto simp: ValidateCapabilities_def validate_caps_Some)

lemma validateSortedStrings_Inr: "validateSortedStrings vals = Inr () \<longleftrightarrow> sorted_wrt (<) vals"
  by (induction vals rule: validateSortedStrings.induct) (auto simp: not_le)

lemma each_dimension_Inr: "each_dimension ds = Inr () \<longleftrightarrow> (\<forall>d\<in>set ds. sorted_wrt (<) d)"
  by (induction ds) (auto simp: sbind_Inr_conv validateSortedStrings_Inr)

lemma ValidateScope_Inr:
  "ValidateScope s = Inr () \<longleftrightarrow>
   sorted_wrt (<) (Resources s) \<and> sorted_wrt (<) (Subjects s) \<and> sorted_wrt (<) (Actions s) \<and>
   sorted_wrt (<) (Organizations s) \<and> sorted_wrt (<) (Geography s) \<and> sorted_wrt (<) (Channels s)"
  unfolding ValidateScope_def each_dimension_Inr by simp

lemma sorted_wrt_cap_less_distinct: "sorted_wrt cap_less caps \<Longrightarrow> distinct caps"
  by (induction caps) (auto simp: cap_less_def)

section \<open>Signing and verifying\<close>

lemma authority_hash_ignores_signature:
  "authority_CanonicalHash (Some (a\<lparr>auth_Proof := (auth_Proof a)\<lparr>pr_Signature := sig\<rparr>\<rparr>)) =
   authority_CanonicalHash (Some a)"
  by (simp add: authority_CanonicalHash_def unsigned_authority_def)

lemma VerifyAuthorityProof_Inr:
  "VerifyAuthorityProof lib (Some a) pub = Inr () \<longleftrightarrow>
   AlgorithmForPublicKey pub = Inr (pr_Algorithm (auth_Proof a)) \<and>
   (\<exists>h. authority_CanonicalHash (Some a) = Inr h \<and>
      key_verify lib pub (slice (pr_Signature (auth_Proof a))) h)"
proof (cases "AlgorithmForPublicKey pub = Inr (pr_Algorithm (auth_Proof a))")
  case True
  then have "sig_Verify lib (pr_Algorithm (auth_Proof a)) pub sig h = Inr (key_verify lib pub sig h)" for sig h
    using sig_Verify_Inr by blast
  with True show ?thesis by (auto simp: VerifyAuthorityProof_def sbind_Inr_conv)
next
  case False
  then show ?thesis by (auto simp: VerifyAuthorityProof_def split: sum.splits)
qed

section \<open>Properties\<close>

interpretation auth_signed: signed_object lib "\<lambda>a. authority_CanonicalHash (Some a)"
    "\<lambda>a. pr_Algorithm (auth_Proof a)" "\<lambda>a. slice (pr_Signature (auth_Proof a))"
    "\<lambda>a pub. VerifyAuthorityProof lib (Some a) pub = Inr ()" for lib
  by unfold_locales (rule VerifyAuthorityProof_Inr)

text \<open>
  \<^verbatim>\<open>Validate\<close> accepts exactly the authorities in canonical form: a subject, capabilities
  strictly ascending by namespace and name with no empty part, every string dimension of the scope
  strictly ascending, a known status. In particular there are no duplicates.
\<close>

theorem authority_Validate_canonical:
  "authority_Validate (Some a) = Inr () \<longleftrightarrow>
   auth_Subject a \<noteq> [] \<and>
   sorted_wrt cap_less (slice (auth_Capabilities a)) \<and> distinct (slice (auth_Capabilities a)) \<and>
   list_all (\<lambda>c. cap_Namespace c \<noteq> [] \<and> cap_Name c \<noteq> []) (slice (auth_Capabilities a)) \<and>
   list_all (sorted_wrt (<))
     [Resources (auth_Scope a), Subjects (auth_Scope a), Actions (auth_Scope a),
      Organizations (auth_Scope a), Geography (auth_Scope a), Channels (auth_Scope a)] \<and>
   known_status (auth_Status a)"
proof -
  have "ValidateScope (auth_Scope a) = Inr () \<longleftrightarrow> list_all (sorted_wrt (<))
     [Resources (auth_Scope a), Subjects (auth_Scope a), Actions (auth_Scope a),
      Organizations (auth_Scope a), Geography (auth_Scope a), Channels (auth_Scope a)]"
    by (simp add: ValidateScope_Inr)
  moreover have "ValidateCapabilities (auth_Capabilities a) = Inr () \<longleftrightarrow>
     sorted_wrt cap_less (slice (auth_Capabilities a)) \<and> distinct (slice (auth_Capabilities a)) \<and>
     list_all (\<lambda>c. cap_Namespace c \<noteq> [] \<and> cap_Name c \<noteq> []) (slice (auth_Capabilities a))"
    by (auto simp: ValidateCapabilities_Inr list_all_iff sorted_wrt_cap_less_distinct)
  ultimately show ?thesis by (auto simp: authority_Validate_def sbind_Inr_conv)
qed

text \<open>
  \<^verbatim>\<open>VerifyAuthorityProof\<close> accepts exactly when the supplied key is of the proof's algorithm
  and that key's own verification accepts the stored signature over the canonical hash of the
  authority without its signature.
\<close>

theorem VerifyAuthorityProof_exact:
  "VerifyAuthorityProof lib (Some a) pub = Inr () \<longleftrightarrow>
   AlgorithmForPublicKey pub = Inr (pr_Algorithm (auth_Proof a)) \<and>
   (\<exists>h. authority_CanonicalHash (Some (unsigned_authority a)) = Inr h \<and>
      key_verify lib pub (slice (pr_Signature (auth_Proof a))) h)"
  using authority_hash_ignores_signature [where a = a and sig = None]
  by (simp add: VerifyAuthorityProof_Inr unsigned_authority_def)

text \<open>
  an authority signed with a local signer verifies under the signer's public key, and signing
  changes nothing of it but the proof.
\<close>

theorem SignAuthority_verifies:
  assumes "signs_correctly lib key" and "NewLocalSigner lib key = Inr s"
    and "SignAuthority (Some a) (Some (local_signer lib s)) cancelled keyID = (Some a', Inr ())"
  shows "VerifyAuthorityProof lib (Some a') (ls_pub s) = Inr () \<and>
    a' = a\<lparr>auth_Proof := auth_Proof a'\<rparr> \<and> pr_KeyID (auth_Proof a') = keyID"
proof -
  obtain h sig alg where
    alg: "AlgorithmForPublicKey (ls_pub s) = Inr alg" and
    h: "authority_CanonicalHash
      (Some (a\<lparr>auth_Proof := \<lparr>pr_Algorithm = alg, pr_KeyID = keyID, pr_Signature = None\<rparr>\<rparr>)) = Inr h" and
    sig: "LocalSigner_Sign lib s cancelled h = Inr sig" and
    a': "a' = a\<lparr>auth_Proof := \<lparr>pr_Algorithm = alg, pr_KeyID = keyID, pr_Signature = Some sig\<rparr>\<rparr>"
    using assms(3)
    by (auto simp: SignAuthority_def local_signer_def LocalSigner_PublicKey_def Let_def
        split: sum.splits if_splits)
  have "authority_CanonicalHash (Some a') = Inr h"
    using h authority_hash_ignores_signature [where a = a' and sig = None] by (simp add: a')
  with alg have "VerifyAuthorityProof lib (Some a') (ls_pub s) = Inr ()"
    by (intro auth_signed.signed_verifies [OF assms(1,2) sig]) (simp_all add: a')
  then show ?thesis by (simp add: a')
qed

definition demo_authority :: Authority where
  "demo_authority = \<lparr>
    auth_Subject = ''did:example:a'', auth_Parent = None, auth_Capabilities = Some [CapabilityAttest],
    auth_Scope = \<lparr>Resources = [], Subjects = [], Actions = [], Organizations = [], Geography = [],
      Channels = [], sc_TimeWindow = None, sc_Quantity = None, sc_Monetary = None\<rparr>,
    auth_Validity = \<lparr>NotBefore = zero_time, NotAfter = zero_time\<rparr>,
    auth_DelegationConstraints = \<lparr>MaxDepth = None\<rparr>, auth_Status = 1,
    auth_Proof = \<lparr>pr_Algorithm = 0, pr_KeyID = [], pr_Signature = None\<rparr>\<rparr>"

text \<open>Evaluating the trees of concrete values.\<close>

lemmas struct_json_defs = json_struct_def option_values_def mem_json_def mem_pointer_def mem_strings_def
  mem_signature_def slice_json_def scope_json_def validity_json_def constraints_json_def capability_json_def
  proof_json_def authority_json_def json_time_def json_string_def

lemma time_json_zero: "time_json zero_time = Some (format_rfc3339 zero_time)"
  by (simp add: time_json_def local_year_def local_seconds_def zero_time_def year_day_def Let_def)

lemma json_depth_int: "json_depth (json_int i) = 0"
  by (simp add: json_int_def)

lemma numbers_ok_small: "numbers_ok (json_int 0)" "numbers_ok (json_int 1)" "numbers_ok (json_int 2)"
  by (simp_all add: numbers_ok_json_int del: numbers_ok.simps)

lemmas struct_json_eval = struct_json_defs time_json_zero json_depth_int numbers_ok_small

text \<open>The demonstration authority has a canonical hash, whatever its proof.\<close>

lemma demo_json_numbers:
  "\<exists>t. authority_json (demo_authority\<lparr>auth_Proof := \<lparr>pr_Algorithm = 2, pr_KeyID = k, pr_Signature = None\<rparr>\<rparr>) = Some t \<and>
     json_depth t \<le> 10000 \<and> numbers_ok t"
  by (simp add: demo_authority_def struct_json_eval)

lemma demo_authority_hash:
  "\<exists>h. authority_CanonicalHash (Some
     (demo_authority\<lparr>auth_Proof := \<lparr>pr_Algorithm = 2, pr_KeyID = k, pr_Signature = None\<rparr>\<rparr>)) = Inr h"
proof -
  let ?a = "demo_authority\<lparr>auth_Proof := \<lparr>pr_Algorithm = 2, pr_KeyID = k, pr_Signature = None\<rparr>\<rparr>"
  have "\<exists>h. canonical_CanonicalHash (Some EncodingJSON) (authority_json ?a) None = Inr h"
    unfolding canonical_CanonicalHash_JSON by (rule demo_json_numbers)
  then show ?thesis
    by (auto simp: authority_CanonicalHash_def unsigned_authority_def authority_CanonicalEncoding_def)
qed

theorem SignAuthority_verifies_witness:
  "\<exists>s a'. NewLocalSigner demo_lib (PrivSecp256k1 5) = Inr s \<and>
     SignAuthority (Some demo_authority) (Some (local_signer demo_lib s)) False ''k'' = (Some a', Inr ()) \<and>
     VerifyAuthorityProof demo_lib (Some a') (ls_pub s) = Inr ()"
proof -
  let ?s = "\<lparr>ls_key = PrivSecp256k1 5, ls_pub = PubSecp256k1 (5, 5), ls_alg = 2\<rparr>"
  obtain h where h: "authority_CanonicalHash (Some (demo_authority\<lparr>auth_Proof :=
      \<lparr>pr_Algorithm = 2, pr_KeyID = ''k'', pr_Signature = None\<rparr>\<rparr>)) = Inr h"
    using demo_authority_hash by blast
  have c: "signs_correctly demo_lib (PrivSecp256k1 5)"
    by (simp add: signs_correctly_def demo_lib_def secp256k1_N_def)
  have n: "NewLocalSigner demo_lib (PrivSecp256k1 5) = Inr ?s"
    by (simp add: NewLocalSigner_def key_algorithms publicKeyForPrivateKey_def secp256k1_Public_def demo_lib_def)
  have "LocalSigner_Sign demo_lib ?s False h = Inr (be_bytes 32 1 @ be_bytes 32 1)"
    by (simp add: LocalSigner_Sign_def sig_Sign_def sign_ES256K_def lift_key_def secp256k1_Sign_def demo_lib_def)
  then have "\<exists>a'. SignAuthority (Some demo_authority) (Some (local_signer demo_lib ?s)) False ''k'' = (Some a', Inr ())"
    by (simp add: SignAuthority_def local_signer_def LocalSigner_PublicKey_def key_algorithms h)
  then obtain a' where g: "SignAuthority (Some demo_authority) (Some (local_signer demo_lib ?s)) False ''k'' = (Some a', Inr ())"
    by blast
  from SignAuthority_verifies [OF c n g] n g show ?thesis by blast
qed

end
