(* ===== verification/Delegation.thy ===== *)
theory Delegation
  imports Authority
begin

text \<open>
  Delegation, \<^verbatim>\<open>src/delegation\<close>: the subset tests on each dimension of an authority, \<^verbatim>\<open>VerifySubset\<close>
  and \<^verbatim>\<open>Derive\<close>. The tests are instances of one contract, a transitive narrowing relation, under
  which the guarantees for one hop extend to a whole chain.
\<close>

section \<open>The subset tests\<close>

datatype delegation_error =
    ErrCapabilityEscalation
  | ErrScopeEscalation
  | ErrValidityEscalation
  | ErrDepthEscalation
  | ErrDelegationNil authority_error
  | ErrDelegationHash authority_error

definition capabilitySubset :: "Capability list option \<Rightarrow> Capability list option \<Rightarrow> bool" where
  "capabilitySubset parent child \<longleftrightarrow> list_all (\<lambda>c. c \<in> set (slice parent)) (slice child)"

definition stringSliceSubset :: "string list \<Rightarrow> string list \<Rightarrow> bool" where
  "stringSliceSubset parent child =
    (if length parent = 0 then True
     else if length child = 0 then False
     else list_all (\<lambda>s. s \<in> set parent) child)"

definition timeWindowSubset :: "TimeWindow option \<Rightarrow> TimeWindow option \<Rightarrow> bool" where
  "timeWindowSubset parent child =
    (case child of
       None \<Rightarrow> parent = None
     | Some c \<Rightarrow> (case parent of
         None \<Rightarrow> True
       | Some p \<Rightarrow> \<not> Before (tw_Start c) (tw_Start p) \<and> \<not> After (tw_End c) (tw_End p)))"

definition quantitySubset :: "Quantity option \<Rightarrow> Quantity option \<Rightarrow> bool" where
  "quantitySubset parent child =
    (case child of
       None \<Rightarrow> parent = None
     | Some c \<Rightarrow> (case parent of
         None \<Rightarrow> True
       | Some p \<Rightarrow> q_Unit c = q_Unit p \<and> q_Limit c \<le> q_Limit p))"

definition monetarySubset :: "Monetary option \<Rightarrow> Monetary option \<Rightarrow> bool" where
  "monetarySubset parent child =
    (case child of
       None \<Rightarrow> parent = None
     | Some c \<Rightarrow> (case parent of
         None \<Rightarrow> True
       | Some p \<Rightarrow> m_Currency c = m_Currency p \<and> f64_le (m_Limit c) (m_Limit p)))"

definition scopeSubset :: "Scope \<Rightarrow> Scope \<Rightarrow> bool" where
  "scopeSubset parent child \<longleftrightarrow>
    stringSliceSubset (Resources parent) (Resources child) \<and>
    stringSliceSubset (Subjects parent) (Subjects child) \<and>
    stringSliceSubset (Actions parent) (Actions child) \<and>
    stringSliceSubset (Organizations parent) (Organizations child) \<and>
    stringSliceSubset (Geography parent) (Geography child) \<and>
    stringSliceSubset (Channels parent) (Channels child) \<and>
    timeWindowSubset (sc_TimeWindow parent) (sc_TimeWindow child) \<and>
    quantitySubset (sc_Quantity parent) (sc_Quantity child) \<and>
    monetarySubset (sc_Monetary parent) (sc_Monetary child)"

definition validitySubset :: "Validity \<Rightarrow> Validity \<Rightarrow> bool" where
  "validitySubset parent child \<longleftrightarrow>
    \<not> Before (NotBefore child) (NotBefore parent) \<and> \<not> After (NotAfter child) (NotAfter parent)"

definition delegationDepthOK :: "DelegationConstraints \<Rightarrow> DelegationConstraints \<Rightarrow> bool" where
  "delegationDepthOK parentConstraints childConstraints =
    (case MaxDepth parentConstraints of
       None \<Rightarrow> True
     | Some n \<Rightarrow> (case MaxDepth childConstraints of None \<Rightarrow> False | Some m \<Rightarrow> m < n))"

definition VerifySubset :: "Authority option \<Rightarrow> Authority option \<Rightarrow> delegation_error + unit" where
  "VerifySubset child parent =
    (case (child, parent) of
       (Some c, Some p) \<Rightarrow>
         if \<not> capabilitySubset (auth_Capabilities p) (auth_Capabilities c) then Inl ErrCapabilityEscalation
         else if \<not> scopeSubset (auth_Scope p) (auth_Scope c) then Inl ErrScopeEscalation
         else if \<not> validitySubset (auth_Validity p) (auth_Validity c) then Inl ErrValidityEscalation
         else if \<not> delegationDepthOK (auth_DelegationConstraints p) (auth_DelegationConstraints c)
         then Inl ErrDepthEscalation
         else Inr ()
     | _ \<Rightarrow> Inl (ErrDelegationNil ErrNilAuthority))"

section \<open>Deriving a child\<close>

record DelegationSpec =
  spec_Subject :: string
  spec_Capabilities :: "Capability list option"
  spec_Scope :: Scope
  spec_Validity :: Validity
  spec_DelegationConstraints :: DelegationConstraints

definition zero_proof :: Proof where
  "zero_proof = \<lparr>pr_Algorithm = 0, pr_KeyID = [], pr_Signature = None\<rparr>"

definition child_of_spec :: "DelegationSpec \<Rightarrow> Authority" where
  "child_of_spec spec = \<lparr>
    auth_Subject = spec_Subject spec, auth_Parent = None, auth_Capabilities = spec_Capabilities spec,
    auth_Scope = spec_Scope spec, auth_Validity = spec_Validity spec,
    auth_DelegationConstraints = spec_DelegationConstraints spec, auth_Status = StatusActive,
    auth_Proof = zero_proof\<rparr>"

definition Derive :: "Authority option \<Rightarrow> DelegationSpec \<Rightarrow> delegation_error + Authority" where
  "Derive parent spec =
    (case parent of
       None \<Rightarrow> Inl (ErrDelegationNil ErrNilAuthority)
     | Some p \<Rightarrow>
        (let child = child_of_spec spec
         in sbind (VerifySubset (Some child) (Some p)) (\<lambda>_.
            case authority_CanonicalHash (Some p) of
              Inl e \<Rightarrow> Inl (ErrDelegationHash e)
            | Inr ph \<Rightarrow> Inr (child\<lparr>auth_Parent := Some (hex_EncodeToString ph)\<rparr>))))"

section \<open>Narrowing as an interface\<close>

text \<open>
  What one hop promises: \<open>narrows p c\<close> says that the child \<open>c\<close> stays within its parent \<open>p\<close>. A chain is
  listed from the leaf to the root.
\<close>

locale narrowing =
  fixes narrows :: "'a \<Rightarrow> 'a \<Rightarrow> bool"
  assumes narrows_trans: "narrows a b \<Longrightarrow> narrows b c \<Longrightarrow> narrows a c"
begin

definition linked :: "'a list \<Rightarrow> bool" where
  "linked xs \<longleftrightarrow> (\<forall>i. Suc i < length xs \<longrightarrow> narrows (xs ! Suc i) (xs ! i))"

lemma linked_narrows: "linked xs \<Longrightarrow> i < j \<Longrightarrow> j < length xs \<Longrightarrow> narrows (xs ! j) (xs ! i)"
proof (induction "j - i" arbitrary: i)
  case (Suc n)
  then have step: "narrows (xs ! Suc i) (xs ! i)" by (auto simp: linked_def)
  show ?case
  proof (cases "Suc i = j")
    case False
    with Suc have "narrows (xs ! j) (xs ! Suc i)" by (intro Suc.hyps) simp_all
    from narrows_trans [OF this step] show ?thesis .
  qed (use step in simp)
qed simp

end

text \<open>A narrowing relation whose members grant requests: what the child grants, the parent grants.\<close>

locale granting = narrowing +
  fixes grants :: "'a \<Rightarrow> 'r \<Rightarrow> bool"
  assumes narrows_grants: "narrows p c \<Longrightarrow> grants c r \<Longrightarrow> grants p r"
begin

lemma linked_grants:
  "linked xs \<Longrightarrow> i < j \<Longrightarrow> j < length xs \<Longrightarrow> grants (xs ! i) r \<Longrightarrow> grants (xs ! j) r"
  by (rule narrows_grants [OF linked_narrows])

end

text \<open>What each dimension of a scope grants.\<close>

definition dim_grants :: "string list \<Rightarrow> string \<Rightarrow> bool" where
  "dim_grants d s \<longleftrightarrow> d = [] \<or> s \<in> set d"

definition window_grants :: "TimeWindow option \<Rightarrow> gtime \<Rightarrow> bool" where
  "window_grants w t = (case w of None \<Rightarrow> True | Some tw \<Rightarrow> \<not> Before t (tw_Start tw) \<and> \<not> After t (tw_End tw))"

definition quantity_grants :: "Quantity option \<Rightarrow> string \<times> int \<Rightarrow> bool" where
  "quantity_grants q r = (case q of None \<Rightarrow> True | Some l \<Rightarrow> fst r = q_Unit l \<and> snd r \<le> q_Limit l)"

definition monetary_grants :: "Monetary option \<Rightarrow> string \<times> f64 \<Rightarrow> bool" where
  "monetary_grants m r = (case m of None \<Rightarrow> True | Some l \<Rightarrow> fst r = m_Currency l \<and> f64_le (snd r) (m_Limit l))"

interpretation dim_narrow: granting stringSliceSubset dim_grants
  by unfold_locales (auto simp: stringSliceSubset_def dim_grants_def list_all_iff split: if_splits)

interpretation window_narrow: granting timeWindowSubset window_grants
  by unfold_locales (auto simp: timeWindowSubset_def window_grants_def Before_def After_def split: option.splits)

interpretation quantity_narrow: granting quantitySubset quantity_grants
  by unfold_locales (auto simp: quantitySubset_def quantity_grants_def split: option.splits)

interpretation monetary_narrow: granting monetarySubset monetary_grants
  by unfold_locales
    (auto simp: monetarySubset_def monetary_grants_def split: option.splits dest: f64_le_trans)

text \<open>A request names a value for every dimension; the validity window bounds its time too.\<close>

record request =
  rq_capability :: Capability
  rq_resource :: string
  rq_subject :: string
  rq_action :: string
  rq_organization :: string
  rq_geography :: string
  rq_channel :: string
  rq_time :: gtime
  rq_quantity :: "string \<times> int"
  rq_amount :: "string \<times> f64"

definition scope_grants :: "Scope \<Rightarrow> request \<Rightarrow> bool" where
  "scope_grants s r \<longleftrightarrow>
    dim_grants (Resources s) (rq_resource r) \<and> dim_grants (Subjects s) (rq_subject r) \<and>
    dim_grants (Actions s) (rq_action r) \<and> dim_grants (Organizations s) (rq_organization r) \<and>
    dim_grants (Geography s) (rq_geography r) \<and> dim_grants (Channels s) (rq_channel r) \<and>
    window_grants (sc_TimeWindow s) (rq_time r) \<and> quantity_grants (sc_Quantity s) (rq_quantity r) \<and>
    monetary_grants (sc_Monetary s) (rq_amount r)"

definition authority_grants :: "Authority \<Rightarrow> request \<Rightarrow> bool" where
  "authority_grants a r \<longleftrightarrow>
    rq_capability r \<in> set (slice (auth_Capabilities a)) \<and> scope_grants (auth_Scope a) r \<and>
    \<not> Before (rq_time r) (NotBefore (auth_Validity a)) \<and> \<not> After (rq_time r) (NotAfter (auth_Validity a))"

interpretation scope_narrow: granting scopeSubset scope_grants
proof unfold_locales
  show "scopeSubset a c" if "scopeSubset a b" "scopeSubset b c" for a b c
    using that unfolding scopeSubset_def
    by (meson dim_narrow.narrows_trans window_narrow.narrows_trans quantity_narrow.narrows_trans
        monetary_narrow.narrows_trans)
  show "scope_grants p r" if "scopeSubset p c" "scope_grants c r" for p c r
    using that unfolding scopeSubset_def scope_grants_def
    by (meson dim_narrow.narrows_grants window_narrow.narrows_grants quantity_narrow.narrows_grants
        monetary_narrow.narrows_grants)
qed

definition subset_ok :: "Authority \<Rightarrow> Authority \<Rightarrow> bool" where
  "subset_ok p c \<longleftrightarrow> VerifySubset (Some c) (Some p) = Inr ()"

lemma subset_ok_iff:
  "subset_ok p c \<longleftrightarrow>
   set (slice (auth_Capabilities c)) \<subseteq> set (slice (auth_Capabilities p)) \<and>
   scopeSubset (auth_Scope p) (auth_Scope c) \<and> validitySubset (auth_Validity p) (auth_Validity c) \<and>
   delegationDepthOK (auth_DelegationConstraints p) (auth_DelegationConstraints c)"
  by (auto simp: subset_ok_def VerifySubset_def capabilitySubset_def list_all_iff split: if_splits)

lemma delegationDepthOK_trans:
  "delegationDepthOK a b \<Longrightarrow> delegationDepthOK b c \<Longrightarrow> delegationDepthOK a c"
  by (auto simp: delegationDepthOK_def split: option.splits)

interpretation chain: granting subset_ok authority_grants
proof unfold_locales
  show "subset_ok a c" if "subset_ok a b" "subset_ok b c" for a b c
    using that scope_narrow.narrows_trans delegationDepthOK_trans
    by (auto simp: subset_ok_iff validitySubset_def Before_def After_def)
  show "authority_grants p r" if "subset_ok p c" "authority_grants c r" for p c r
    using that scope_narrow.narrows_grants
    by (auto simp: subset_ok_iff authority_grants_def validitySubset_def Before_def After_def)
qed

section \<open>Properties\<close>

text \<open>
  C9: along a chain in which every hop passes \<^verbatim>\<open>VerifySubset\<close> against the next, each authority
  passes against every later one, and the root grants everything the leaf grants: no escalation
  accumulates.
\<close>

theorem delegation_chain_contains:
  assumes "\<And>k. Suc k < length xs \<Longrightarrow> VerifySubset (Some (xs ! k)) (Some (xs ! Suc k)) = Inr ()"
    and "i < j" and "j < length xs"
  shows "VerifySubset (Some (xs ! i)) (Some (xs ! j)) = Inr () \<and>
    (\<forall>r. authority_grants (xs ! i) r \<longrightarrow> authority_grants (xs ! j) r)"
proof -
  have "chain.linked xs" using assms(1) by (auto simp: chain.linked_def subset_ok_def)
  with assms(2,3) chain.linked_narrows [of xs i j] chain.linked_grants [of xs i j]
  show ?thesis by (auto simp: subset_ok_def)
qed

definition demo_limited :: "int option \<Rightarrow> Authority" where
  "demo_limited d = demo_authority\<lparr>auth_DelegationConstraints := \<lparr>MaxDepth = d\<rparr>\<rparr>"

lemma demo_limited_subset:
  "VerifySubset (Some (demo_limited c)) (Some (demo_limited p)) = Inr () \<longleftrightarrow>
   p = None \<or> (\<exists>m n. c = Some m \<and> p = Some n \<and> m < n)"
proof -
  have "scopeSubset (auth_Scope demo_authority) (auth_Scope demo_authority)"
    "validitySubset (auth_Validity demo_authority) (auth_Validity demo_authority)"
    by (simp_all add: demo_authority_def scopeSubset_def stringSliceSubset_def timeWindowSubset_def
        quantitySubset_def monetarySubset_def validitySubset_def Before_def After_def)
  then show ?thesis
    unfolding subset_ok_def [symmetric]
    by (auto simp: subset_ok_iff demo_limited_def delegationDepthOK_def split: option.splits)
qed

definition demo_request :: request where
  "demo_request = \<lparr>rq_capability = CapabilityAttest, rq_resource = [], rq_subject = [], rq_action = [],
    rq_organization = [], rq_geography = [], rq_channel = [], rq_time = zero_time,
    rq_quantity = ([], 0), rq_amount = ([], 0)\<rparr>"

theorem delegation_chain_contains_witness:
  "VerifySubset (Some (demo_limited (Some 0))) (Some (demo_limited None)) = Inr () \<and>
   authority_grants (demo_limited (Some 0)) demo_request \<and> authority_grants (demo_limited None) demo_request"
proof -
  let ?xs = "[demo_limited (Some 0), demo_limited (Some 1), demo_limited None]"
  have hops: "VerifySubset (Some (?xs ! k)) (Some (?xs ! Suc k)) = Inr ()" if "Suc k < length ?xs" for k
    using that by (auto simp: less_Suc_eq demo_limited_subset)
  have "authority_grants (demo_limited (Some 0)) demo_request"
    by (simp add: authority_grants_def demo_limited_def demo_authority_def demo_request_def scope_grants_def
        dim_grants_def window_grants_def quantity_grants_def monetary_grants_def Before_def After_def)
  with delegation_chain_contains [of ?xs 0 2, OF hops] show ?thesis by simp
qed

text \<open>
  what \<^verbatim>\<open>Derive\<close> returns: an active, unsigned child with the requested content that passes
  \<^verbatim>\<open>VerifySubset\<close> against the parent and refers to it by the hex of its canonical hash; and it
  returns a child whenever the request passes and the parent can be hashed.
\<close>

theorem Derive_exact:
  "Derive (Some p) spec = Inr child \<longleftrightarrow>
   VerifySubset (Some child) (Some p) = Inr () \<and>
   (\<exists>h. authority_CanonicalHash (Some p) = Inr h \<and>
      child = (child_of_spec spec)\<lparr>auth_Parent := Some (hex_EncodeToString h)\<rparr>)"
proof -
  have "VerifySubset (Some ((child_of_spec spec)\<lparr>auth_Parent := r\<rparr>)) (Some p) =
      VerifySubset (Some (child_of_spec spec)) (Some p)" for r
    by (simp add: VerifySubset_def)
  then show ?thesis by (auto simp: Derive_def Let_def sbind_Inr_conv split: sum.splits)
qed

lemma depth_decreases:
  assumes "\<And>k. Suc k < length xs \<Longrightarrow> subset_ok (xs ! Suc k) (xs ! k)" and "i + d < length xs"
    and "MaxDepth (auth_DelegationConstraints (xs ! (i + d))) = Some n"
  shows "\<exists>m. MaxDepth (auth_DelegationConstraints (xs ! i)) = Some m \<and> m + int d \<le> n"
  using assms(2,3)
proof (induction d arbitrary: n)
  case (Suc d)
  then have "subset_ok (xs ! Suc (i + d)) (xs ! (i + d))" using assms(1) by simp
  with Suc.prems obtain n' where "MaxDepth (auth_DelegationConstraints (xs ! (i + d))) = Some n'" "n' < n"
    by (auto simp: subset_ok_iff delegationDepthOK_def split: option.splits)
  with Suc.IH [of n'] Suc.prems show ?case by fastforce
qed simp

text \<open>
  Delegation depth. Along a chain that passes hop by hop, an authority \<open>k\<close> hops below one
  with \<^verbatim>\<open>MaxDepth\<close> \<open>n\<close> has a \<^verbatim>\<open>MaxDepth\<close> of at most \<open>n - k\<close>; so as long as the depths are not
  negative, at most \<open>n\<close> delegations fit below it.
\<close>

theorem delegation_depth_bound:
  assumes "\<And>k. Suc k < length xs \<Longrightarrow> VerifySubset (Some (xs ! k)) (Some (xs ! Suc k)) = Inr ()"
    and "i \<le> j" and "j < length xs"
    and "MaxDepth (auth_DelegationConstraints (xs ! j)) = Some n"
  shows "\<exists>m. MaxDepth (auth_DelegationConstraints (xs ! i)) = Some m \<and> m \<le> n - int (j - i)"
proof -
  obtain d where d: "j = i + d" using assms(2) le_Suc_ex by blast
  with depth_decreases [of xs i d n] assms show ?thesis by (fastforce simp: subset_ok_def)
qed

theorem delegation_depth_bound_witness:
  "\<exists>m. MaxDepth (auth_DelegationConstraints (demo_limited (Some 0))) = Some m \<and> m \<le> 1 - int (1 - 0)"
proof -
  let ?xs = "[demo_limited (Some 0), demo_limited (Some 1)]"
  have "VerifySubset (Some (?xs ! k)) (Some (?xs ! Suc k)) = Inr ()" if "Suc k < length ?xs" for k
    using that by (auto simp: demo_limited_subset)
  from delegation_depth_bound [of ?xs 0 1 1, OF this] show ?thesis by (simp add: demo_limited_def)
qed

lemma demo_limited_valid: "authority_Validate (Some (demo_limited d)) = Inr ()"
  by (simp add: authority_Validate_def ValidateCapabilities_def ValidateScope_def demo_limited_def
      demo_authority_def CapabilityAttest_def known_status_def StatusActive_def)

text \<open>
  C23: nothing keeps \<^verbatim>\<open>MaxDepth\<close> from going below zero: below an authority whose \<^verbatim>\<open>MaxDepth\<close> is
  zero, chains of every length that the range of \<^verbatim>\<open>int\<close> admits pass \<^verbatim>\<open>VerifySubset\<close> hop by hop,
  and every authority in them is structurally valid.
\<close>

theorem delegation_depth_unbounded_below_zero:
  assumes "n \<le> 2 ^ 63"
  shows "\<exists>xs. length xs = Suc n \<and> MaxDepth (auth_DelegationConstraints (last xs)) = Some 0 \<and>
     (\<forall>a \<in> set xs. authority_Validate (Some a) = Inr () \<and>
        (\<exists>d. MaxDepth (auth_DelegationConstraints a) = Some d \<and> - (2 ^ 63) \<le> d \<and> d \<le> 0)) \<and>
     (\<forall>k. Suc k < length xs \<longrightarrow> VerifySubset (Some (xs ! k)) (Some (xs ! Suc k)) = Inr ())"
proof -
  let ?xs = "map (\<lambda>k. demo_limited (Some (int k - int n))) [0..<Suc n]"
  have "int n \<le> 2 ^ 63" using assms by (metis of_nat_le_iff of_nat_numeral of_nat_power)
  moreover have "VerifySubset (Some (?xs ! k)) (Some (?xs ! Suc k)) = Inr ()" if "Suc k < length ?xs" for k
  proof -
    have "?xs ! k = demo_limited (Some (int k - int n))" "?xs ! Suc k = demo_limited (Some (int (Suc k) - int n))"
      using that by (simp_all del: upt_Suc)
    then show ?thesis by (simp add: demo_limited_subset)
  qed
  moreover have "last ?xs = demo_limited (Some 0)" by simp
  ultimately show ?thesis
    by (intro exI [of _ ?xs]) (auto simp: demo_limited_def demo_limited_valid [unfolded demo_limited_def] simp del: upt_Suc)
qed

theorem delegation_depth_unbounded_below_zero_witness:
  "\<exists>xs. length xs = Suc 1000 \<and> MaxDepth (auth_DelegationConstraints (last xs)) = Some 0 \<and>
     (\<forall>k. Suc k < length xs \<longrightarrow> VerifySubset (Some (xs ! k)) (Some (xs ! Suc k)) = Inr ())"
proof -
  have "(1000 :: nat) \<le> 2 ^ 63" by simp
  from delegation_depth_unbounded_below_zero [OF this] show ?thesis by blast
qed

end
