(* ===== verification/Claim.thy ===== *)
theory Claim
  imports Authority
begin

text \<open>
  Claims, \<^verbatim>\<open>src/claim\<close>: the typed statement an attestation carries, its structural validation and
  its canonical hash, which covers every field.
\<close>

record ClaimType =
  ct_Namespace :: string
  ct_Name :: string

record ClaimProvenance =
  cp_Source :: string
  cp_Method :: string
  cp_Timestamp :: gtime

record Claim =
  cl_Issuer :: string
  cl_Subject :: string
  cl_Type :: ClaimType
  cl_Value :: goany
  cl_Scope :: Scope
  cl_Validity :: Validity
  cl_Provenance :: ClaimProvenance

datatype claim_error =
    ErrNilClaim
  | ErrEmptyClaimIssuer
  | ErrEmptyClaimSubject
  | ErrEmptyClaimTypeNamespace
  | ErrEmptyClaimTypeName
  | ErrNilValue
  | ErrClaimScope authority_error
  | ErrClaimHash canonical_error

definition claim_Validate :: "Claim option \<Rightarrow> claim_error + unit" where
  "claim_Validate claim =
    (case claim of
       None \<Rightarrow> Inl ErrNilClaim
     | Some c \<Rightarrow>
        if cl_Issuer c = [] then Inl ErrEmptyClaimIssuer
        else if cl_Subject c = [] then Inl ErrEmptyClaimSubject
        else if ct_Namespace (cl_Type c) = [] then Inl ErrEmptyClaimTypeNamespace
        else if ct_Name (cl_Type c) = [] then Inl ErrEmptyClaimTypeName
        else if cl_Value c = AnyNil then Inl ErrNilValue
        else (case ValidateScope (cl_Scope c) of Inl e \<Rightarrow> Inl (ErrClaimScope e) | Inr _ \<Rightarrow> Inr ()))"

definition claimtype_json :: "ClaimType \<Rightarrow> json option" where
  "claimtype_json t = json_struct
    [(''namespace'', mem_json (Some (json_string (ct_Namespace t)))),
     (''name'', mem_json (Some (json_string (ct_Name t))))]"

definition claimprovenance_json :: "ClaimProvenance \<Rightarrow> json option" where
  "claimprovenance_json p = json_struct
    [(''source'', mem_json (Some (json_string (cp_Source p)))),
     (''method'', mem_json (Some (json_string (cp_Method p)))),
     (''timestamp'', mem_json (json_time (cp_Timestamp p)))]"

definition claim_json :: "Claim \<Rightarrow> json option" where
  "claim_json c = json_struct
    [(''issuer'', mem_json (Some (json_string (cl_Issuer c)))),
     (''subject'', mem_json (Some (json_string (cl_Subject c)))),
     (''type'', mem_json (claimtype_json (cl_Type c))),
     (''value'', mem_json (goany_json (cl_Value c))),
     (''scope'', mem_json (scope_json (cl_Scope c))),
     (''validity'', mem_json (validity_json (cl_Validity c))),
     (''provenance'', mem_json (claimprovenance_json (cl_Provenance c)))]"

definition claim_CanonicalEncoding :: "Claim \<Rightarrow> Encoding" where
  "claim_CanonicalEncoding c = EncodingJSON"

definition claim_CanonicalHash :: "Claim option \<Rightarrow> claim_error + digest" where
  "claim_CanonicalHash claim =
    (case claim of
       None \<Rightarrow> Inl ErrNilClaim
     | Some c \<Rightarrow>
        (case canonical_CanonicalHash (Some (claim_CanonicalEncoding c)) (claim_json c) None of
           Inl e \<Rightarrow> Inl (ErrClaimHash e)
         | Inr h \<Rightarrow> Inr h))"

lemma claim_Validate_Inr:
  "claim_Validate (Some c) = Inr () \<longleftrightarrow>
   cl_Issuer c \<noteq> [] \<and> cl_Subject c \<noteq> [] \<and> ct_Namespace (cl_Type c) \<noteq> [] \<and> ct_Name (cl_Type c) \<noteq> [] \<and>
   cl_Value c \<noteq> AnyNil \<and> ValidateScope (cl_Scope c) = Inr ()"
  by (auto simp: claim_Validate_def split: sum.splits)

end
