(* ===== verification/Evidence.thy ===== *)
theory Evidence
  imports Authority
begin

text \<open>
  Evidence, \<^verbatim>\<open>src/evidence\<close>: a content-addressed reference to material, its structural validation
  and its canonical hash, which covers every field.
\<close>

definition ContentHashLen :: nat where
  "ContentHashLen = 32"

record EvidenceProvenance =
  ep_Source :: string
  ep_Method :: string
  ep_Timestamp :: gtime

record Evidence =
  ev_Identifier :: string
  ev_ContentHash :: "bytes option"
  ev_MediaType :: string
  ev_Locator :: string
  ev_Provenance :: EvidenceProvenance
  ev_Metadata :: "(string \<times> goany) list"

datatype evidence_error =
    ErrNilEvidence
  | ErrEmptyIdentifier
  | ErrNilContentHash
  | ErrEmptyContentHash
  | ErrContentHashLength
  | ErrEmptyMediaType
  | ErrEmptyLocator
  | ErrEvidenceHash canonical_error

definition ValidateEvidence :: "Evidence option \<Rightarrow> evidence_error + unit" where
  "ValidateEvidence evidence =
    (case evidence of
       None \<Rightarrow> Inl ErrNilEvidence
     | Some ev \<Rightarrow>
        if ev_Identifier ev = [] then Inl ErrEmptyIdentifier
        else (case ev_ContentHash ev of
            None \<Rightarrow> Inl ErrNilContentHash
          | Some ch \<Rightarrow>
            if length ch = 0 then Inl ErrEmptyContentHash
            else if length ch \<noteq> ContentHashLen then Inl ErrContentHashLength
            else if ev_MediaType ev = [] then Inl ErrEmptyMediaType
            else if ev_Locator ev = [] then Inl ErrEmptyLocator
            else Inr ()))"

definition evidenceprovenance_json :: "EvidenceProvenance \<Rightarrow> json option" where
  "evidenceprovenance_json p = json_struct
    [(''source'', mem_json (Some (json_string (ep_Source p)))),
     (''method'', mem_json (Some (json_string (ep_Method p)))),
     (''timestamp'', mem_json (json_time (ep_Timestamp p)))]"

text \<open>Metadata marshals with \<^verbatim>\<open>omitempty\<close>.\<close>

definition mem_metadata :: "(string \<times> goany) list \<Rightarrow> json option option" where
  "mem_metadata kvs = (if kvs = [] then Some None else map_option Some (goany_json (AnyMap kvs)))"

definition evidence_json :: "Evidence \<Rightarrow> json option" where
  "evidence_json e = json_struct
    [(''identifier'', mem_json (Some (json_string (ev_Identifier e)))),
     (''contentHash'', mem_json (Some (json_bytes (ev_ContentHash e)))),
     (''mediaType'', mem_json (Some (json_string (ev_MediaType e)))),
     (''locator'', mem_json (Some (json_string (ev_Locator e)))),
     (''provenance'', mem_json (evidenceprovenance_json (ev_Provenance e))),
     (''metadata'', mem_metadata (ev_Metadata e))]"

definition evidence_CanonicalEncoding :: "Evidence \<Rightarrow> Encoding" where
  "evidence_CanonicalEncoding e = EncodingJSON"

definition evidence_CanonicalHash :: "Evidence option \<Rightarrow> evidence_error + digest" where
  "evidence_CanonicalHash evidence =
    (case evidence of
       None \<Rightarrow> Inl ErrNilEvidence
     | Some ev \<Rightarrow>
        (case canonical_CanonicalHash (Some (evidence_CanonicalEncoding ev)) (evidence_json ev) None of
           Inl e \<Rightarrow> Inl (ErrEvidenceHash e)
         | Inr h \<Rightarrow> Inr h))"

lemma ValidateEvidence_Inr:
  "ValidateEvidence (Some ev) = Inr () \<longleftrightarrow>
   ev_Identifier ev \<noteq> [] \<and> (\<exists>ch. ev_ContentHash ev = Some ch \<and> length ch = ContentHashLen) \<and>
   ev_MediaType ev \<noteq> [] \<and> ev_Locator ev \<noteq> []"
  by (auto simp: ValidateEvidence_def ContentHashLen_def split: option.splits)

end
