(* ===== verification/Attestation.thy ===== *)
theory Attestation
  imports Claim Evidence
begin

text \<open>
  Attestations, \<^verbatim>\<open>src/attestation\<close> without the EAT encoding: validation, the canonical hash of the
  unsigned form, signing, signature verification and the single-hop authorization check. The clock
  that \<^verbatim>\<open>VerifyAuthorization\<close> reads is an argument.
\<close>

record Attestation =
  att_Issuer :: string
  att_SigningKeyID :: string
  att_SigningKeyVersion :: u64
  att_AuthorityRef :: string
  att_Capability :: Capability
  att_Claim :: Claim
  att_Evidence :: "Evidence list option"
  att_IssuedAt :: gtime
  att_Validity :: Validity
  att_Status :: Status
  att_Algorithm :: Algorithm
  att_Signature :: "bytes option"

datatype attestation_error =
    ErrNilAttestation
  | ErrEmptyIssuer
  | ErrEmptySigningKeyID
  | ErrEmptyAuthorityRef
  | ErrEmptyAttCapabilityNamespace
  | ErrEmptyAttCapabilityName
  | ErrInvalidClaim claim_error
  | ErrInvalidEvidence nat evidence_error
  | ErrUnknownAttStatus
  | ErrZeroIssuedAt
  | ErrEmptyValidity
  | ErrUnsortedEvidence nat
  | ErrTamperedAttestation
  | ErrWrongAttKey
  | ErrMissingAuthorityRef
  | ErrAuthorityMismatch
  | ErrSubjectMismatch
  | ErrCapabilityNotGranted
  | ErrAuthorityNotActive
  | ErrAttestationNotActive
  | ErrAttestationNotCurrent
  | ErrAuthorizationScope
  | ErrAuthorizationValidity
  | ErrAttNilSigner
  | ErrAttSign sig_error
  | ErrAttHash canonical_error
  | ErrAttAuthority authority_error

section \<open>Validation\<close>

fun evidence_hashes :: "nat \<Rightarrow> Evidence list \<Rightarrow> attestation_error + digest list" where
  "evidence_hashes i [] = Inr []"
| "evidence_hashes i (e # es) =
    (case ValidateEvidence (Some e) of
       Inl err \<Rightarrow> Inl (ErrInvalidEvidence i err)
     | Inr _ \<Rightarrow>
       (case evidence_CanonicalHash (Some e) of
          Inl err \<Rightarrow> Inl (ErrInvalidEvidence i err)
        | Inr h \<Rightarrow> sbind (evidence_hashes (Suc i) es) (\<lambda>hs. Inr (h # hs))))"

fun hashes_sorted :: "nat \<Rightarrow> digest list \<Rightarrow> attestation_error + unit" where
  "hashes_sorted i (a # b # hs) =
    (if a \<ge> b then Inl (ErrUnsortedEvidence i) else hashes_sorted (Suc i) (b # hs))"
| "hashes_sorted i _ = Inr ()"

definition attestation_Validate :: "Attestation option \<Rightarrow> attestation_error + unit" where
  "attestation_Validate att =
    (case att of
       None \<Rightarrow> Inl ErrNilAttestation
     | Some a \<Rightarrow>
        if att_Issuer a = [] then Inl ErrEmptyIssuer
        else if att_SigningKeyID a = [] then Inl ErrEmptySigningKeyID
        else if att_AuthorityRef a = [] then Inl ErrEmptyAuthorityRef
        else if cap_Namespace (att_Capability a) = [] then Inl ErrEmptyAttCapabilityNamespace
        else if cap_Name (att_Capability a) = [] then Inl ErrEmptyAttCapabilityName
        else (case claim_Validate (Some (att_Claim a)) of
            Inl e \<Rightarrow> Inl (ErrInvalidClaim e)
          | Inr _ \<Rightarrow>
            sbind (evidence_hashes 0 (slice (att_Evidence a))) (\<lambda>hashes.
              if \<not> known_status (att_Status a) then Inl ErrUnknownAttStatus
              else if IsZero (att_IssuedAt a) then Inl ErrZeroIssuedAt
              else if IsZero (NotBefore (att_Validity a)) \<and> IsZero (NotAfter (att_Validity a))
              then Inl ErrEmptyValidity
              else hashes_sorted 1 hashes)))"

section \<open>The canonical form and signatures\<close>

definition attestation_json :: "Attestation \<Rightarrow> json option" where
  "attestation_json a = json_struct
    [(''issuer'', mem_json (Some (json_string (att_Issuer a)))),
     (''signingKeyId'', mem_json (Some (json_string (att_SigningKeyID a)))),
     (''signingKeyVersion'', mem_json (Some (json_int (uint (att_SigningKeyVersion a))))),
     (''authorityRef'', mem_json (Some (json_string (att_AuthorityRef a)))),
     (''capability'', mem_json (capability_json (att_Capability a))),
     (''claim'', mem_json (claim_json (att_Claim a))),
     (''evidence'', mem_json (slice_json evidence_json (att_Evidence a))),
     (''issuedAt'', mem_json (json_time (att_IssuedAt a))),
     (''validity'', mem_json (validity_json (att_Validity a))),
     (''status'', mem_json (Some (json_int (att_Status a)))),
     (''algorithm'', mem_json (Some (json_int (att_Algorithm a)))),
     (''signature'', mem_signature (att_Signature a))]"

definition attestation_CanonicalEncoding :: "Attestation \<Rightarrow> Encoding" where
  "attestation_CanonicalEncoding a = EncodingJSON"

definition attestation_CanonicalHash :: "Attestation option \<Rightarrow> attestation_error + digest" where
  "attestation_CanonicalHash att =
    (case att of
       None \<Rightarrow> Inl ErrNilAttestation
     | Some a \<Rightarrow>
        (let wire = a\<lparr>att_Signature := None\<rparr>
         in case canonical_CanonicalHash (Some (attestation_CanonicalEncoding wire)) (attestation_json wire) None of
              Inl e \<Rightarrow> Inl (ErrAttHash e)
            | Inr h \<Rightarrow> Inr h))"

text \<open>The attestation as the call leaves it, also when it fails.\<close>

definition SignAttestation ::
    "Attestation option \<Rightarrow> Signer option \<Rightarrow> bool \<Rightarrow> string \<Rightarrow>
     Attestation option \<times> (attestation_error + unit)" where
  "SignAttestation att signer cancelled keyID =
    (case att of
       None \<Rightarrow> (None, Inl ErrNilAttestation)
     | Some a \<Rightarrow>
       (case signer of
          None \<Rightarrow> (att, Inl ErrAttNilSigner)
        | Some sg \<Rightarrow>
          (case PublicKey_of sg cancelled of
             Inl e \<Rightarrow> (att, Inl (ErrAttSign e))
           | Inr pub \<Rightarrow>
             (case AlgorithmForPublicKey pub of
                Inl e \<Rightarrow> (att, Inl (ErrAttSign e))
              | Inr alg \<Rightarrow>
                (let a1 = (if keyID \<noteq> [] then a\<lparr>att_SigningKeyID := keyID\<rparr> else a);
                     a2 = a1\<lparr>att_Algorithm := alg, att_Signature := None\<rparr>
                 in case attestation_CanonicalHash (Some a2) of
                      Inl e \<Rightarrow> (Some a2, Inl e)
                    | Inr h \<Rightarrow>
                      (case Sign_with sg cancelled h of
                         Inl e \<Rightarrow> (Some a2, Inl (ErrAttSign e))
                       | Inr sig \<Rightarrow> (Some (a2\<lparr>att_Signature := Some sig\<rparr>), Inr ())))))))"

definition VerifySignature :: "clib \<Rightarrow> Attestation option \<Rightarrow> PublicKey \<Rightarrow> attestation_error + unit" where
  "VerifySignature lib att leafPub =
    (case att of
       None \<Rightarrow> Inl ErrNilAttestation
     | Some a \<Rightarrow>
       (case AlgorithmForPublicKey leafPub of
          Inl _ \<Rightarrow> Inl ErrWrongAttKey
        | Inr alg \<Rightarrow>
          if alg \<noteq> att_Algorithm a then Inl ErrWrongAttKey
          else sbind (attestation_CanonicalHash att) (\<lambda>h.
            case sig_Verify lib (att_Algorithm a) leafPub (slice (att_Signature a)) h of
              Inl _ \<Rightarrow> Inl ErrTamperedAttestation
            | Inr ok \<Rightarrow> if ok then Inr () else Inl ErrTamperedAttestation)))"

section \<open>Authorization\<close>

definition capabilityGranted :: "Capability list option \<Rightarrow> Capability \<Rightarrow> bool" where
  "capabilityGranted caps c \<longleftrightarrow> list_ex (\<lambda>granted. granted = c) (slice caps)"

definition attestation_stringSliceSubset :: "string list \<Rightarrow> string list \<Rightarrow> bool" where
  "attestation_stringSliceSubset sub super =
    (if length sub > length super then False
     else list_all (\<lambda>s. list_ex (\<lambda>v. v = s) super) sub)"

definition attestation_scopeSubset :: "Scope \<Rightarrow> Scope \<Rightarrow> bool" where
  "attestation_scopeSubset sub super =
    (if \<not> attestation_stringSliceSubset (Resources sub) (Resources super) \<or>
        \<not> attestation_stringSliceSubset (Subjects sub) (Subjects super) \<or>
        \<not> attestation_stringSliceSubset (Actions sub) (Actions super) \<or>
        \<not> attestation_stringSliceSubset (Organizations sub) (Organizations super) \<or>
        \<not> attestation_stringSliceSubset (Geography sub) (Geography super) \<or>
        \<not> attestation_stringSliceSubset (Channels sub) (Channels super)
     then False
     else if (case sc_TimeWindow super of
                None \<Rightarrow> False
              | Some w \<Rightarrow> (case sc_TimeWindow sub of
                  None \<Rightarrow> True
                | Some v \<Rightarrow> Before (tw_Start v) (tw_Start w) \<or> After (tw_End v) (tw_End w)))
     then False
     else if (case sc_Quantity super of
                None \<Rightarrow> False
              | Some w \<Rightarrow> (case sc_Quantity sub of
                  None \<Rightarrow> True
                | Some v \<Rightarrow> q_Unit v \<noteq> q_Unit w \<or> q_Limit v > q_Limit w))
     then False
     else if (case sc_Monetary super of
                None \<Rightarrow> False
              | Some w \<Rightarrow> (case sc_Monetary sub of
                  None \<Rightarrow> True
                | Some v \<Rightarrow> m_Currency v \<noteq> m_Currency w \<or> f64_gt (m_Limit v) (m_Limit w)))
     then False
     else True)"

definition attestation_validitySubset :: "Validity \<Rightarrow> Validity \<Rightarrow> bool" where
  "attestation_validitySubset sub super \<longleftrightarrow>
    \<not> Before (NotBefore sub) (NotBefore super) \<and> \<not> After (NotAfter sub) (NotAfter super)"

definition validityContains :: "Validity \<Rightarrow> gtime \<Rightarrow> bool" where
  "validityContains v now \<longleftrightarrow> \<not> Before now (NotBefore v) \<and> \<not> After now (NotAfter v)"

definition VerifyAuthorization :: "gtime \<Rightarrow> Attestation option \<Rightarrow> Authority option \<Rightarrow> attestation_error + unit" where
  "VerifyAuthorization now att auth =
    (case att of
       None \<Rightarrow> Inl ErrNilAttestation
     | Some a \<Rightarrow>
       (case auth of
          None \<Rightarrow> Inl (ErrAttAuthority ErrNilAuthority)
        | Some g \<Rightarrow>
          if att_AuthorityRef a = [] then Inl ErrMissingAuthorityRef
          else (case authority_CanonicalHash auth of
              Inl e \<Rightarrow> Inl (ErrAttAuthority e)
            | Inr h \<Rightarrow>
              if hex_EncodeToString h \<noteq> att_AuthorityRef a then Inl ErrAuthorityMismatch
              else if att_Issuer a \<noteq> auth_Subject g then Inl ErrSubjectMismatch
              else if \<not> capabilityGranted (auth_Capabilities g) (att_Capability a) then Inl ErrCapabilityNotGranted
              else if auth_Status g \<noteq> StatusActive then Inl ErrAuthorityNotActive
              else if att_Status a \<noteq> StatusActive then Inl ErrAttestationNotActive
              else if \<not> validityContains (att_Validity a) now then Inl ErrAttestationNotCurrent
              else if \<not> attestation_scopeSubset (cl_Scope (att_Claim a)) (auth_Scope g) then Inl ErrAuthorizationScope
              else if \<not> attestation_validitySubset (cl_Validity (att_Claim a)) (auth_Validity g) \<or>
                      \<not> attestation_validitySubset (att_Validity a) (auth_Validity g)
              then Inl ErrAuthorizationValidity
              else Inr ())))"

definition VerifyAttestation ::
    "clib \<Rightarrow> gtime \<Rightarrow> Attestation option \<Rightarrow> PublicKey \<Rightarrow> Authority option \<Rightarrow> attestation_error + unit" where
  "VerifyAttestation lib now att leafPub auth =
    sbind (VerifySignature lib att leafPub) (\<lambda>_. VerifyAuthorization now att auth)"

section \<open>Exact characterisations\<close>

lemma evidence_hashes_Inr:
  "evidence_hashes i es = Inr hs \<longleftrightarrow>
   list_all2 (\<lambda>e h. ValidateEvidence (Some e) = Inr () \<and> evidence_CanonicalHash (Some e) = Inr h) es hs"
proof (induction es arbitrary: i hs)
  case (Cons e es)
  then show ?case
    by (cases hs) (auto simp: sbind_Inr_conv split: sum.splits)
qed auto

lemma hashes_sorted_Inr: "hashes_sorted i hs = Inr () \<longleftrightarrow> sorted_wrt (<) hs"
  by (induction i hs rule: hashes_sorted.induct) (auto simp: not_le dest: less_trans)

lemma attestation_hash_ignores_signature:
  "attestation_CanonicalHash (Some (a\<lparr>att_Signature := sig\<rparr>)) = attestation_CanonicalHash (Some a)"
  by (simp add: attestation_CanonicalHash_def)

lemma VerifySignature_Inr:
  "VerifySignature lib (Some a) pub = Inr () \<longleftrightarrow>
   AlgorithmForPublicKey pub = Inr (att_Algorithm a) \<and>
   (\<exists>h. attestation_CanonicalHash (Some a) = Inr h \<and> key_verify lib pub (slice (att_Signature a)) h)"
proof (cases "AlgorithmForPublicKey pub = Inr (att_Algorithm a)")
  case True
  then have "sig_Verify lib (att_Algorithm a) pub sig h = Inr (key_verify lib pub sig h)" for sig h
    using sig_Verify_Inr by blast
  with True show ?thesis by (auto simp: VerifySignature_def sbind_Inr_conv)
qed (auto simp: VerifySignature_def split: sum.splits)

interpretation att_signed: signed_object lib "\<lambda>a. attestation_CanonicalHash (Some a)" att_Algorithm
    "\<lambda>a. slice (att_Signature a)" "\<lambda>a pub. VerifySignature lib (Some a) pub = Inr ()" for lib
  by unfold_locales (rule VerifySignature_Inr)

lemma VerifyAuthorization_Inr:
  "VerifyAuthorization now (Some a) (Some g) = Inr () \<longleftrightarrow>
   att_AuthorityRef a \<noteq> [] \<and>
   (\<exists>h. authority_CanonicalHash (Some g) = Inr h \<and> att_AuthorityRef a = hex_EncodeToString h) \<and>
   att_Issuer a = auth_Subject g \<and> att_Capability a \<in> set (slice (auth_Capabilities g)) \<and>
   auth_Status g = StatusActive \<and> att_Status a = StatusActive \<and> validityContains (att_Validity a) now \<and>
   attestation_scopeSubset (cl_Scope (att_Claim a)) (auth_Scope g) \<and>
   attestation_validitySubset (cl_Validity (att_Claim a)) (auth_Validity g) \<and>
   attestation_validitySubset (att_Validity a) (auth_Validity g)"
  by (auto simp: VerifyAuthorization_def capabilityGranted_def list_ex_iff split: sum.splits)

section \<open>Properties\<close>

text \<open>
  \<^verbatim>\<open>Validate\<close> accepts exactly the attestations that name an issuer, a key, an authority and a
  capability, carry a valid claim, a known status and an issue time and validity that are set, and
  whose pieces of evidence are each valid and strictly sorted by canonical hash.
\<close>

theorem attestation_Validate_exact:
  "attestation_Validate (Some a) = Inr () \<longleftrightarrow>
   att_Issuer a \<noteq> [] \<and> att_SigningKeyID a \<noteq> [] \<and> att_AuthorityRef a \<noteq> [] \<and>
   cap_Namespace (att_Capability a) \<noteq> [] \<and> cap_Name (att_Capability a) \<noteq> [] \<and>
   claim_Validate (Some (att_Claim a)) = Inr () \<and>
   att_Status a \<in> {StatusActive, StatusRevoked, StatusSuperseded, StatusExpired} \<and>
   instant (att_IssuedAt a) \<noteq> 0 \<and>
   \<not> (instant (NotBefore (att_Validity a)) = 0 \<and> instant (NotAfter (att_Validity a)) = 0) \<and>
   (\<exists>hs. sorted_wrt (<) hs \<and>
     list_all2 (\<lambda>e h. ValidateEvidence (Some e) = Inr () \<and> evidence_CanonicalHash (Some e) = Inr h)
       (slice (att_Evidence a)) hs)"
  by (auto simp: attestation_Validate_def sbind_Inr_conv evidence_hashes_Inr hashes_sorted_Inr
      known_status_def IsZero_def split: sum.splits if_splits)


text \<open>
  an attestation signed with a local signer passes \<^verbatim>\<open>VerifySignature\<close> under the signer's public
  key, and signing changes nothing of it but the key id, the algorithm and the signature.
\<close>

theorem SignAttestation_verifies:
  assumes "signs_correctly lib key" and "NewLocalSigner lib key = Inr s"
    and "SignAttestation (Some a) (Some (local_signer lib s)) cancelled keyID = (Some a', Inr ())"
  shows "VerifySignature lib (Some a') (ls_pub s) = Inr () \<and>
    (\<exists>alg sig. a' = a\<lparr>att_SigningKeyID := (if keyID = [] then att_SigningKeyID a else keyID),
      att_Algorithm := alg, att_Signature := Some sig\<rparr>)"
proof -
  let ?a = "\<lambda>alg sig. a\<lparr>att_SigningKeyID := (if keyID = [] then att_SigningKeyID a else keyID),
      att_Algorithm := alg, att_Signature := sig\<rparr>"
  obtain h sig alg where
    alg: "AlgorithmForPublicKey (ls_pub s) = Inr alg" and
    h: "attestation_CanonicalHash (Some (?a alg None)) = Inr h" and
    sig: "LocalSigner_Sign lib s cancelled h = Inr sig" and
    a': "a' = ?a alg (Some sig)"
    using assms(3)
    by (auto simp: SignAttestation_def local_signer_def LocalSigner_PublicKey_def Let_def
        split: sum.splits if_splits)
  have "attestation_CanonicalHash (Some a') = Inr h"
    using h attestation_hash_ignores_signature [where a = a' and sig = None] by (simp add: a')
  with alg have "VerifySignature lib (Some a') (ls_pub s) = Inr ()"
    by (intro att_signed.signed_verifies [OF assms(1,2) sig]) (simp_all add: a')
  with a' show ?thesis by blast
qed

definition demo_scope :: Scope where
  "demo_scope = auth_Scope demo_authority"

definition demo_attestation :: Attestation where
  "demo_attestation = \<lparr>
    att_Issuer = ''did:example:a'', att_SigningKeyID = ''k'', att_SigningKeyVersion = 1,
    att_AuthorityRef = ''00'', att_Capability = CapabilityAttest,
    att_Claim = \<lparr>cl_Issuer = ''did:example:a'', cl_Subject = ''did:example:b'',
      cl_Type = \<lparr>ct_Namespace = ''acme'', ct_Name = ''role''\<rparr>, cl_Value = AnyString ''admin'',
      cl_Scope = demo_scope, cl_Validity = \<lparr>NotBefore = zero_time, NotAfter = zero_time\<rparr>,
      cl_Provenance = \<lparr>cp_Source = ''s'', cp_Method = ''m'', cp_Timestamp = zero_time\<rparr>\<rparr>,
    att_Evidence = Some [], att_IssuedAt = zero_time,
    att_Validity = \<lparr>NotBefore = zero_time, NotAfter = zero_time\<rparr>, att_Status = 1,
    att_Algorithm = 2, att_Signature = None\<rparr>"

lemma demo_attestation_hash: "\<exists>h. attestation_CanonicalHash (Some demo_attestation) = Inr h"
proof -
  have "\<exists>j. attestation_json demo_attestation = Some j \<and> json_depth j \<le> 10000 \<and> numbers_ok j"
    by (simp add: demo_attestation_def demo_scope_def demo_authority_def attestation_json_def claim_json_def
        claimtype_json_def claimprovenance_json_def struct_json_eval)
  then have "\<exists>h. canonical_CanonicalHash (Some EncodingJSON) (attestation_json demo_attestation) None = Inr h"
    unfolding canonical_CanonicalHash_JSON .
  moreover have "demo_attestation\<lparr>att_Signature := None\<rparr> = demo_attestation" by (simp add: demo_attestation_def)
  ultimately show ?thesis by (auto simp: attestation_CanonicalHash_def attestation_CanonicalEncoding_def)
qed

theorem SignAttestation_verifies_witness:
  "\<exists>s a'. NewLocalSigner demo_lib (PrivSecp256k1 5) = Inr s \<and>
     SignAttestation (Some demo_attestation) (Some (local_signer demo_lib s)) False ''k'' = (Some a', Inr ()) \<and>
     VerifySignature demo_lib (Some a') (ls_pub s) = Inr ()"
proof -
  let ?s = "\<lparr>ls_key = PrivSecp256k1 5, ls_pub = PubSecp256k1 (5, 5), ls_alg = 2\<rparr>"
  obtain h where h: "attestation_CanonicalHash (Some demo_attestation) = Inr h"
    using demo_attestation_hash by blast
  have c: "signs_correctly demo_lib (PrivSecp256k1 5)"
    by (simp add: signs_correctly_def demo_lib_def secp256k1_N_def)
  have n: "NewLocalSigner demo_lib (PrivSecp256k1 5) = Inr ?s"
    by (simp add: NewLocalSigner_def key_algorithms publicKeyForPrivateKey_def secp256k1_Public_def demo_lib_def)
  have "LocalSigner_Sign demo_lib ?s False h = Inr (be_bytes 32 1 @ be_bytes 32 1)"
    by (simp add: LocalSigner_Sign_def sig_Sign_def sign_ES256K_def lift_key_def secp256k1_Sign_def demo_lib_def)
  moreover have "demo_attestation\<lparr>att_SigningKeyID := ''k'', att_Algorithm := 2, att_Signature := None\<rparr> = demo_attestation"
    by (simp add: demo_attestation_def)
  ultimately have "\<exists>a'. SignAttestation (Some demo_attestation) (Some (local_signer demo_lib ?s)) False ''k'' = (Some a', Inr ())"
    by (simp add: SignAttestation_def local_signer_def LocalSigner_PublicKey_def key_algorithms h)
  then obtain a' where g: "SignAttestation (Some demo_attestation) (Some (local_signer demo_lib ?s)) False ''k'' = (Some a', Inr ())"
    by blast
  from SignAttestation_verifies [OF c n g] n g show ?thesis by blast
qed

text \<open>Emptying the string dimensions of a scope, which leaves them unconstrained.\<close>

definition unconstrained_dims :: "Scope \<Rightarrow> Scope" where
  "unconstrained_dims s = s\<lparr>Resources := [], Subjects := [], Actions := [], Organizations := [],
    Geography := [], Channels := []\<rparr>"

lemma attestation_scopeSubset_unconstrained:
  "attestation_scopeSubset sub super \<Longrightarrow> attestation_scopeSubset (unconstrained_dims sub) super"
proof -
  have "sc_TimeWindow (unconstrained_dims sub) = sc_TimeWindow sub"
    "sc_Quantity (unconstrained_dims sub) = sc_Quantity sub" "sc_Monetary (unconstrained_dims sub) = sc_Monetary sub"
    and "Resources (unconstrained_dims sub) = []" "Subjects (unconstrained_dims sub) = []"
    "Actions (unconstrained_dims sub) = []" "Organizations (unconstrained_dims sub) = []"
    "Geography (unconstrained_dims sub) = []" "Channels (unconstrained_dims sub) = []"
    by (simp_all add: unconstrained_dims_def)
  note dims = this
  have "attestation_stringSliceSubset [] d" for d by (simp add: attestation_stringSliceSubset_def)
  moreover assume "attestation_scopeSubset sub super"
  ultimately show ?thesis unfolding attestation_scopeSubset_def dims by (simp split: if_splits)
qed

text \<open>
  the scope test lets a claim drop every string dimension: an attestation that is authorized
  stays so when its claim leaves resources, subjects, actions, organizations, geography and channels
  unconstrained, however constrained the authority is.
\<close>

theorem VerifyAuthorization_unconstrained_claim:
  assumes "VerifyAuthorization now (Some a) auth = Inr ()"
  shows "VerifyAuthorization now
    (Some (a\<lparr>att_Claim := (att_Claim a)\<lparr>cl_Scope := unconstrained_dims (cl_Scope (att_Claim a))\<rparr>\<rparr>)) auth = Inr ()"
proof (cases auth)
  case (Some g)
  with assms show ?thesis by (auto simp: VerifyAuthorization_Inr attestation_scopeSubset_unconstrained)
qed (use assms in \<open>simp add: VerifyAuthorization_def\<close>)

text \<open>An authority over one resource only, and an attestation about that resource.\<close>

definition demo_door_authority :: Authority where
  "demo_door_authority = demo_authority\<lparr>auth_Scope := demo_scope\<lparr>Resources := [''door'']\<rparr>\<rparr>"

definition demo_door_attestation :: "string \<Rightarrow> Attestation" where
  "demo_door_attestation ref = demo_attestation\<lparr>att_AuthorityRef := ref,
    att_Claim := (att_Claim demo_attestation)\<lparr>cl_Scope := demo_scope\<lparr>Resources := [''door'']\<rparr>\<rparr>\<rparr>"

lemma demo_door_hash: "\<exists>h. authority_CanonicalHash (Some demo_door_authority) = Inr h \<and> h \<noteq> []"
proof -
  have "\<exists>j. authority_json demo_door_authority = Some j \<and> json_depth j \<le> 10000 \<and> numbers_ok j"
    by (simp add: demo_door_authority_def demo_scope_def demo_authority_def struct_json_eval)
  then obtain h where h: "canonical_CanonicalHash (Some EncodingJSON) (authority_json demo_door_authority) None = Inr h"
    using canonical_CanonicalHash_JSON by blast
  moreover have "unsigned_authority demo_door_authority = demo_door_authority"
    by (simp add: unsigned_authority_def demo_door_authority_def demo_authority_def)
  moreover have "h \<noteq> []" using canonical_CanonicalHash_length [OF h] by auto
  ultimately show ?thesis by (simp add: authority_CanonicalHash_def authority_CanonicalEncoding_def)
qed

theorem VerifyAuthorization_unconstrained_claim_witness:
  "\<exists>a. VerifyAuthorization zero_time (Some a) (Some demo_door_authority) = Inr () \<and>
     Resources (auth_Scope demo_door_authority) = [''door''] \<and>
     VerifyAuthorization zero_time
       (Some (a\<lparr>att_Claim := (att_Claim a)\<lparr>cl_Scope := unconstrained_dims (cl_Scope (att_Claim a))\<rparr>\<rparr>))
       (Some demo_door_authority) = Inr ()"
proof -
  obtain h where h: "authority_CanonicalHash (Some demo_door_authority) = Inr h" "h \<noteq> []"
    using demo_door_hash by blast
  have "length (hex_EncodeToString h) \<noteq> 0" using h(2) by simp
  then have "hex_EncodeToString h \<noteq> []" by blast
  then have ok: "VerifyAuthorization zero_time (Some (demo_door_attestation (hex_EncodeToString h)))
      (Some demo_door_authority) = Inr ()"
    unfolding VerifyAuthorization_Inr using h(1)
    by (simp add: demo_door_authority_def demo_door_attestation_def demo_attestation_def demo_scope_def
        demo_authority_def StatusActive_def validityContains_def attestation_validitySubset_def
        attestation_scopeSubset_def attestation_stringSliceSubset_def Before_def After_def)
  have "Resources (auth_Scope demo_door_authority) = [''door'']" by (simp add: demo_door_authority_def)
  with ok VerifyAuthorization_unconstrained_claim [OF ok] show ?thesis by blast
qed

end
