(* ===== verification/Commitment.thy ===== *)
theory Commitment
  imports Attestation Merkle_Consistency "HOL-Library.Multiset"
begin

text \<open>
  Commitments, \<^verbatim>\<open>src/commitment\<close>: Merkle commitments over the canonical hashes of trust objects,
  their verification, inclusion and consistency proofs, and the hex form in which they are
  serialised. The tree is used through \<open>position_binding\<close>.
\<close>

section \<open>Trust objects\<close>

datatype commitment_error =
    ErrEmptyObjects
  | ErrNilObject
  | ErrDuplicateObject
  | ErrObjectNotCommitted
  | ErrNilCommitment
  | ErrAlgorithmMismatch
  | ErrEmptyCommitment
  | ErrSizeMismatch
  | ErrUnsortedLeaves
  | ErrDuplicateLeaf
  | ErrRootMismatch
  | ErrInclusionFailed
  | ErrNotPrefix
  | ErrCommitmentRange
  | ErrMerkle merkle_error
  | ErrAuthorityObject authority_error
  | ErrClaimObject claim_error
  | ErrAttestationObject attestation_error
  | ErrEvidenceObject evidence_error
  | ErrForeignObject
  | ErrDecodeHash
  | ErrCommitmentHash canonical_error

text \<open>
  The adapters of the package, and a value of the interface from elsewhere by what its method
  returns (\<open>None\<close> for an error). The outer \<open>option\<close> of the operations is the nil interface.
\<close>

datatype TrustObject =
    AuthorityObject "Authority option"
  | ClaimObject "Claim option"
  | AttestationObject "Attestation option"
  | EvidenceObject "Evidence option"
  | ForeignObject "digest option"

fun object_LeafHash :: "TrustObject \<Rightarrow> commitment_error + digest" where
  "object_LeafHash (AuthorityObject a) = lift_error ErrAuthorityObject (authority_CanonicalHash a)"
| "object_LeafHash (ClaimObject c) = lift_error ErrClaimObject (claim_CanonicalHash c)"
| "object_LeafHash (AttestationObject a) = lift_error ErrAttestationObject (attestation_CanonicalHash a)"
| "object_LeafHash (EvidenceObject e) = lift_error ErrEvidenceObject (evidence_CanonicalHash e)"
| "object_LeafHash (ForeignObject r) = (case r of None \<Rightarrow> Inl ErrForeignObject | Some h \<Rightarrow> Inr h)"

definition LeafHash :: "TrustObject option \<Rightarrow> commitment_error + digest" where
  "LeafHash obj = (case obj of None \<Rightarrow> Inl ErrNilObject | Some x \<Rightarrow> object_LeafHash x)"

section \<open>Building and verifying\<close>

definition AlgorithmRFC6962SHA256 :: string where
  "AlgorithmRFC6962SHA256 = ''rfc6962-sha256''"

record Commitment =
  cm_Root :: digest
  cm_Size :: int
  cm_LeafHashes :: "digest list"
  cm_Algorithm :: string

definition commitment_CanonicalEncoding :: "Commitment \<Rightarrow> Encoding" where
  "commitment_CanonicalEncoding c = EncodingJSON"

text \<open>Bytewise order is the lexicographic order on byte lists; equal leaves are indistinguishable.\<close>

definition sortLeaves :: "digest list \<Rightarrow> digest list" where
  "sortLeaves leaves = sort leaves"

fun rejectDuplicates :: "digest list \<Rightarrow> commitment_error + unit" where
  "rejectDuplicates (a # b # leaves) =
    (if a = b then Inl ErrDuplicateObject else rejectDuplicates (b # leaves))"
| "rejectDuplicates _ = Inr ()"

definition Build :: "TrustObject option list \<Rightarrow> commitment_error + Commitment" where
  "Build objects =
    (if length objects = 0 then Inl ErrEmptyObjects
     else sbind (smap LeafHash objects) (\<lambda>hashes.
       let leaves = sortLeaves hashes
       in sbind (rejectDuplicates leaves) (\<lambda>_.
          sbind (lift_error ErrMerkle (merkle_New leaves)) (\<lambda>tree.
            Inr \<lparr>cm_Root = Root tree, cm_Size = int (length objects), cm_LeafHashes = leaves,
              cm_Algorithm = AlgorithmRFC6962SHA256\<rparr>))))"

fun leaves_ascending :: "digest list \<Rightarrow> bool" where
  "leaves_ascending (a # b # leaves) \<longleftrightarrow> (if a > b then False else leaves_ascending (b # leaves))"
| "leaves_ascending _ \<longleftrightarrow> True"

fun leaves_repeat :: "digest list \<Rightarrow> bool" where
  "leaves_repeat (a # b # leaves) \<longleftrightarrow> (if a = b then True else leaves_repeat (b # leaves))"
| "leaves_repeat _ \<longleftrightarrow> False"

definition VerifyCommitment :: "Commitment option \<Rightarrow> commitment_error + unit" where
  "VerifyCommitment commitment =
    (case commitment of
       None \<Rightarrow> Inl ErrNilCommitment
     | Some c \<Rightarrow>
        if cm_Algorithm c \<noteq> AlgorithmRFC6962SHA256 then Inl ErrAlgorithmMismatch
        else if cm_Size c = 0 \<or> length (cm_LeafHashes c) = 0 then Inl ErrEmptyCommitment
        else if cm_Size c \<noteq> int (length (cm_LeafHashes c)) then Inl ErrSizeMismatch
        else if \<not> leaves_ascending (cm_LeafHashes c) then Inl ErrUnsortedLeaves
        else if leaves_repeat (cm_LeafHashes c) then Inl ErrDuplicateLeaf
        else sbind (lift_error ErrMerkle (merkle_New (cm_LeafHashes c))) (\<lambda>tree.
          if Root tree \<noteq> cm_Root c then Inl ErrRootMismatch else Inr ()))"

section \<open>Inclusion\<close>

record InclusionProof =
  ip_Index :: int
  ip_TreeSize :: int
  ip_Steps :: "ProofStep list"

text \<open>\<^verbatim>\<open>sort.Search\<close>: the bisection keeps \<open>f (i - 1)\<close> false and \<open>f j\<close> true.\<close>

function search_loop :: "(nat \<Rightarrow> bool) \<Rightarrow> nat \<Rightarrow> nat \<Rightarrow> nat" where
  "search_loop f i j =
    (if i < j
     then (let h = (i + j) div 2
           in if \<not> f h then search_loop f (h + 1) j else search_loop f i h)
     else i)"
  by pat_completeness auto
termination
  by (relation "measure (\<lambda>(f, i, j). j - i)") auto

declare search_loop.simps [simp del]

definition sort_Search :: "nat \<Rightarrow> (nat \<Rightarrow> bool) \<Rightarrow> nat" where
  "sort_Search n f = search_loop f 0 n"

definition commitment_InclusionProof ::
    "Commitment option \<Rightarrow> TrustObject option \<Rightarrow> commitment_error + InclusionProof" where
  "commitment_InclusionProof commitment obj =
    (case commitment of
       None \<Rightarrow> Inl ErrNilCommitment
     | Some c \<Rightarrow>
        if obj = None then Inl ErrNilObject
        else sbind (LeafHash obj) (\<lambda>leaf.
          let leaves = cm_LeafHashes c;
              index = sort_Search (length leaves) (\<lambda>i. leaves ! i \<ge> leaf)
          in if index \<ge> length leaves \<or> leaves ! index \<noteq> leaf then Inl ErrObjectNotCommitted
             else sbind (lift_error ErrMerkle (merkle_New leaves)) (\<lambda>tree.
                  sbind (lift_error ErrMerkle (merkle_Proof tree (int index))) (\<lambda>path.
                    Inr \<lparr>ip_Index = int index, ip_TreeSize = cm_Size c, ip_Steps = path\<rparr>))))"

text \<open>\<^verbatim>\<open>uint64(p.Index)\<close> and \<^verbatim>\<open>uint64(p.TreeSize)\<close> wrap.\<close>

definition commitment_VerifyInclusion ::
    "digest \<Rightarrow> InclusionProof \<Rightarrow> TrustObject option \<Rightarrow> commitment_error + unit" where
  "commitment_VerifyInclusion root p obj =
    sbind (LeafHash obj) (\<lambda>leaf.
      case merkle_VerifyInclusion root (word_of_int (ip_Index p)) (word_of_int (ip_TreeSize p)) leaf
             (map encode_elem (ip_Steps p)) of
        Inl _ \<Rightarrow> Inl ErrInclusionFailed
      | Inr _ \<Rightarrow> Inr ())"

section \<open>Consistency\<close>

record ConsistencyProof =
  cs_OldSize :: int
  cs_NewSize :: int
  cs_Steps :: "ProofStep list"

text \<open>\<open>None\<close> where the call into the tree does not return.\<close>

definition ConsistencyProofBetween ::
    "Commitment option \<Rightarrow> Commitment option \<Rightarrow> (commitment_error + ConsistencyProof) option" where
  "ConsistencyProofBetween old new =
    (case (old, new) of
       (Some c, Some d) \<Rightarrow>
         if cm_Size c \<le> 0 \<or> cm_Size c \<ge> cm_Size d then Some (Inl ErrCommitmentRange)
         else if int (length (cm_LeafHashes c)) < cm_Size c \<or> int (length (cm_LeafHashes d)) < cm_Size c
         then Some (Inl ErrNotPrefix)
         else if take (nat (cm_Size c)) (cm_LeafHashes c) \<noteq> take (nat (cm_Size c)) (cm_LeafHashes d)
         then Some (Inl ErrNotPrefix)
         else (case merkle_New (cm_LeafHashes d) of
             Inl e \<Rightarrow> Some (Inl (ErrMerkle e))
           | Inr tree \<Rightarrow>
             Option.bind (merkle_ConsistencyProof tree (cm_Size c) (cm_Size d)) (\<lambda>r. case r of
               Inl e \<Rightarrow> Some (Inl (ErrMerkle e))
             | Inr path \<Rightarrow>
               Some (Inr \<lparr>cs_OldSize = cm_Size c, cs_NewSize = cm_Size d, cs_Steps = path\<rparr>)))
     | _ \<Rightarrow> Some (Inl ErrNilCommitment))"

definition commitment_VerifyConsistency ::
    "digest \<Rightarrow> digest \<Rightarrow> ConsistencyProof \<Rightarrow> (commitment_error + unit) option" where
  "commitment_VerifyConsistency oldRoot newRoot p =
    Option.bind (merkle_VerifyConsistency oldRoot newRoot (cs_OldSize p) (cs_NewSize p) (cs_Steps p)) (\<lambda>ok.
      if \<not> ok then Some (Inl ErrInclusionFailed) else Some (Inr ()))"

section \<open>The hex form\<close>

text \<open>
  The DTOs that \<^verbatim>\<open>json.Marshal\<close> and \<^verbatim>\<open>json.Unmarshal\<close> write and read. A nil slice of steps is the empty
  list here: the code writes a nil slice as null and an empty one as [], and reads both back as a proof
  without steps.
\<close>

record commitmentJSON =
  cj_Root :: string
  cj_Size :: int
  cj_LeafHashes :: "string list"
  cj_Algorithm :: string

record proofStepJSON =
  sj_Hash :: string
  sj_IsRight :: bool

record proofJSON =
  pj_Index :: int
  pj_TreeSize :: int
  pj_Steps :: "proofStepJSON list"

definition commitment_MarshalJSON :: "Commitment \<Rightarrow> commitmentJSON" where
  "commitment_MarshalJSON c = \<lparr>cj_Root = hex_EncodeToString (cm_Root c), cj_Size = cm_Size c,
    cj_LeafHashes = map hex_EncodeToString (cm_LeafHashes c), cj_Algorithm = cm_Algorithm c\<rparr>"

definition decodeHash :: "string \<Rightarrow> commitment_error + digest" where
  "decodeHash s =
    (case hex_DecodeString s of
       None \<Rightarrow> Inl ErrDecodeHash
     | Some b \<Rightarrow> if length b \<noteq> 32 then Inl ErrDecodeHash else Inr b)"

definition commitment_UnmarshalJSON :: "commitmentJSON \<Rightarrow> commitment_error + Commitment" where
  "commitment_UnmarshalJSON dto =
    sbind (decodeHash (cj_Root dto)) (\<lambda>root.
    sbind (smap decodeHash (cj_LeafHashes dto)) (\<lambda>leaves.
      Inr \<lparr>cm_Root = root, cm_Size = cj_Size dto, cm_LeafHashes = leaves, cm_Algorithm = cj_Algorithm dto\<rparr>))"

definition proof_MarshalJSON :: "InclusionProof \<Rightarrow> proofJSON" where
  "proof_MarshalJSON p = \<lparr>pj_Index = ip_Index p, pj_TreeSize = ip_TreeSize p,
    pj_Steps = map (\<lambda>s. \<lparr>sj_Hash = hex_EncodeToString (Hash s), sj_IsRight = IsRight s\<rparr>) (ip_Steps p)\<rparr>"

definition proof_UnmarshalJSON :: "proofJSON \<Rightarrow> commitment_error + InclusionProof" where
  "proof_UnmarshalJSON dto =
    sbind (smap (\<lambda>s. sbind (decodeHash (sj_Hash s)) (\<lambda>h. Inr \<lparr>Hash = h, IsRight = sj_IsRight s\<rparr>)) (pj_Steps dto)) (\<lambda>steps.
      Inr \<lparr>ip_Index = pj_Index dto, ip_TreeSize = pj_TreeSize dto, ip_Steps = steps\<rparr>)"

definition commitment_json :: "Commitment \<Rightarrow> json option" where
  "commitment_json c = json_struct
    (let dto = commitment_MarshalJSON c
     in [(''root'', mem_json (Some (json_string (cj_Root dto)))),
         (''size'', mem_json (Some (json_int (cj_Size dto)))),
         (''leafHashes'', mem_json (Some (JArr (map json_string (cj_LeafHashes dto))))),
         (''algorithm'', mem_json (Some (json_string (cj_Algorithm dto))))])"

definition commitment_Marshal :: "Commitment option \<Rightarrow> canonical_error + bytes" where
  "commitment_Marshal c =
    canonical_Marshal (case c of None \<Rightarrow> Some JNull | Some x \<Rightarrow> commitment_json x) None EncodingJSON"

definition commitment_CanonicalHash :: "Commitment option \<Rightarrow> commitment_error + digest" where
  "commitment_CanonicalHash commitment =
    (case commitment of
       None \<Rightarrow> Inl ErrNilCommitment
     | Some c \<Rightarrow> lift_error ErrCommitmentHash
         (canonical_CanonicalHash (Some (commitment_CanonicalEncoding c)) (commitment_json c) None))"

section \<open>Leaves in order\<close>

lemma LeafHash_all:
  "list_all2 (\<lambda>x h. LeafHash x = Inr h) objs hs \<longleftrightarrow>
   (\<forall>x\<in>set objs. \<exists>h. LeafHash x = Inr h) \<and> hs = map (projr \<circ> LeafHash) objs"
proof (induction objs arbitrary: hs)
  case (Cons x objs)
  then show ?case by (cases hs) auto
qed auto

lemma leaves_ascending_iff: "leaves_ascending xs \<longleftrightarrow> sorted xs"
  by (induction xs rule: leaves_ascending.induct) auto

lemma leaves_repeat_iff: "sorted xs \<Longrightarrow> leaves_repeat xs \<longleftrightarrow> \<not> distinct xs"
  by (induction xs rule: leaves_repeat.induct) auto

lemma rejectDuplicates_iff: "sorted xs \<Longrightarrow> rejectDuplicates xs = Inr () \<longleftrightarrow> distinct xs"
  by (induction xs rule: rejectDuplicates.induct) auto

lemma merkle_New_MTH: "merkle_New xs = Inr t \<Longrightarrow> Root t = rfc_MTH xs"
  by (auto simp: merkle_New_def Root_def last_build_levels rfc_MTH_mth split: if_splits)

lemma merkle_New_nonempty: "(\<exists>t. merkle_New xs = Inr t) \<longleftrightarrow> xs \<noteq> []"
  by (simp add: merkle_New_def)

text \<open>The well-formed commitments: what \<^verbatim>\<open>VerifyCommitment\<close> accepts and \<^verbatim>\<open>Build\<close> makes.\<close>

definition commits_to :: "Commitment \<Rightarrow> digest list \<Rightarrow> bool" where
  "commits_to c leaves \<longleftrightarrow>
    leaves \<noteq> [] \<and> sorted_wrt (<) leaves \<and>
    c = \<lparr>cm_Root = rfc_MTH leaves, cm_Size = int (length leaves), cm_LeafHashes = leaves,
      cm_Algorithm = AlgorithmRFC6962SHA256\<rparr>"

lemma commits_toD:
  assumes "commits_to c leaves"
  shows "cm_Root c = rfc_MTH leaves" "cm_Size c = int (length leaves)" "cm_LeafHashes c = leaves"
    "leaves \<noteq> []" "sorted leaves" "distinct leaves"
  using assms by (simp_all add: commits_to_def strict_sorted_iff)

lemma VerifyCommitment_Inr: "VerifyCommitment (Some c) = Inr () \<longleftrightarrow> commits_to c (cm_LeafHashes c)"
proof -
  have "VerifyCommitment (Some c) = Inr () \<longleftrightarrow>
      cm_Algorithm c = AlgorithmRFC6962SHA256 \<and> cm_LeafHashes c \<noteq> [] \<and> cm_Size c = int (length (cm_LeafHashes c)) \<and>
      sorted (cm_LeafHashes c) \<and> distinct (cm_LeafHashes c) \<and>
      (\<exists>t. merkle_New (cm_LeafHashes c) = Inr t \<and> Root t = cm_Root c)"
    by (auto simp: VerifyCommitment_def sbind_Inr_conv leaves_ascending_iff leaves_repeat_iff)
  also have "\<dots> \<longleftrightarrow> commits_to c (cm_LeafHashes c)"
    using merkle_New_MTH merkle_New_nonempty [of "cm_LeafHashes c"]
    by (cases c) (auto simp: commits_to_def strict_sorted_iff)
  finally show ?thesis .
qed

lemma Build_Inr:
  "Build objs = Inr c \<longleftrightarrow>
   (\<exists>hs. list_all2 (\<lambda>x h. LeafHash x = Inr h) objs hs \<and> distinct hs \<and> commits_to c (sort hs))"
proof -
  have "Build objs = Inr c \<longleftrightarrow>
      (\<exists>hs t. objs \<noteq> [] \<and> list_all2 (\<lambda>x h. LeafHash x = Inr h) objs hs \<and> distinct (sort hs) \<and>
        merkle_New (sort hs) = Inr t \<and>
        c = \<lparr>cm_Root = Root t, cm_Size = int (length objs), cm_LeafHashes = sort hs,
          cm_Algorithm = AlgorithmRFC6962SHA256\<rparr>)"
    by (auto simp: Build_def Let_def sbind_Inr_conv smap_Inr_conv sortLeaves_def rejectDuplicates_iff)
  also have "\<dots> \<longleftrightarrow> (\<exists>hs. list_all2 (\<lambda>x h. LeafHash x = Inr h) objs hs \<and> distinct hs \<and> commits_to c (sort hs))"
  proof (rule arg_cong [of _ _ Ex], rule ext)
    fix hs
    show "(\<exists>t. objs \<noteq> [] \<and> list_all2 (\<lambda>x h. LeafHash x = Inr h) objs hs \<and> distinct (sort hs) \<and>
        merkle_New (sort hs) = Inr t \<and>
        c = \<lparr>cm_Root = Root t, cm_Size = int (length objs), cm_LeafHashes = sort hs,
          cm_Algorithm = AlgorithmRFC6962SHA256\<rparr>) \<longleftrightarrow>
      list_all2 (\<lambda>x h. LeafHash x = Inr h) objs hs \<and> distinct hs \<and> commits_to c (sort hs)"
    proof (cases "length objs = length hs \<and> hs \<noteq> []")
      case True
      then have "sort hs \<noteq> []" by (metis length_0_conv length_sort)
      then obtain t where "merkle_New (sort hs) = Inr t" using merkle_New_nonempty by blast
      moreover from this have "Root t = rfc_MTH (sort hs)" by (rule merkle_New_MTH)
      ultimately show ?thesis
        using True \<open>sort hs \<noteq> []\<close> by (auto simp: commits_to_def strict_sorted_iff)
    next
      case False
      moreover have "sort hs = [] \<longleftrightarrow> hs = []" by (metis length_0_conv length_sort)
      ultimately show ?thesis by (auto simp: commits_to_def merkle_New_def dest: list_all2_lengthD)
    qed
  qed
  finally show ?thesis .
qed

section \<open>Bisection\<close>

lemma search_loop_least:
  assumes "\<And>a b. a \<le> b \<Longrightarrow> b < n \<Longrightarrow> f a \<Longrightarrow> f b" and "i \<le> j" and "j \<le> n"
    and "\<And>k. k < i \<Longrightarrow> \<not> f k" and "\<And>k. j \<le> k \<Longrightarrow> k < n \<Longrightarrow> f k"
  shows "search_loop f i j \<le> n \<and> (\<forall>k < search_loop f i j. \<not> f k) \<and> (\<forall>k. search_loop f i j \<le> k \<longrightarrow> k < n \<longrightarrow> f k)"
  using assms(2-)
proof (induction "j - i" arbitrary: i j rule: less_induct)
  case less
  let ?h = "(i + j) div 2"
  show ?case
  proof (cases "i < j")
    case True
    then have h: "i \<le> ?h" "?h < j" by simp_all
    show ?thesis
    proof (cases "f ?h")
      case fh: True
      then have "f k" if "?h \<le> k" "k < n" for k using assms(1) that by blast
      with less.hyps [of ?h i] less.prems h show ?thesis
        by (simp add: search_loop.simps [of f i j] True fh)
    next
      case fh: False
      then have "\<not> f k" if "k < ?h + 1" for k
        using assms(1) [of k ?h] that h less.prems(2) by fastforce
      with less.hyps [of j "?h + 1"] less.prems h show ?thesis
        by (simp add: search_loop.simps [of f i j] True fh)
    qed
  qed (use less.prems in \<open>simp add: search_loop.simps [of f i j] search_loop.simps [of f j j]\<close>)
qed

lemma sort_Search_sorted:
  assumes "sorted xs"
  shows "sort_Search (length xs) (\<lambda>i. xs ! i \<ge> x) < length xs \<and> xs ! sort_Search (length xs) (\<lambda>i. xs ! i \<ge> x) = x \<longleftrightarrow>
    x \<in> set xs"
proof -
  let ?f = "\<lambda>i. xs ! i \<ge> x" and ?r = "sort_Search (length xs) (\<lambda>i. xs ! i \<ge> x)"
  have mono: "?f b" if "a \<le> b" "b < length xs" "?f a" for a b
    using sorted_nth_mono [OF assms that(1,2)] that(3) by (rule order_trans [rotated])
  have "?r \<le> length xs \<and> (\<forall>k<?r. \<not> ?f k) \<and> (\<forall>k. ?r \<le> k \<longrightarrow> k < length xs \<longrightarrow> ?f k)"
    unfolding sort_Search_def by (rule search_loop_least [OF mono]) simp_all
  then have r: "\<forall>k<?r. \<not> ?f k" "\<forall>k. ?r \<le> k \<longrightarrow> k < length xs \<longrightarrow> ?f k" by blast+
  show ?thesis
  proof
    assume "x \<in> set xs"
    then obtain i where i: "i < length xs" "xs ! i = x" by (auto simp: in_set_conv_nth)
    then have le: "?r \<le> i" using r(1) by (intro leI) auto
    with i have lt: "?r < length xs" by linarith
    moreover have "xs ! ?r = x"
      using r(2) lt sorted_nth_mono [OF assms le i(1)] i(2) by (intro antisym) auto
    ultimately show "?r < length xs \<and> xs ! ?r = x" by simp
  qed (use nth_mem in fastforce)
qed

section \<open>Inclusion for well-formed commitments\<close>

lemma commits_to_root: "commits_to c leaves \<Longrightarrow> cm_Root c = merkle_root_of leaves"
  using merkle_New_nonempty [of leaves] merkle_New_MTH Root_New commits_toD(1,4) by metis

lemma int_range_mod:
  fixes i u :: int
  assumes "u = i mod 2 ^ 64" and "u < 2 ^ 63" and "- (2 ^ 63) \<le> i" and "i < 2 ^ 63"
  shows "i = u"
proof (cases "0 \<le> i")
  case True
  with assms show ?thesis by simp
next
  case False
  then have "(i + 2 ^ 64) mod 2 ^ 64 = i + 2 ^ 64" using assms(3) by (intro mod_pos_pos_trivial) simp_all
  with assms(1-3) show ?thesis by simp
qed

lemma InclusionProof_committed:
  assumes "commits_to c leaves" and "LeafHash obj = Inr leaf"
  shows "commitment_InclusionProof (Some c) obj =
    (if leaf \<in> set leaves
     then Inr \<lparr>ip_Index = int (sort_Search (length leaves) (\<lambda>i. leaves ! i \<ge> leaf)), ip_TreeSize = cm_Size c,
       ip_Steps = proof_loop (build_levels (map leafHash leaves)) (sort_Search (length leaves) (\<lambda>i. leaves ! i \<ge> leaf))\<rparr>
     else Inl ErrObjectNotCommitted)"
proof -
  let ?r = "sort_Search (length leaves) (\<lambda>i. leaves ! i \<ge> leaf)"
  note c = commits_toD(3-5) [OF assms(1)]
  obtain t where t: "merkle_New leaves = Inr t" using merkle_New_nonempty c(2) by blast
  have obj: "obj \<noteq> None" using assms(2) by (cases obj) (simp_all add: LeafHash_def)
  show ?thesis
  proof (cases "leaf \<in> set leaves")
    case True
    then have r: "?r < length leaves" "leaves ! ?r = leaf" using sort_Search_sorted [OF c(3)] by blast+
    then show ?thesis
      using True obj Proof_New [OF t r(1)]
      by (simp add: commitment_InclusionProof_def assms(2) c(1) t Let_def lift_error_def)
  next
    case False
    then have "?r \<ge> length leaves \<or> leaves ! ?r \<noteq> leaf" using sort_Search_sorted [OF c(3), of leaf] by auto
    then show ?thesis
      using False obj by (simp add: commitment_InclusionProof_def assms(2) c(1) Let_def)
  qed
qed

lemma VerifyInclusion_committed:
  "commitment_VerifyInclusion root p obj = Inr () \<longleftrightarrow>
   (\<exists>leaf. LeafHash obj = Inr leaf \<and>
      merkle_VerifyInclusion root (word_of_int (ip_Index p)) (word_of_int (ip_TreeSize p)) leaf
        (map encode_elem (ip_Steps p)) = Inr ())"
proof -
  have "(case v of Inl (_ :: merkle_error) \<Rightarrow> Inl ErrInclusionFailed | Inr (_ :: unit) \<Rightarrow> Inr ()) = Inr () \<longleftrightarrow> v = Inr ()" for v
    by (cases v) simp_all
  then show ?thesis by (simp add: commitment_VerifyInclusion_def sbind_Inr_conv)
qed

lemma InclusionProof_accepted:
  assumes "VerifyCommitment (Some c) = Inr ()" and "cm_Size c < 2 ^ 63" and "LeafHash obj = Inr leaf"
  shows "if leaf \<in> set (cm_LeafHashes c)
    then \<exists>p. commitment_InclusionProof (Some c) obj = Inr p \<and> cm_LeafHashes c ! nat (ip_Index p) = leaf \<and>
      commitment_VerifyInclusion (cm_Root c) p obj = Inr ()
    else commitment_InclusionProof (Some c) obj = Inl ErrObjectNotCommitted"
proof -
  let ?ls = "cm_LeafHashes c" and ?r = "sort_Search (length (cm_LeafHashes c)) (\<lambda>i. cm_LeafHashes c ! i \<ge> leaf)"
  have c: "commits_to c ?ls" using assms(1) by (simp add: VerifyCommitment_Inr)
  note n = commits_toD(2,5) [OF c]
  have len: "length ?ls < 2 ^ 64 - 1" using assms(2) n(1) by simp
  show ?thesis
  proof (cases "leaf \<in> set ?ls")
    case True
    then have r: "?r < length ?ls" "?ls ! ?r = leaf" using sort_Search_sorted [OF n(2)] by blast+
    from merkle_pb.path_accepted [OF len r(1)]
    have "merkle_VerifyInclusion (cm_Root c) (word_of_int (int ?r)) (word_of_int (cm_Size c)) leaf
        (map encode_elem (proof_loop (build_levels (map leafHash ?ls)) ?r)) = Inr ()"
      by (simp add: merkle_elems_of_def commits_to_root [OF c] n r)
    then show ?thesis
      using True r InclusionProof_committed [OF c assms(3)]
      by (simp add: VerifyInclusion_committed assms(3))
  qed (simp add: InclusionProof_committed [OF c assms(3)])
qed

section \<open>Properties\<close>

text \<open>
  C11: \<^verbatim>\<open>Build\<close> succeeds exactly when there is an object, every object has a canonical hash and the
  hashes differ; the commitment is then the RFC 6962 root of the hashes in ascending order, with
  their number, the sorted hashes and the algorithm name.
\<close>

theorem Build_exact:
  "Build objs = Inr c \<longleftrightarrow>
   (\<exists>hs. objs \<noteq> [] \<and> list_all2 (\<lambda>x h. LeafHash x = Inr h) objs hs \<and> distinct hs \<and>
      c = \<lparr>cm_Root = rfc_MTH (sort hs), cm_Size = int (length objs), cm_LeafHashes = sort hs,
        cm_Algorithm = ''rfc6962-sha256''\<rparr>)"
proof -
  have "list_all2 (\<lambda>x h. LeafHash x = Inr h) objs hs \<and> distinct hs \<and> commits_to c (sort hs) \<longleftrightarrow>
      objs \<noteq> [] \<and> list_all2 (\<lambda>x h. LeafHash x = Inr h) objs hs \<and> distinct hs \<and>
      c = \<lparr>cm_Root = rfc_MTH (sort hs), cm_Size = int (length objs), cm_LeafHashes = sort hs,
        cm_Algorithm = ''rfc6962-sha256''\<rparr>" for hs
  proof (cases "length objs = length hs")
    case True
    moreover have "sort hs = [] \<longleftrightarrow> hs = []" by (metis length_0_conv length_sort)
    ultimately show ?thesis
      by (auto simp: commits_to_def strict_sorted_iff AlgorithmRFC6962SHA256_def)
  qed (auto dest: list_all2_lengthD)
  then show ?thesis unfolding Build_Inr by blast
qed

text \<open>
  \<^verbatim>\<open>VerifyCommitment\<close> accepts exactly the commitments with the algorithm name, a non-empty,
  strictly ascending list of leaves, their number and their RFC 6962 root.
\<close>

theorem VerifyCommitment_exact:
  "VerifyCommitment (Some c) = Inr () \<longleftrightarrow>
   cm_Algorithm c = ''rfc6962-sha256'' \<and> cm_LeafHashes c \<noteq> [] \<and> sorted_wrt (<) (cm_LeafHashes c) \<and>
   cm_Size c = int (length (cm_LeafHashes c)) \<and> cm_Root c = rfc_MTH (cm_LeafHashes c)"
  unfolding VerifyCommitment_Inr by (cases c) (auto simp: commits_to_def AlgorithmRFC6962SHA256_def)

text \<open>
  the order of the objects does not matter: what \<^verbatim>\<open>Build\<close> returns for one arrangement it
  returns for every other, and \<^verbatim>\<open>VerifyCommitment\<close> accepts it.
\<close>

theorem Build_any_order:
  assumes "Build objs = Inr c" and "mset objs' = mset objs"
  shows "Build objs' = Inr c \<and> VerifyCommitment (Some c) = Inr ()"
proof -
  let ?hs = "map (projr \<circ> LeafHash) objs" and ?hs' = "map (projr \<circ> LeafHash) objs'"
  have all: "\<forall>x\<in>set objs. \<exists>h. LeafHash x = Inr h" and c: "distinct ?hs" "commits_to c (sort ?hs)"
    using assms(1) by (auto simp: Build_Inr LeafHash_all)
  have "mset ?hs' = mset ?hs" using assms(2) by (simp add: mset_map)
  then have "distinct ?hs'" "sort ?hs' = sort ?hs"
    using c(1) mset_eq_imp_distinct_iff by (blast, intro properties_for_sort) simp_all
  moreover have "set objs' = set objs" using assms(2) by (rule mset_eq_setD)
  ultimately have "Build objs' = Inr c" using all c(2) by (auto simp: Build_Inr LeafHash_all)
  with c(2) commits_toD(3) [OF c(2)] show ?thesis by (simp add: VerifyCommitment_Inr)
qed

text \<open>
  for an accepted commitment, \<^verbatim>\<open>InclusionProof\<close> finds every committed object and the proof it
  returns is accepted by \<^verbatim>\<open>VerifyInclusion\<close> against the root; for any other object it reports
  \<^verbatim>\<open>ErrObjectNotCommitted\<close>.
\<close>

theorem InclusionProof_exact:
  assumes "VerifyCommitment (Some c) = Inr ()" and "cm_Size c < 2 ^ 63" and "LeafHash obj = Inr leaf"
  shows "if leaf \<in> set (cm_LeafHashes c)
    then \<exists>p. commitment_InclusionProof (Some c) obj = Inr p \<and> cm_LeafHashes c ! nat (ip_Index p) = leaf \<and>
      commitment_VerifyInclusion (cm_Root c) p obj = Inr ()
    else commitment_InclusionProof (Some c) obj = Inl ErrObjectNotCommitted"
  using assms by (rule InclusionProof_accepted)


text \<open>Two objects from outside the package, and the commitment to them.\<close>

definition demo_objects :: "TrustObject option list" where
  "demo_objects = [Some (ForeignObject (Some (replicate 32 2))), Some (ForeignObject (Some (replicate 32 1)))]"

definition demo_commitment :: Commitment where
  "demo_commitment = \<lparr>cm_Root = rfc_MTH [replicate 32 1, replicate 32 2], cm_Size = 2,
    cm_LeafHashes = [replicate 32 1, replicate 32 2], cm_Algorithm = ''rfc6962-sha256''\<rparr>"

lemma demo_commits: "commits_to demo_commitment [replicate 32 1, replicate 32 2]"
  by (simp add: commits_to_def demo_commitment_def AlgorithmRFC6962SHA256_def numeral_nat)

lemma demo_Build: "Build demo_objects = Inr demo_commitment"
proof -
  have "sort [replicate 32 2, replicate 32 1 :: digest] = [replicate 32 1, replicate 32 2]"
    by (simp add: numeral_nat)
  then show ?thesis
    unfolding Build_Inr using demo_commits
    by (intro exI [of _ "[replicate 32 2, replicate 32 1]"]) (simp add: demo_objects_def LeafHash_def numeral_nat)
qed

lemma demo_VerifyCommitment: "VerifyCommitment (Some demo_commitment) = Inr ()"
  using demo_commits by (simp add: VerifyCommitment_Inr commits_toD(3) [OF demo_commits])

theorem Build_any_order_witness:
  "Build (rev demo_objects) = Inr demo_commitment \<and> VerifyCommitment (Some demo_commitment) = Inr ()"
  using Build_any_order [OF demo_Build, of "rev demo_objects"] by simp

theorem InclusionProof_exact_witness:
  "\<exists>p. commitment_InclusionProof (Some demo_commitment) (Some (ForeignObject (Some (replicate 32 2)))) = Inr p \<and>
     commitment_VerifyInclusion (cm_Root demo_commitment) p (Some (ForeignObject (Some (replicate 32 2)))) = Inr ()"
proof -
  have "LeafHash (Some (ForeignObject (Some (replicate 32 2)))) = Inr (replicate 32 2)" by (simp add: LeafHash_def)
  from InclusionProof_exact [OF demo_VerifyCommitment _ this] show ?thesis by (auto simp: demo_commitment_def)
qed


section \<open>Consistency and the hex form\<close>

lemma ConsistencyProofBetween_path:
  assumes "0 < cm_Size c" and "cm_Size c < cm_Size d"
    and "cm_Size c \<le> int (length (cm_LeafHashes c))" and "cm_Size c \<le> int (length (cm_LeafHashes d))"
    and "take (nat (cm_Size c)) (cm_LeafHashes c) = take (nat (cm_Size c)) (cm_LeafHashes d)"
    and "merkle_ConsistencyProof t (cm_Size c) (cm_Size d) = Some (Inr path)" and "merkle_New (cm_LeafHashes d) = Inr t"
  shows "ConsistencyProofBetween (Some c) (Some d) =
    Some (Inr \<lparr>cs_OldSize = cm_Size c, cs_NewSize = cm_Size d, cs_Steps = path\<rparr>)"
  using assms(1-4) by (simp add: ConsistencyProofBetween_def assms(5-7))

text \<open>
  for two accepted commitments of which the first commits to a proper prefix of the leaves of
  the second, \<^verbatim>\<open>ConsistencyProofBetween\<close> returns a proof that \<^verbatim>\<open>VerifyConsistency\<close> accepts between
  their roots; without that prefix it reports an error.
\<close>

theorem ConsistencyProofBetween_exact:
  assumes "VerifyCommitment (Some c) = Inr ()" and "VerifyCommitment (Some d) = Inr ()" and "cm_Size d \<le> 2 ^ 62"
  shows "if cm_Size c < cm_Size d \<and> cm_LeafHashes c = take (nat (cm_Size c)) (cm_LeafHashes d)
    then \<exists>p. ConsistencyProofBetween (Some c) (Some d) = Some (Inr p) \<and>
      commitment_VerifyConsistency (cm_Root c) (cm_Root d) p = Some (Inr ())
    else ConsistencyProofBetween (Some c) (Some d) \<in> {Some (Inl ErrCommitmentRange), Some (Inl ErrNotPrefix)}"
proof -
  have c: "commits_to c (cm_LeafHashes c)" and d: "commits_to d (cm_LeafHashes d)"
    using assms(1,2) by (simp_all add: VerifyCommitment_Inr)
  note nc = commits_toD [OF c] and nd = commits_toD [OF d]
  obtain t where t: "merkle_New (cm_LeafHashes d) = Inr t" using nd(4) merkle_New_nonempty by blast
  obtain t0 where t0: "merkle_New (cm_LeafHashes c) = Inr t0" using nc(4) merkle_New_nonempty by blast
  note roots = merkle_New_MTH [OF t] merkle_New_MTH [OF t0] nc(1) nd(1)
  show ?thesis
  proof (cases "cm_Size c < cm_Size d \<and> cm_LeafHashes c = take (nat (cm_Size c)) (cm_LeafHashes d)")
    case True
    let ?m = "length (cm_LeafHashes c)"
    have sizes: "nat (cm_Size c) = ?m" "?m < length (cm_LeafHashes d)" "length (cm_LeafHashes d) \<le> 2 ^ 62"
      using True nc(2) nd(2) assms(3) by simp_all
    have "merkle_New (take ?m (cm_LeafHashes d)) = Inr t0" using True t0 sizes(1) by simp
    from VerifyConsistency_of_Proof [OF t this sizes(2,3)] obtain path where
      path: "merkle_ConsistencyProof t (cm_Size c) (cm_Size d) = Some (Inr path)"
        "merkle_VerifyConsistency (cm_Root c) (cm_Root d) (cm_Size c) (cm_Size d) path = Some True"
      using nc(2) nd(2) roots by auto
    have "0 < cm_Size c" using nc(2,4) by simp
    moreover have "cm_Size c < cm_Size d" using True by blast
    moreover have "cm_Size c \<le> int (length (cm_LeafHashes c))" "cm_Size c \<le> int (length (cm_LeafHashes d))"
      using nc(2) sizes(2) by linarith+
    moreover have "take (nat (cm_Size c)) (cm_LeafHashes c) = take (nat (cm_Size c)) (cm_LeafHashes d)"
      unfolding sizes(1) using True sizes(1) by (metis order_refl take_all)
    ultimately have "ConsistencyProofBetween (Some c) (Some d) =
        Some (Inr \<lparr>cs_OldSize = cm_Size c, cs_NewSize = cm_Size d, cs_Steps = path\<rparr>)"
      using path(1) t by (rule ConsistencyProofBetween_path)
    with True path(2) show ?thesis by (simp add: commitment_VerifyConsistency_def)
  next
    case False
    have "0 < cm_Size c" using nc(2,4) by simp
    moreover have "take (nat (cm_Size c)) (cm_LeafHashes c) = cm_LeafHashes c" using nc(2) by simp
    ultimately have "ConsistencyProofBetween (Some c) (Some d) \<in> {Some (Inl ErrCommitmentRange), Some (Inl ErrNotPrefix)}"
      using False unfolding ConsistencyProofBetween_def by (cases "cm_Size c < cm_Size d") (simp_all add: not_less)
    then show ?thesis using False by presburger
  qed
qed

theorem ConsistencyProofBetween_exact_witness:
  "\<exists>c p. VerifyCommitment (Some c) = Inr () \<and> ConsistencyProofBetween (Some c) (Some demo_commitment) = Some (Inr p) \<and>
     commitment_VerifyConsistency (cm_Root c) (cm_Root demo_commitment) p = Some (Inr ())"
proof -
  let ?c = "\<lparr>cm_Root = rfc_MTH [replicate 32 1], cm_Size = 1, cm_LeafHashes = [replicate 32 1],
    cm_Algorithm = AlgorithmRFC6962SHA256\<rparr>"
  have c: "VerifyCommitment (Some ?c) = Inr ()" by (simp add: VerifyCommitment_Inr commits_to_def)
  have "cm_Size demo_commitment \<le> 2 ^ 62" by (simp add: demo_commitment_def)
  from ConsistencyProofBetween_exact [OF c demo_VerifyCommitment this] c show ?thesis
    by (auto simp: demo_commitment_def)
qed

text \<open>The hex form as a codec for commitments of 32-byte digests.\<close>

definition digests_ok :: "Commitment \<Rightarrow> bool" where
  "digests_ok c \<longleftrightarrow> length (cm_Root c) = 32 \<and> list_all (\<lambda>h. length h = 32) (cm_LeafHashes c)"

lemma decodeHash_hex: "length h = 32 \<Longrightarrow> decodeHash (hex_EncodeToString h) = Inr h"
  by (simp add: decodeHash_def)

lemma smap_decodeHash: "list_all (\<lambda>h. length h = 32) hs \<Longrightarrow> smap decodeHash (map hex_EncodeToString hs) = Inr hs"
  by (induction hs) (simp_all add: decodeHash_hex)

lemma smap_steps:
  "list_all (\<lambda>s. length (Hash s) = 32) steps \<Longrightarrow>
   smap (\<lambda>s. sbind (decodeHash (sj_Hash s)) (\<lambda>h. Inr \<lparr>Hash = h, IsRight = sj_IsRight s\<rparr>))
     (map (\<lambda>s. \<lparr>sj_Hash = hex_EncodeToString (Hash s), sj_IsRight = IsRight s\<rparr>) steps) = Inr steps"
  by (induction steps) (simp_all add: decodeHash_hex)

interpretation commitment_codec: codec commitment_MarshalJSON "\<lambda>dto. sum_option (commitment_UnmarshalJSON dto)" digests_ok
  by unfold_locales
    (simp add: commitment_MarshalJSON_def commitment_UnmarshalJSON_def digests_ok_def decodeHash_hex smap_decodeHash
      sum_option_def)

interpretation inclusion_codec: codec proof_MarshalJSON "\<lambda>dto. sum_option (proof_UnmarshalJSON dto)"
    "\<lambda>p. list_all (\<lambda>s. length (Hash s) = 32) (ip_Steps p)"
  by unfold_locales (simp add: proof_MarshalJSON_def proof_UnmarshalJSON_def smap_steps sum_option_def)

text \<open>
  the hex forms round-trip: a commitment and an inclusion proof with 32-byte digests decode
  from their encodings, so that different ones have different encodings.
\<close>

theorem commitment_hex_roundtrip:
  assumes "digests_ok c" and "list_all (\<lambda>s. length (Hash s) = 32) (ip_Steps p)"
  shows "commitment_UnmarshalJSON (commitment_MarshalJSON c) = Inr c \<and>
    proof_UnmarshalJSON (proof_MarshalJSON p) = Inr p"
  using commitment_codec.dec_enc [OF assms(1)] inclusion_codec.dec_enc [OF assms(2)]
  by (simp add: sum_option_def split: sum.splits)

theorem commitment_hex_roundtrip_witness:
  "commitment_UnmarshalJSON (commitment_MarshalJSON
     \<lparr>cm_Root = replicate 32 7, cm_Size = 1, cm_LeafHashes = [replicate 32 9], cm_Algorithm = ''x''\<rparr>) =
   Inr \<lparr>cm_Root = replicate 32 7, cm_Size = 1, cm_LeafHashes = [replicate 32 9], cm_Algorithm = ''x''\<rparr>"
  using commitment_hex_roundtrip
    [of "\<lparr>cm_Root = replicate 32 7, cm_Size = 1, cm_LeafHashes = [replicate 32 9], cm_Algorithm = ''x''\<rparr>"
      "\<lparr>ip_Index = 0, ip_TreeSize = 1, ip_Steps = []\<rparr>"]
  by (simp add: digests_ok_def)

end
