(* ===== verification/Did.thy ===== *)
theory Did
  imports Canonical
begin

text \<open>
  Decentralized identifiers, \<^verbatim>\<open>src/identity/did/did.go\<close>: the one-pass parser as the state machine the
  code runs, with its positions into the input, the document types and the resolver interface. The
  parser is proved equal to a grammar over the components.
\<close>

section \<open>Characters\<close>

unbundle bit_operations_syntax

datatype did_error =
    ErrMissingPrefix
  | ErrInvalidMethodName
  | ErrEmptyMethodSpecificID
  | ErrInvalidIDChar
  | ErrAuthorityNotPermitted

definition charMethod :: byte where "charMethod = 1"
definition charID :: byte where "charID = 2"
definition charUnreserved :: byte where "charUnreserved = 4"
definition charSubDelim :: byte where "charSubDelim = 8"
definition charHex :: byte where "charHex = 16"

lemmas char_flag_defs = charMethod_def charID_def charUnreserved_def charSubDelim_def charHex_def

definition didCharset :: "char \<Rightarrow> byte" where
  "didCharset c =
    (if CHR ''a'' \<le> c \<and> c \<le> CHR ''z'' then charMethod OR charID OR charUnreserved else 0) OR
    (if CHR ''A'' \<le> c \<and> c \<le> CHR ''Z'' then charID OR charUnreserved else 0) OR
    (if CHR ''0'' \<le> c \<and> c \<le> CHR ''9'' then charMethod OR charID OR charUnreserved OR charHex else 0) OR
    (if CHR ''a'' \<le> c \<and> c \<le> CHR ''f'' then charHex else 0) OR
    (if CHR ''A'' \<le> c \<and> c \<le> CHR ''F'' then charHex else 0) OR
    (if c \<in> set ''-._'' then charID OR charUnreserved else 0) OR
    (if c = CHR ''~'' then charUnreserved else 0) OR
    (if c \<in> set [CHR ''!'', CHR ''$'', CHR ''&'', CHR 0x27, CHR ''('', CHR '')'', CHR ''*'', CHR ''+'',
                CHR '','', CHR '';'', CHR ''='']
     then charSubDelim else 0)"

text \<open>\<open>None\<close> is the verdict false; otherwise the index of the last byte consumed.\<close>

definition validEscapedOr :: "char \<Rightarrow> string \<Rightarrow> nat \<Rightarrow> byte \<Rightarrow> nat option" where
  "validEscapedOr c s i flags =
    (if c \<noteq> CHR ''%'' then (if didCharset c AND flags \<noteq> 0 then Some i else None)
     else if i + 2 \<ge> length s \<or> didCharset (s ! (i + 1)) AND charHex = 0 \<or> didCharset (s ! (i + 2)) AND charHex = 0
     then None
     else Some (i + 2))"

section \<open>Types\<close>

record DID =
  did_original :: string
  did_method :: string
  did_methodSpecificID :: string
  did_path :: string
  did_query :: string
  did_fragment :: string
  did_isURL :: bool

record Method =
  vm_ID :: string
  vm_Type :: string
  vm_Controller :: string
  vm_BlockchainAccountId :: string
  vm_PublicKeyJWK :: "(string \<times> goany) list"
  vm_PublicKeyMultibase :: string

record Service =
  svc_ID :: string
  svc_Type :: string
  svc_ServiceEndpoint :: goany

record Document =
  doc_ID :: string
  doc_VerificationMethod :: "Method list"
  doc_Service :: "Service list"

text \<open>A resolver by its one method; the document it returns may be a nil pointer.\<close>

type_synonym 'e Resolver = "DID \<Rightarrow> 'e + Document option"

section \<open>The state machine\<close>

datatype did_state = stateMethod | stateID | statePath | stateQuery | stateFragment

record did_scan =
  ds_state :: did_state
  ds_methodEnd :: int
  ds_idStart :: int
  ds_idEnd :: int
  ds_pathStart :: int
  ds_queryStart :: int
  ds_fragmentStart :: int
  ds_url :: bool

definition scan_char :: "string \<Rightarrow> nat \<Rightarrow> byte \<Rightarrow> did_scan \<Rightarrow> did_error + nat \<times> did_scan" where
  "scan_char s i flags st =
    (case validEscapedOr (s ! i) s i flags of None \<Rightarrow> Inl ErrInvalidIDChar | Some next \<Rightarrow> Inr (next, st))"

definition parse_step :: "string \<Rightarrow> nat \<Rightarrow> did_scan \<Rightarrow> did_error + nat \<times> did_scan" where
  "parse_step s i st =
    (let c = s ! i
     in case ds_state st of
          stateMethod \<Rightarrow>
            if c = CHR '':'' then
              (if i = 4 then Inl ErrInvalidMethodName
               else Inr (i, st\<lparr>ds_methodEnd := int i, ds_idStart := int i + 1, ds_state := stateID\<rparr>))
            else if didCharset c AND charMethod = 0 then Inl ErrInvalidMethodName
            else Inr (i, st)
        | stateID \<Rightarrow>
            if c \<in> {CHR ''/'', CHR ''?'', CHR ''#''} then
              (if int i = ds_idStart st \<or> s ! (i - 1) = CHR '':'' then Inl ErrEmptyMethodSpecificID
               else (let st' = st\<lparr>ds_idEnd := int i, ds_url := True\<rparr>
                     in if c = CHR ''/'' then
                          (if i + 1 < length s \<and> s ! (i + 1) = CHR ''/'' then Inl ErrAuthorityNotPermitted
                           else Inr (i, st'\<lparr>ds_pathStart := int i, ds_state := statePath\<rparr>))
                        else if c = CHR ''?'' then
                          Inr (i, st'\<lparr>ds_queryStart := int i + 1, ds_state := stateQuery\<rparr>)
                        else Inr (i, st'\<lparr>ds_fragmentStart := int i + 1, ds_state := stateFragment\<rparr>)))
            else if c = CHR '':'' then Inr (i, st)
            else scan_char s i charID st
        | statePath \<Rightarrow>
            if c = CHR ''?'' then Inr (i, st\<lparr>ds_queryStart := int i + 1, ds_state := stateQuery\<rparr>)
            else if c = CHR ''#'' then Inr (i, st\<lparr>ds_fragmentStart := int i + 1, ds_state := stateFragment\<rparr>)
            else if c \<in> {CHR ''/'', CHR '':'', CHR ''@''} then Inr (i, st)
            else scan_char s i (charUnreserved OR charSubDelim) st
        | stateQuery \<Rightarrow>
            if c = CHR ''#'' then Inr (i, st\<lparr>ds_fragmentStart := int i + 1, ds_state := stateFragment\<rparr>)
            else if c \<in> {CHR ''/'', CHR ''?'', CHR '':'', CHR ''@''} then Inr (i, st)
            else scan_char s i (charUnreserved OR charSubDelim) st
        | stateFragment \<Rightarrow>
            if c \<in> {CHR ''/'', CHR ''?'', CHR '':'', CHR ''@''} then Inr (i, st)
            else scan_char s i (charUnreserved OR charSubDelim) st)"

lemma scan_char_forward: "scan_char s i flags st = Inr (j, st') \<Longrightarrow> i \<le> j"
  by (auto simp: scan_char_def validEscapedOr_def split: option.splits if_splits)

lemma parse_step_forward: "parse_step s i st = Inr (j, st') \<Longrightarrow> i \<le> j"
  by (auto simp: parse_step_def Let_def dest: scan_char_forward split: did_state.splits if_splits)

function parse_loop :: "string \<Rightarrow> nat \<Rightarrow> did_scan \<Rightarrow> did_error + did_scan" where
  "parse_loop s i st =
    (if i < length s
     then sbind (parse_step s i st) (\<lambda>(next, st'). parse_loop s (next + 1) st')
     else Inr st)"
  by pat_completeness auto
termination
  by (relation "measure (\<lambda>(s, i, st). length s - i)") (auto dest: parse_step_forward)

declare parse_loop.simps [simp del]

definition initial_scan :: did_scan where
  "initial_scan = \<lparr>ds_state = stateMethod, ds_methodEnd = -1, ds_idStart = -1, ds_idEnd = -1,
    ds_pathStart = -1, ds_queryStart = -1, ds_fragmentStart = -1, ds_url = False\<rparr>"

definition substring :: "string \<Rightarrow> int \<Rightarrow> int \<Rightarrow> string" where
  "substring s lo hi = take (nat hi - nat lo) (drop (nat lo) s)"

definition scan_result :: "string \<Rightarrow> did_scan \<Rightarrow> did_error + DID" where
  "scan_result s st =
    (let n = int (length s)
     in if ds_state st = stateMethod then Inl ErrInvalidMethodName
        else if ds_idStart st = n \<or> (ds_idEnd st < 0 \<and> s ! (length s - 1) = CHR '':'')
        then Inl ErrEmptyMethodSpecificID
        else Inr \<lparr>
          did_original = s,
          did_method = substring s 4 (ds_methodEnd st),
          did_methodSpecificID = substring s (ds_idStart st) (if ds_idEnd st < 0 then n else ds_idEnd st),
          did_path = (if ds_pathStart st \<ge> 0
            then substring s (ds_pathStart st)
              (if ds_queryStart st \<ge> 0 then ds_queryStart st - 1
               else if ds_fragmentStart st \<ge> 0 then ds_fragmentStart st - 1 else n)
            else []),
          did_query = (if ds_queryStart st \<ge> 0
            then substring s (ds_queryStart st) (if ds_fragmentStart st \<ge> 0 then ds_fragmentStart st - 1 else n)
            else []),
          did_fragment = (if ds_fragmentStart st \<ge> 0 then substring s (ds_fragmentStart st) n else []),
          did_isURL = ds_url st\<rparr>)"

definition did_parse :: "string \<Rightarrow> did_error + DID" where
  "did_parse s =
    (if length s < 4 \<or> s ! 0 \<noteq> CHR ''d'' \<or> s ! 1 \<noteq> CHR ''i'' \<or> s ! 2 \<noteq> CHR ''d'' \<or> s ! 3 \<noteq> CHR '':''
     then Inl ErrMissingPrefix
     else sbind (parse_loop s 4 initial_scan) (scan_result s))"

definition did_Parse :: "string \<Rightarrow> did_error + DID" where
  "did_Parse s = did_parse s"

definition IsDID :: "string \<Rightarrow> bool" where
  "IsDID s = (case did_parse s of Inl _ \<Rightarrow> False | Inr d \<Rightarrow> \<not> did_isURL d)"

definition IsDIDURL :: "string \<Rightarrow> bool" where
  "IsDIDURL s = (case did_parse s of Inl _ \<Rightarrow> False | Inr _ \<Rightarrow> True)"

definition did_String :: "DID \<Rightarrow> string" where
  "did_String d = did_original d"

section \<open>The grammar\<close>

definition is_lower :: "char \<Rightarrow> bool" where "is_lower c \<longleftrightarrow> CHR ''a'' \<le> c \<and> c \<le> CHR ''z''"
definition is_upper :: "char \<Rightarrow> bool" where "is_upper c \<longleftrightarrow> CHR ''A'' \<le> c \<and> c \<le> CHR ''Z''"
definition is_num :: "char \<Rightarrow> bool" where "is_num c \<longleftrightarrow> CHR ''0'' \<le> c \<and> c \<le> CHR ''9''"

definition is_hexdig :: "char \<Rightarrow> bool" where
  "is_hexdig c \<longleftrightarrow> is_num c \<or> CHR ''a'' \<le> c \<and> c \<le> CHR ''f'' \<or> CHR ''A'' \<le> c \<and> c \<le> CHR ''F''"

definition sub_delims :: "char set" where
  "sub_delims = {CHR ''!'', CHR ''$'', CHR ''&'', CHR 0x27, CHR ''('', CHR '')'', CHR ''*'', CHR ''+'',
    CHR '','', CHR '';'', CHR ''=''}"

definition method_char :: "char \<Rightarrow> bool" where
  "method_char c \<longleftrightarrow> is_lower c \<or> is_num c"

definition id_char :: "char \<Rightarrow> bool" where
  "id_char c \<longleftrightarrow> is_lower c \<or> is_upper c \<or> is_num c \<or> c \<in> set ''-._''"

definition p_char :: "char \<Rightarrow> bool" where
  "p_char c \<longleftrightarrow> id_char c \<or> c = CHR ''~'' \<or> c \<in> sub_delims \<or> c \<in> {CHR '':'', CHR ''@''}"

text \<open>Strings of allowed characters and percent-encoded octets.\<close>

fun escaped_ok :: "(char \<Rightarrow> bool) \<Rightarrow> string \<Rightarrow> bool" where
  "escaped_ok P [] \<longleftrightarrow> True"
| "escaped_ok P (c # cs) \<longleftrightarrow>
    (if c = CHR ''%''
     then (case cs of a # b # ds \<Rightarrow> is_hexdig a \<and> is_hexdig b \<and> escaped_ok P ds | _ \<Rightarrow> False)
     else P c \<and> escaped_ok P cs)"

lemma charset_method: "didCharset c AND charMethod \<noteq> 0 \<longleftrightarrow> method_char c"
  by (simp add: didCharset_def char_flag_defs method_char_def is_lower_def is_num_def)

lemma charset_id: "didCharset c AND charID \<noteq> 0 \<longleftrightarrow> id_char c"
  by (simp add: didCharset_def char_flag_defs id_char_def is_lower_def is_upper_def is_num_def)

lemma charset_hex: "didCharset c AND charHex \<noteq> 0 \<longleftrightarrow> is_hexdig c"
  by (simp add: didCharset_def char_flag_defs is_hexdig_def is_num_def)

lemma charset_p: "didCharset c AND (charUnreserved OR charSubDelim) \<noteq> 0 \<longleftrightarrow> id_char c \<or> c = CHR ''~'' \<or> c \<in> sub_delims"
  by (simp add: didCharset_def char_flag_defs id_char_def sub_delims_def is_lower_def is_upper_def is_num_def)

section \<open>Scanning a segment\<close>

text \<open>
  In each state after the method name, characters up to the first one that ends the segment are
  scanned without a change of the state.
\<close>

lemma scan_char_eq:
  "scan_char s i flags st =
   (if s ! i \<noteq> CHR ''%'' then (if didCharset (s ! i) AND flags \<noteq> 0 then Inr (i, st) else Inl ErrInvalidIDChar)
    else if i + 2 < length s \<and> is_hexdig (s ! (i + 1)) \<and> is_hexdig (s ! (i + 2)) then Inr (i + 2, st)
    else Inl ErrInvalidIDChar)"
  by (simp add: scan_char_def validEscapedOr_def charset_hex [symmetric] not_le)

lemma drop_escape:
  assumes "i + 2 < length s"
  shows "drop i s = s ! i # s ! (i + 1) # s ! (i + 2) # drop (Suc (Suc (Suc i))) s"
  using assms by (simp add: Cons_nth_drop_Suc)

lemma parse_loop_segment:
  assumes step: "\<And>j. j < length s \<Longrightarrow> s ! j \<notin> stop \<Longrightarrow>
      parse_step s j st = (if s ! j \<in> extra then Inr (j, st) else scan_char s j flags st)"
    and P: "\<And>c. P c \<longleftrightarrow> c \<in> extra \<or> didCharset c AND flags \<noteq> 0"
    and extra: "CHR ''%'' \<notin> extra" and stop: "\<And>c. c \<in> stop \<Longrightarrow> \<not> is_hexdig c \<and> c \<noteq> CHR ''%''"
  shows "parse_loop s i st =
    (let seg = takeWhile (\<lambda>c. c \<notin> stop) (drop i s)
     in if escaped_ok P seg then parse_loop s (i + length seg) st else Inl ErrInvalidIDChar)"
proof (induction "length s - i" arbitrary: i rule: less_induct)
  case less
  show ?case
  proof (cases "i < length s \<and> s ! i \<notin> stop")
    case False
    then have "takeWhile (\<lambda>c. c \<notin> stop) (drop i s) = []"
      by (cases "i < length s") (simp_all add: Cons_nth_drop_Suc [symmetric])
    then show ?thesis by simp
  next
    case True
    then have i: "i < length s" "s ! i \<notin> stop" by auto
    have d: "drop i s = s ! i # drop (i + 1) s" using i by (simp add: Cons_nth_drop_Suc)
    have loop: "parse_loop s i st = sbind (parse_step s i st) (\<lambda>(next, st'). parse_loop s (next + 1) st')"
      using i by (simp add: parse_loop.simps [of s i])
    show ?thesis
    proof (cases "s ! i = CHR ''%''")
      case False
      then show ?thesis
        using less [of "i + 1"] i
        by (auto simp: loop step d scan_char_eq P Let_def)
    next
      case pct: True
      show ?thesis
      proof (cases "i + 2 < length s \<and> is_hexdig (s ! (i + 1)) \<and> is_hexdig (s ! (i + 2))")
        case True
        then have "s ! (i + 1) \<notin> stop" "s ! (i + 2) \<notin> stop" using stop by blast+
        moreover have "length s - Suc (Suc (Suc i)) < length s - i" using i(1) by linarith
        note less [OF this]
        ultimately show ?thesis
          using i True pct extra
          by (simp add: loop step scan_char_eq drop_escape Let_def add.assoc)
      next
        case False
        have "\<not> escaped_ok P (takeWhile (\<lambda>c. c \<notin> stop) (drop i s))"
        proof (cases "i + 2 < length s")
          case True
          with False show ?thesis using pct i by (auto simp: drop_escape)
        next
          case False
          then have "length (takeWhile (\<lambda>c. c \<notin> stop) (drop (i + 1) s)) < 2"
            using length_takeWhile_le [of _ "drop (i + 1) s"] by (intro le_less_trans [OF length_takeWhile_le]) simp
          then show ?thesis using pct i by (auto simp: d split: list.splits)
        qed
        then show ?thesis using False pct i extra by (auto simp: loop step scan_char_eq Let_def)
      qed
    qed
  qed
qed

definition path_char :: "char \<Rightarrow> bool" where
  "path_char c \<longleftrightarrow> p_char c \<or> c = CHR ''/''"

definition query_char :: "char \<Rightarrow> bool" where
  "query_char c \<longleftrightarrow> p_char c \<or> c \<in> {CHR ''/'', CHR ''?''}"

definition msid_char :: "char \<Rightarrow> bool" where
  "msid_char c \<longleftrightarrow> id_char c \<or> c = CHR '':''"

lemmas char_class_defs = path_char_def query_char_def msid_char_def p_char_def id_char_def sub_delims_def
  is_hexdig_def is_lower_def is_upper_def is_num_def

lemma takeWhile_stop: "length (takeWhile P xs) < length xs \<Longrightarrow> \<not> P (xs ! length (takeWhile P xs))"
  by (rule nth_length_takeWhile)

lemma parse_loop_end: "length s \<le> i \<Longrightarrow> parse_loop s i st = Inr st"
  by (simp add: parse_loop.simps [of s i])

lemma parse_loop_stop:
  assumes "j < length s" and "parse_step s j st = r"
  shows "parse_loop s j st = sbind r (\<lambda>(next, st'). parse_loop s (next + 1) st')"
  using assms by (simp add: parse_loop.simps [of s j])

lemma loop_fragment:
  assumes "ds_state st = stateFragment"
  shows "parse_loop s i st = (if escaped_ok query_char (drop i s) then Inr st else Inl ErrInvalidIDChar)"
proof -
  have "parse_loop s i st = (let seg = takeWhile (\<lambda>c. c \<notin> {}) (drop i s)
      in if escaped_ok query_char seg then parse_loop s (i + length seg) st else Inl ErrInvalidIDChar)"
    using assms
    by (intro parse_loop_segment [where extra = "{CHR ''/'', CHR ''?'', CHR '':'', CHR ''@''}" and
          flags = "charUnreserved OR charSubDelim"])
      (auto simp: parse_step_def charset_p query_char_def p_char_def)
  moreover have "takeWhile (\<lambda>c. c \<notin> {}) (drop i s) = drop i s" by (simp add: takeWhile_eq_all_conv)
  moreover have "parse_loop s (i + length (drop i s)) st = Inr st" by (rule parse_loop_end) simp
  ultimately show ?thesis by (simp only: Let_def)
qed

lemma query_stop:
  assumes "j < length s \<Longrightarrow> s ! j = CHR ''#''" and "ds_state st = stateQuery"
  shows "parse_loop s j st = (if j < length s
      then parse_loop s (j + 1) (st\<lparr>ds_fragmentStart := int j + 1, ds_state := stateFragment\<rparr>) else Inr st)"
  using assms parse_loop_stop [of j s st, OF _ refl] parse_loop_end [of s j st]
  by (auto simp: parse_step_def Let_def)

lemma loop_query:
  assumes "ds_state st = stateQuery"
  shows "parse_loop s i st =
    (let q = takeWhile (\<lambda>c. c \<noteq> CHR ''#'') (drop i s); j = i + length q
     in if \<not> escaped_ok query_char q then Inl ErrInvalidIDChar
        else if j < length s
        then parse_loop s (j + 1) (st\<lparr>ds_fragmentStart := int j + 1, ds_state := stateFragment\<rparr>)
        else Inr st)"
proof -
  let ?q = "takeWhile (\<lambda>c. c \<noteq> CHR ''#'') (drop i s)"
  let ?j = "i + length ?q"
  have "parse_loop s i st = (let seg = takeWhile (\<lambda>c. c \<notin> {CHR ''#''}) (drop i s)
      in if escaped_ok query_char seg then parse_loop s (i + length seg) st else Inl ErrInvalidIDChar)"
    using assms
    by (intro parse_loop_segment [where extra = "{CHR ''/'', CHR ''?'', CHR '':'', CHR ''@''}" and
          flags = "charUnreserved OR charSubDelim"])
      (auto simp: parse_step_def charset_p query_char_def p_char_def is_hexdig_def is_num_def)
  moreover have "s ! ?j = CHR ''#''" if "?j < length s"
    using takeWhile_stop [of "\<lambda>c. c \<noteq> CHR ''#''" "drop i s"] that by (simp add: less_diff_conv add.commute)
  then have "parse_loop s ?j st = (if ?j < length s
      then parse_loop s (?j + 1) (st\<lparr>ds_fragmentStart := int ?j + 1, ds_state := stateFragment\<rparr>) else Inr st)"
    using assms by (rule query_stop)
  ultimately show ?thesis
    by (cases "escaped_ok query_char ?q") (simp_all add: Let_def)
qed

lemma path_stop:
  assumes "j < length s \<Longrightarrow> s ! j = CHR ''?'' \<or> s ! j = CHR ''#''" and "ds_state st = statePath"
  shows "parse_loop s j st = (if j < length s
      then parse_loop s (j + 1)
        (if s ! j = CHR ''?'' then st\<lparr>ds_queryStart := int j + 1, ds_state := stateQuery\<rparr>
         else st\<lparr>ds_fragmentStart := int j + 1, ds_state := stateFragment\<rparr>) else Inr st)"
  using assms parse_loop_stop [of j s st, OF _ refl] parse_loop_end [of s j st] by (auto simp: parse_step_def)

lemma loop_path:
  assumes "ds_state st = statePath"
  shows "parse_loop s i st =
    (let p = takeWhile (\<lambda>c. c \<notin> {CHR ''?'', CHR ''#''}) (drop i s); j = i + length p
     in if \<not> escaped_ok path_char p then Inl ErrInvalidIDChar
        else if j < length s
        then parse_loop s (j + 1)
          (if s ! j = CHR ''?'' then st\<lparr>ds_queryStart := int j + 1, ds_state := stateQuery\<rparr>
           else st\<lparr>ds_fragmentStart := int j + 1, ds_state := stateFragment\<rparr>)
        else Inr st)"
proof -
  let ?p = "takeWhile (\<lambda>c. c \<notin> {CHR ''?'', CHR ''#''}) (drop i s)"
  let ?j = "i + length ?p"
  have "parse_loop s i st = (let seg = ?p
      in if escaped_ok path_char seg then parse_loop s (i + length seg) st else Inl ErrInvalidIDChar)"
    using assms
    by (intro parse_loop_segment [where extra = "{CHR ''/'', CHR '':'', CHR ''@''}" and
          flags = "charUnreserved OR charSubDelim"])
      (auto simp: parse_step_def charset_p path_char_def p_char_def is_hexdig_def is_num_def)
  moreover have "s ! ?j = CHR ''?'' \<or> s ! ?j = CHR ''#''" if "?j < length s"
    using takeWhile_stop [of "\<lambda>c. c \<notin> {CHR ''?'', CHR ''#''}" "drop i s"] that
    by (simp add: less_diff_conv add.commute)
  then have "parse_loop s ?j st = (if ?j < length s
      then parse_loop s (?j + 1)
        (if s ! ?j = CHR ''?'' then st\<lparr>ds_queryStart := int ?j + 1, ds_state := stateQuery\<rparr>
         else st\<lparr>ds_fragmentStart := int ?j + 1, ds_state := stateFragment\<rparr>) else Inr st)"
    using assms by (rule path_stop)
  ultimately show ?thesis
    by (cases "escaped_ok path_char ?p")
      (simp_all only: Let_def if_True if_False not_True_eq_False not_False_eq_True)
qed

text \<open>The state in which the scan goes on after the identifier.\<close>

definition after_id :: "string \<Rightarrow> nat \<Rightarrow> did_scan \<Rightarrow> did_scan" where
  "after_id s j st =
    (let st' = st\<lparr>ds_idEnd := int j, ds_url := True\<rparr>
     in if s ! j = CHR ''/'' then st'\<lparr>ds_pathStart := int j, ds_state := statePath\<rparr>
        else if s ! j = CHR ''?'' then st'\<lparr>ds_queryStart := int j + 1, ds_state := stateQuery\<rparr>
        else st'\<lparr>ds_fragmentStart := int j + 1, ds_state := stateFragment\<rparr>)"

lemma id_stop:
  assumes "j < length s \<Longrightarrow> s ! j = CHR ''/'' \<or> s ! j = CHR ''?'' \<or> s ! j = CHR ''#''"
    and "ds_state st = stateID" and "int j = ds_idStart st \<longleftrightarrow> x = []"
  shows "parse_loop s j st = (if j < length s
      then (if x = [] \<or> s ! (j - 1) = CHR '':'' then Inl ErrEmptyMethodSpecificID
            else if s ! j = CHR ''/'' \<and> j + 1 < length s \<and> s ! (j + 1) = CHR ''/'' then Inl ErrAuthorityNotPermitted
            else parse_loop s (j + 1) (after_id s j st))
      else Inr st)"
proof (cases "j < length s")
  case True
  then show ?thesis
    using assms parse_loop_stop [of j s st, OF _ refl] by (auto simp: parse_step_def after_id_def Let_def)
qed (simp add: parse_loop_end)

lemma loop_id:
  assumes "ds_state st = stateID" and "ds_idStart st = int i"
  shows "parse_loop s i st =
    (let x = takeWhile (\<lambda>c. c \<notin> {CHR ''/'', CHR ''?'', CHR ''#''}) (drop i s); j = i + length x
     in if \<not> escaped_ok msid_char x then Inl ErrInvalidIDChar
        else if j < length s
        then (if x = [] \<or> s ! (j - 1) = CHR '':'' then Inl ErrEmptyMethodSpecificID
              else if s ! j = CHR ''/'' \<and> j + 1 < length s \<and> s ! (j + 1) = CHR ''/'' then Inl ErrAuthorityNotPermitted
              else parse_loop s (j + 1) (after_id s j st))
        else Inr st)"
proof -
  let ?x = "takeWhile (\<lambda>c. c \<notin> {CHR ''/'', CHR ''?'', CHR ''#''}) (drop i s)"
  let ?j = "i + length ?x"
  have "parse_loop s i st = (let seg = ?x
      in if escaped_ok msid_char seg then parse_loop s (i + length seg) st else Inl ErrInvalidIDChar)"
    using assms
    by (intro parse_loop_segment [where extra = "{CHR '':''}" and flags = charID])
      (auto simp: parse_step_def charset_id msid_char_def is_hexdig_def is_num_def)
  moreover have "s ! ?j = CHR ''/'' \<or> s ! ?j = CHR ''?'' \<or> s ! ?j = CHR ''#''" if "?j < length s"
    using takeWhile_stop [of "\<lambda>c. c \<notin> {CHR ''/'', CHR ''?'', CHR ''#''}" "drop i s"] that
    by (simp add: less_diff_conv add.commute)
  moreover have "int ?j = ds_idStart st \<longleftrightarrow> ?x = []" using assms(2) by simp
  note stop = id_stop [OF _ assms(1) this]
  ultimately show ?thesis by (simp add: Let_def stop)
qed

lemma loop_method:
  assumes "ds_state st = stateMethod" and "4 \<le> i"
  shows "parse_loop s i st =
    (let m = takeWhile (\<lambda>c. c \<noteq> CHR '':'') (drop i s); j = i + length m
     in if \<not> list_all method_char m then Inl ErrInvalidMethodName
        else if j < length s
        then (if j = 4 then Inl ErrInvalidMethodName
              else parse_loop s (j + 1) (st\<lparr>ds_methodEnd := int j, ds_idStart := int j + 1, ds_state := stateID\<rparr>))
        else Inr st)"
  using assms(2)
proof (induction "length s - i" arbitrary: i rule: less_induct)
  case less
  show ?case
  proof (cases "i < length s")
    case True
    then have d: "drop i s = s ! i # drop (i + 1) s" by (simp add: Cons_nth_drop_Suc)
    have loop: "parse_loop s i st = sbind (parse_step s i st) (\<lambda>(next, st'). parse_loop s (next + 1) st')"
      using True by (simp add: parse_loop.simps [of s i])
    show ?thesis
    proof (cases "s ! i = CHR '':''")
      case colon: True
      then show ?thesis using True assms(1) by (simp add: loop d parse_step_def Let_def)
    next
      case False
      have "length s - (i + 1) < length s - i" "4 \<le> i + 1" using True less.prems by simp_all
      note less.hyps [OF this]
      moreover have "didCharset (s ! i) AND charMethod = 0 \<longleftrightarrow> \<not> method_char (s ! i)"
        using charset_method by blast
      ultimately show ?thesis using False True assms(1) less.prems
        by (simp add: loop d parse_step_def Let_def)
    qed
  qed (simp add: parse_loop.simps [of s i])
qed

section \<open>The parser accepts the grammar\<close>

definition did_syntax :: "string \<Rightarrow> string \<Rightarrow> string \<Rightarrow> string option \<Rightarrow> string option \<Rightarrow> bool" where
  "did_syntax m x p q f \<longleftrightarrow>
    m \<noteq> [] \<and> list_all method_char m \<and>
    x \<noteq> [] \<and> last x \<noteq> CHR '':'' \<and> escaped_ok msid_char x \<and>
    (p \<noteq> [] \<longrightarrow> hd p = CHR ''/'' \<and> (tl p \<noteq> [] \<longrightarrow> hd (tl p) \<noteq> CHR ''/'')) \<and> escaped_ok path_char p \<and>
    (case q of None \<Rightarrow> True | Some y \<Rightarrow> escaped_ok query_char y) \<and>
    (case f of None \<Rightarrow> True | Some y \<Rightarrow> escaped_ok query_char y)"

definition fragment_part :: "string option \<Rightarrow> string" where
  "fragment_part f = (case f of None \<Rightarrow> [] | Some y \<Rightarrow> CHR ''#'' # y)"

definition query_part :: "string option \<Rightarrow> string" where
  "query_part q = (case q of None \<Rightarrow> [] | Some y \<Rightarrow> CHR ''?'' # y)"

definition did_tail :: "string \<Rightarrow> string option \<Rightarrow> string option \<Rightarrow> string" where
  "did_tail p q f = p @ query_part q @ fragment_part f"

lemmas tail_part_defs = did_tail_def query_part_def fragment_part_def

definition did_unparse :: "string \<Rightarrow> string \<Rightarrow> string \<Rightarrow> string option \<Rightarrow> string option \<Rightarrow> string" where
  "did_unparse m x p q f = ''did:'' @ m @ '':'' @ x @ did_tail p q f"

definition did_of :: "string \<Rightarrow> string \<Rightarrow> string \<Rightarrow> string option \<Rightarrow> string option \<Rightarrow> DID" where
  "did_of m x p q f = \<lparr>did_original = did_unparse m x p q f, did_method = m, did_methodSpecificID = x, did_path = p,
    did_query = (case q of None \<Rightarrow> [] | Some y \<Rightarrow> y), did_fragment = (case f of None \<Rightarrow> [] | Some y \<Rightarrow> y),
    did_isURL = (p \<noteq> [] \<or> q \<noteq> None \<or> f \<noteq> None)\<rparr>"

lemma escaped_ok_chars: "escaped_ok P xs \<Longrightarrow> c \<in> set xs \<Longrightarrow> P c \<or> c = CHR ''%'' \<or> is_hexdig c"
  by (induction P xs rule: escaped_ok.induct) (auto split: if_splits list.splits)

lemma takeWhile_segment:
  assumes "\<And>c. c \<in> set xs \<Longrightarrow> c \<notin> stop" and "rest = [] \<or> hd rest \<in> stop"
  shows "takeWhile (\<lambda>c. c \<notin> stop) (xs @ rest) = xs"
  using assms by (cases rest) (auto simp: takeWhile_append2)

lemma msid_no_stop: "escaped_ok msid_char x \<Longrightarrow> c \<in> set x \<Longrightarrow> c \<notin> {CHR ''/'', CHR ''?'', CHR ''#''}"
  by (drule (1) escaped_ok_chars) (auto simp: char_class_defs)

lemma path_no_stop: "escaped_ok path_char x \<Longrightarrow> c \<in> set x \<Longrightarrow> c \<notin> {CHR ''?'', CHR ''#''}"
  by (drule (1) escaped_ok_chars) (auto simp: char_class_defs)

lemma query_no_stop: "escaped_ok query_char x \<Longrightarrow> c \<in> set x \<Longrightarrow> c \<noteq> CHR ''#''"
  by (drule (1) escaped_ok_chars) (auto simp: char_class_defs)

lemma method_no_colon: "list_all method_char m \<Longrightarrow> c \<in> set m \<Longrightarrow> c \<noteq> CHR '':''"
  by (auto simp: list_all_iff method_char_def is_lower_def is_num_def)

lemma fragment_part_hd: "fragment_part f = [] \<or> hd (fragment_part f) = CHR ''#''"
  by (simp add: fragment_part_def split: option.splits)

text \<open>Where the scan ends after each part of the tail.\<close>

definition with_fragment :: "nat \<Rightarrow> string option \<Rightarrow> did_scan \<Rightarrow> did_scan" where
  "with_fragment j f st =
    (case f of None \<Rightarrow> st | Some _ \<Rightarrow> st\<lparr>ds_fragmentStart := int j + 1, ds_state := stateFragment\<rparr>)"

lemma scan_query:
  assumes "ds_state st = stateQuery" and "drop i s = y @ fragment_part f" and "i \<le> length s"
    and "escaped_ok query_char y" and "\<And>z. f = Some z \<Longrightarrow> escaped_ok query_char z"
  shows "parse_loop s i st = Inr (with_fragment (i + length y) f st)"
proof -
  have "takeWhile (\<lambda>c. c \<notin> {CHR ''#''}) (y @ fragment_part f) = y"
    using assms(4) query_no_stop fragment_part_hd [of f] by (intro takeWhile_segment) auto
  then have q: "takeWhile (\<lambda>c. c \<noteq> CHR ''#'') (drop i s) = y" by (simp add: assms(2))
  have len: "length s = i + length y + length (fragment_part f)"
    using arg_cong [OF assms(2), of length] assms(3) by simp
  show ?thesis
  proof (cases f)
    case None
    then show ?thesis
      using assms(1,4) len by (simp add: loop_query q Let_def fragment_part_def with_fragment_def)
  next
    case (Some z)
    have "drop (i + length y + 1) s = drop (length y + 1) (drop i s)" by (simp add: add.commute add.left_commute)
    also have "\<dots> = z" by (simp add: assms(2) Some fragment_part_def)
    finally show ?thesis
      using assms(1,4,5) len Some
      by (simp add: loop_query [OF assms(1)] q Let_def fragment_part_def with_fragment_def loop_fragment)
  qed
qed

definition with_query :: "nat \<Rightarrow> string option \<Rightarrow> string option \<Rightarrow> did_scan \<Rightarrow> did_scan" where
  "with_query j q f st =
    (case q of
       None \<Rightarrow> with_fragment j f st
     | Some y \<Rightarrow> with_fragment (j + 1 + length y) f (st\<lparr>ds_queryStart := int j + 1, ds_state := stateQuery\<rparr>))"

lemma scan_after:
  assumes "drop j s = query_part q @ fragment_part f" and "drop j s \<noteq> []"
    and "\<And>z. q = Some z \<Longrightarrow> escaped_ok query_char z" and "\<And>z. f = Some z \<Longrightarrow> escaped_ok query_char z"
  shows "parse_loop s (j + 1)
      (if s ! j = CHR ''?'' then st\<lparr>ds_queryStart := int j + 1, ds_state := stateQuery\<rparr>
       else st\<lparr>ds_fragmentStart := int j + 1, ds_state := stateFragment\<rparr>) = Inr (with_query j q f st)"
proof -
  have j: "j < length s" using assms(2) by simp
  then have d: "s ! j # drop (j + 1) s = query_part q @ fragment_part f"
    using assms(1) by (simp add: Cons_nth_drop_Suc)
  show ?thesis
  proof (cases q)
    case (Some y)
    with d have "s ! j = CHR ''?''" "drop (j + 1) s = y @ fragment_part f" by (simp_all add: query_part_def)
    with j Some assms(3,4) show ?thesis by (simp add: scan_query with_query_def)
  next
    case None
    with assms(1,2) obtain z where z: "f = Some z" by (cases f) (auto simp: query_part_def fragment_part_def)
    with None d have "s ! j = CHR ''#''" "drop (j + 1) s = z" by (simp_all add: query_part_def fragment_part_def)
    with None z assms(4) show ?thesis by (simp add: loop_fragment with_query_def with_fragment_def)
  qed
qed

definition with_path :: "nat \<Rightarrow> string \<Rightarrow> string option \<Rightarrow> string option \<Rightarrow> did_scan \<Rightarrow> did_scan" where
  "with_path e p q f st =
    (let st' = st\<lparr>ds_idEnd := int e, ds_url := True\<rparr>
     in if p = [] then with_query e q f st'
        else with_query (e + length p) q f (st'\<lparr>ds_pathStart := int e, ds_state := statePath\<rparr>))"

lemma query_fragment_hd: "query_part q @ fragment_part f = [] \<or> hd (query_part q @ fragment_part f) \<in> {CHR ''?'', CHR ''#''}"
  by (simp add: query_part_def fragment_part_def split: option.splits)

lemma scan_path:
  assumes "ds_state st = statePath" and "drop i s = p @ query_part q @ fragment_part f" and "i \<le> length s"
    and "escaped_ok path_char p"
    and "\<And>z. q = Some z \<Longrightarrow> escaped_ok query_char z" and "\<And>z. f = Some z \<Longrightarrow> escaped_ok query_char z"
  shows "parse_loop s i st = Inr (with_query (i + length p) q f st)"
proof -
  let ?j = "i + length p"
  have p: "takeWhile (\<lambda>c. c \<notin> {CHR ''?'', CHR ''#''}) (drop i s) = p"
    unfolding assms(2) using path_no_stop [OF assms(4)] query_fragment_hd by (intro takeWhile_segment) auto
  have "drop ?j s = drop (length p) (drop i s)" by (simp add: add.commute)
  then have d: "drop ?j s = query_part q @ fragment_part f" by (simp add: assms(2))
  show ?thesis
  proof (cases "?j < length s")
    case True
    then have "drop ?j s \<noteq> []" by simp
    from scan_after [OF d this assms(5,6), of st] True assms(1,4) p show ?thesis
      by (simp only: loop_path [OF assms(1)] Let_def) simp
  next
    case False
    then have "query_part q @ fragment_part f = []" using d by simp
    then have "q = None" "f = None" by (auto simp: query_part_def fragment_part_def split: option.splits)
    with False assms(4) p show ?thesis
      by (simp only: loop_path [OF assms(1)] Let_def) (simp add: with_query_def with_fragment_def)
  qed
qed

lemma did_syntax_parts:
  assumes "did_syntax m x p q f"
  shows "\<And>z. q = Some z \<Longrightarrow> escaped_ok query_char z" "\<And>z. f = Some z \<Longrightarrow> escaped_ok query_char z"
  using assms by (auto simp: did_syntax_def)

lemma scan_tail:
  assumes "drop e s = did_tail p q f" and "drop e s \<noteq> []" and "did_syntax m x p q f"
  shows "parse_loop s (e + 1) (after_id s e st) = Inr (with_path e p q f st)"
proof (cases p)
  case Nil
  let ?st = "st\<lparr>ds_idEnd := int e, ds_url := True\<rparr>"
  have "s ! e = hd (drop e s)" using assms(2) by (simp add: hd_drop_conv_nth)
  then have "s ! e \<noteq> CHR ''/''"
    using query_fragment_hd [of q f] assms(1,2) Nil by (auto simp: did_tail_def)
  then have "after_id s e st = (if s ! e = CHR ''?'' then ?st\<lparr>ds_queryStart := int e + 1, ds_state := stateQuery\<rparr>
       else ?st\<lparr>ds_fragmentStart := int e + 1, ds_state := stateFragment\<rparr>)"
    by (simp add: after_id_def Let_def)
  moreover have "drop e s = query_part q @ fragment_part f" using assms(1) Nil by (simp add: did_tail_def)
  note scan_after [OF this assms(2) did_syntax_parts [OF assms(3)], of ?st]
  ultimately show ?thesis using Nil by (simp add: with_path_def Let_def)
next
  case (Cons c cs)
  have e: "e < length s" using assms(2) by simp
  then have d: "s ! e # drop (e + 1) s = p @ query_part q @ fragment_part f"
    using assms(1) by (simp add: Cons_nth_drop_Suc did_tail_def)
  have c: "c = CHR ''/''" "escaped_ok path_char cs" using assms(3) Cons by (auto simp: did_syntax_def)
  with d Cons have "s ! e = CHR ''/''" "drop (e + 1) s = cs @ query_part q @ fragment_part f" by simp_all
  then show ?thesis
    using scan_path [of "after_id s e st" "e + 1" s cs q f, OF _ _ _ c(2) did_syntax_parts [OF assms(3)]] Cons e
    by (simp add: after_id_def with_path_def Let_def)
qed

lemma did_tail_hd: "did_syntax m x p q f \<Longrightarrow> did_tail p q f = [] \<or> hd (did_tail p q f) \<in> {CHR ''/'', CHR ''?'', CHR ''#''}"
  by (cases p) (auto simp: did_syntax_def tail_part_defs split: option.splits)

lemma did_tail_no_authority: "did_syntax m x p q f \<Longrightarrow> did_tail p q f \<noteq> CHR ''/'' # CHR ''/'' # r"
  using query_fragment_hd [of q f]
  by (cases p; cases "tl p") (auto simp: did_syntax_def did_tail_def)

lemma drop_two: "i + 1 < length s \<Longrightarrow> drop i s = s ! i # s ! (i + 1) # drop (i + 2) s"
  using Cons_nth_drop_Suc [of i s] Cons_nth_drop_Suc [of "Suc i" s] by simp

lemma scan_unparse:
  assumes "did_syntax m x p q f"
  defines "s \<equiv> did_unparse m x p q f" and "k \<equiv> 5 + length m"
  defines "st \<equiv> initial_scan\<lparr>ds_methodEnd := int (4 + length m), ds_idStart := int k, ds_state := stateID\<rparr>"
  shows "parse_loop s 4 initial_scan =
    Inr (if did_tail p q f = [] then st else with_path (k + length x) p q f st)"
proof -
  let ?e = "k + length x"
  have m: "list_all method_char m" "m \<noteq> []" and x: "escaped_ok msid_char x" "x \<noteq> []" "last x \<noteq> CHR '':''"
    using assms(1) by (auto simp: did_syntax_def)
  have d4: "drop 4 s = m @ CHR '':'' # x @ did_tail p q f" by (simp add: s_def did_unparse_def)
  have "takeWhile (\<lambda>c. c \<notin> {CHR '':''}) (drop 4 s) = m"
    unfolding d4 using method_no_colon [OF m(1)] by (intro takeWhile_segment) auto
  moreover have "4 + length m < length s" by (simp add: s_def did_unparse_def)
  ultimately have "parse_loop s 4 initial_scan = parse_loop s k st"
    using m by (subst loop_method) (simp_all add: initial_scan_def Let_def st_def k_def)
  moreover have dk: "drop k s = x @ did_tail p q f"
  proof -
    have "drop k s = drop (Suc (length m)) (drop 4 s)" by (simp add: k_def)
    then show ?thesis by (simp add: d4)
  qed
  have tk: "takeWhile (\<lambda>c. c \<notin> {CHR ''/'', CHR ''?'', CHR ''#''}) (drop k s) = x"
    unfolding dk using msid_no_stop [OF x(1)] did_tail_hd [OF assms(1)] by (intro takeWhile_segment) blast+
  moreover have "?e < length s \<longleftrightarrow> did_tail p q f \<noteq> []" by (simp add: s_def did_unparse_def k_def)
  moreover have "s ! (?e - 1) \<noteq> CHR '':''"
  proof -
    have "s = (''did:'' @ m @ '':'' @ butlast x) @ last x # did_tail p q f"
      using x(2) by (simp add: s_def did_unparse_def)
    moreover have "?e - 1 = length (''did:'' @ m @ '':'' @ butlast x)" using x(2) by (simp add: k_def)
    ultimately have "s ! (?e - 1) = last x" by (simp only: nth_append_length)
    with x(3) show ?thesis by simp
  qed
  moreover have de: "drop ?e s = did_tail p q f"
  proof -
    have "drop ?e s = drop (length x) (drop k s)" by (simp add: add.commute)
    then show ?thesis by (simp add: dk)
  qed
  moreover have "\<not> (s ! ?e = CHR ''/'' \<and> ?e + 1 < length s \<and> s ! (?e + 1) = CHR ''/'')"
  proof
    assume a: "s ! ?e = CHR ''/'' \<and> ?e + 1 < length s \<and> s ! (?e + 1) = CHR ''/''"
    then have "drop ?e s = s ! ?e # s ! (?e + 1) # drop (?e + 2) s" by (intro drop_two) simp
    with a de did_tail_no_authority [OF assms(1)] show False by metis
  qed
  moreover have "ds_state st = stateID" "ds_idStart st = int k" by (simp_all add: st_def)
  note loop_id [OF this, of s, unfolded tk Let_def]
  ultimately show ?thesis
    using x(1,2) scan_tail [OF de _ assms(1), of st] by (cases "did_tail p q f = []") auto
qed

lemma scan_result_unparse:
  assumes "did_syntax m x p q f"
  defines "s \<equiv> did_unparse m x p q f" and "k \<equiv> 5 + length m"
  defines "st \<equiv> initial_scan\<lparr>ds_methodEnd := int (4 + length m), ds_idStart := int k, ds_state := stateID\<rparr>"
  shows "scan_result s (if did_tail p q f = [] then st else with_path (k + length x) p q f st) = Inr (did_of m x p q f)"
proof -
  have x: "x \<noteq> []" "last x \<noteq> CHR '':''" using assms(1) by (auto simp: did_syntax_def)
  have sub: "lo = int (length a) \<Longrightarrow> hi = int (length a) + int (length b) \<Longrightarrow> substring s lo hi = b"
    if "s = a @ b @ c" for a b c lo hi
    using that by (simp add: substring_def nat_add_distrib)
  have s: "s = ''did:'' @ m @ '':'' @ x @ p @ query_part q @ fragment_part f"
    by (simp add: s_def did_unparse_def did_tail_def)
  have meth: "hi = 4 + int (length m) \<Longrightarrow> substring s 4 hi = m" for hi
    using sub [of "''did:''" m "'':'' @ x @ did_tail p q f" 4 hi] by (simp add: s did_tail_def)
  have msid: "lo = 5 + int (length m) \<Longrightarrow> hi = lo + int (length x) \<Longrightarrow> substring s lo hi = x" for lo hi
    using sub [of "''did:'' @ m @ '':''" x "did_tail p q f" lo hi] by (simp add: s did_tail_def)
  have path: "lo = 5 + int (length m + length x) \<Longrightarrow> hi = lo + int (length p) \<Longrightarrow> substring s lo hi = p" for lo hi
    using sub [of "''did:'' @ m @ '':'' @ x" p "query_part q @ fragment_part f" lo hi] by (simp add: s)
  have query: "lo = 6 + int (length m + length x + length p) \<Longrightarrow> hi = lo + int (length y) \<Longrightarrow> substring s lo hi = y"
    if "q = Some y" for y lo hi
    using sub [of "''did:'' @ m @ '':'' @ x @ p @ ''?''" y "fragment_part f" lo hi] that
    by (simp add: s query_part_def)
  have fragment: "lo = 6 + int (length m + length x + length p + length (query_part q)) \<Longrightarrow> hi = lo + int (length z) \<Longrightarrow>
      substring s lo hi = z" if "f = Some z" for z lo hi
    using sub [of "''did:'' @ m @ '':'' @ x @ p @ query_part q @ ''#''" z "[]" lo hi] that
    by (simp add: s fragment_part_def)
  have len: "length s = 5 + length m + length x + length p + length (query_part q) + length (fragment_part f)"
    by (simp add: s)
  have lst: "s ! (length s - 1) = last x" if "did_tail p q f = []"
    using that x(1) by (simp add: s_def did_unparse_def last_conv_nth nth_append)
  have head: "substring s 4 (4 + int (length m)) = m"
    "substring s (5 + int (length m)) (5 + int (length m) + int (length x)) = x"
    by (rule meth msid; simp)+
  have us: "did_unparse m x p q f = s" by (simp add: s_def)
  show ?thesis
  proof (cases "did_tail p q f = []")
    case True
    then have "p = []" "q = None" "f = None" by (auto simp: tail_part_defs split: option.splits)
    with True x lst head len us show ?thesis
      by (simp add: scan_result_def st_def k_def initial_scan_def did_of_def Let_def tail_part_defs)
  next
    case False
    define r where "r = with_path (k + length x) p q f st"
    have st: "ds_methodEnd r = 4 + int (length m)" "ds_idStart r = 5 + int (length m)"
      "ds_idEnd r = 5 + int (length m) + int (length x)" "ds_url r"
      "ds_pathStart r = (if p = [] then - 1 else 5 + int (length m + length x))"
      "ds_queryStart r = (if q = None then - 1 else 6 + int (length m + length x + length p))"
      "ds_fragmentStart r = (if f = None then - 1 else 6 + int (length m + length x + length p + length (query_part q)))"
      by (auto simp: r_def st_def k_def initial_scan_def with_path_def with_query_def with_fragment_def query_part_def Let_def
          split: option.splits)
    have "ds_state r \<noteq> stateMethod"
      using False by (auto simp: r_def with_path_def with_query_def with_fragment_def Let_def tail_part_defs
          split: option.splits)
    moreover have "0 < length x" using x(1) by simp
    then have "ds_idStart r \<noteq> int (length s)" using len st(2) by linarith
    moreover have "p \<noteq> [] \<or> q \<noteq> None \<or> f \<noteq> None" using False by (auto simp: tail_part_defs)
    moreover have "substring s (5 + int (length m + length x))
        (if q \<noteq> None then 6 + int (length m + length x + length p) - 1
         else if f \<noteq> None then 6 + int (length m + length x + length p + length (query_part q)) - 1 else int (length s)) = p"
      by (rule path) (auto simp: len query_part_def fragment_part_def)
    moreover have "substring s (6 + int (length m + length x + length p))
        (if f \<noteq> None then 6 + int (length m + length x + length p + length (query_part q)) - 1 else int (length s)) = y"
      if "q = Some y" for y
      using that by (intro query) (auto simp: len query_part_def fragment_part_def)
    moreover have "substring s (6 + int (length m + length x + length p + length (query_part q))) (int (length s)) = z"
      if "f = Some z" for z
      using that by (intro fragment) (auto simp: len fragment_part_def)
    ultimately show ?thesis
      using False head us st
      unfolding r_def [symmetric]
      by (cases q; cases f; cases "p = []") (simp_all add: scan_result_def Let_def did_of_def)
  qed
qed

lemma takeWhile_rest:
  "drop i s = takeWhile P (drop i s) @ drop (i + length (takeWhile P (drop i s))) s"
  using takeWhile_dropWhile_id [of P "drop i s"] by (simp add: dropWhile_eq_drop add.commute)

lemma query_inverse:
  assumes "parse_loop s i st = Inr st'" and "ds_state st = stateQuery"
  obtains y f where "drop i s = y @ fragment_part f" "escaped_ok query_char y" "\<And>z. f = Some z \<Longrightarrow> escaped_ok query_char z"
proof -
  let ?q = "takeWhile (\<lambda>c. c \<noteq> CHR ''#'') (drop i s)"
  let ?j = "i + length ?q"
  have ok: "escaped_ok query_char ?q" using assms by (simp add: loop_query Let_def split: if_splits)
  have d: "drop i s = ?q @ drop ?j s" by (rule takeWhile_rest)
  show thesis
  proof (cases "?j < length s")
    case True
    then have "s ! ?j = CHR ''#''"
      using takeWhile_stop [of "\<lambda>c. c \<noteq> CHR ''#''" "drop i s"] by (simp add: less_diff_conv add.commute)
    then have "drop ?j s = fragment_part (Some (drop (?j + 1) s))"
      using Cons_nth_drop_Suc [OF True] by (simp only: fragment_part_def option.case Suc_eq_plus1)
    moreover have "escaped_ok query_char (drop (?j + 1) s)"
      using assms ok True by (simp add: loop_query Let_def loop_fragment split: if_splits)
    ultimately show ?thesis using that [of ?q "Some (drop (?j + 1) s)"] d ok by simp
  next
    case False
    then show ?thesis using that [of ?q None] d ok by (simp add: fragment_part_def)
  qed
qed

lemma after_inverse:
  assumes "parse_loop s (j + 1)
      (if s ! j = CHR ''?'' then st\<lparr>ds_queryStart := int j + 1, ds_state := stateQuery\<rparr>
       else st\<lparr>ds_fragmentStart := int j + 1, ds_state := stateFragment\<rparr>) = Inr st'"
    and "j < length s" and "s ! j = CHR ''?'' \<or> s ! j = CHR ''#''"
  obtains q f where "drop j s = query_part q @ fragment_part f"
    "\<And>z. q = Some z \<Longrightarrow> escaped_ok query_char z" "\<And>z. f = Some z \<Longrightarrow> escaped_ok query_char z"
proof -
  have d: "drop j s = s ! j # drop (j + 1) s" using assms(2) by (simp add: Cons_nth_drop_Suc)
  show thesis
  proof (cases "s ! j = CHR ''?''")
    case True
    have "ds_state (st\<lparr>ds_queryStart := int j + 1, ds_state := stateQuery\<rparr>) = stateQuery" by simp
    with assms(1) True obtain y f where "drop (j + 1) s = y @ fragment_part f" "escaped_ok query_char y"
      "\<And>z. f = Some z \<Longrightarrow> escaped_ok query_char z"
      by (auto elim: query_inverse)
    then show ?thesis using that [of "Some y" f] d True by (simp add: query_part_def)
  next
    case False
    then have "escaped_ok query_char (drop (j + 1) s)" using assms(1) by (simp add: loop_fragment split: if_splits)
    then show ?thesis using that [of None "Some (drop (j + 1) s)"] d False assms(3)
      by (simp add: query_part_def fragment_part_def)
  qed
qed

lemma path_inverse:
  assumes "parse_loop s i st = Inr st'" and "ds_state st = statePath"
  obtains p q f where "drop i s = p @ query_part q @ fragment_part f" "escaped_ok path_char p"
    "\<And>z. q = Some z \<Longrightarrow> escaped_ok query_char z" "\<And>z. f = Some z \<Longrightarrow> escaped_ok query_char z"
proof -
  let ?p = "takeWhile (\<lambda>c. c \<notin> {CHR ''?'', CHR ''#''}) (drop i s)"
  let ?j = "i + length ?p"
  note loop = assms(1) [unfolded loop_path [OF assms(2)] Let_def]
  have ok: "escaped_ok path_char ?p" using loop by (rule contrapos_pp) simp
  have d: "drop i s = ?p @ drop ?j s" by (rule takeWhile_rest)
  show thesis
  proof (cases "?j < length s")
    case True
    then have "s ! ?j = CHR ''?'' \<or> s ! ?j = CHR ''#''"
      using takeWhile_stop [of "\<lambda>c. c \<notin> {CHR ''?'', CHR ''#''}" "drop i s"] by (simp add: less_diff_conv add.commute)
    moreover have "parse_loop s (?j + 1)
        (if s ! ?j = CHR ''?'' then st\<lparr>ds_queryStart := int ?j + 1, ds_state := stateQuery\<rparr>
         else st\<lparr>ds_fragmentStart := int ?j + 1, ds_state := stateFragment\<rparr>) = Inr st'"
      using loop by (simp only: ok True if_True if_False not_True_eq_False)
    ultimately show ?thesis
      using that [of ?p] d ok by (elim after_inverse [OF _ True]) metis+
  next
    case False
    then show ?thesis using that [of ?p None None] d ok by (simp add: query_part_def fragment_part_def)
  qed
qed

lemma did_parse_unparse:
  assumes "did_syntax m x p q f"
  shows "did_parse (did_unparse m x p q f) = Inr (did_of m x p q f)"
proof -
  have "did_unparse m x p q f = CHR ''d'' # CHR ''i'' # CHR ''d'' # CHR '':'' # m @ '':'' @ x @ did_tail p q f"
    by (simp add: did_unparse_def)
  then have "did_parse (did_unparse m x p q f) =
      sbind (parse_loop (did_unparse m x p q f) 4 initial_scan) (scan_result (did_unparse m x p q f))"
    by (simp add: did_parse_def)
  then show ?thesis by (simp only: scan_unparse [OF assms] scan_result_unparse [OF assms] sbind_simps)
qed

lemma tail_inverse:
  assumes "parse_loop s (e + 1) (after_id s e st) = Inr st'" and "e < length s"
    and "s ! e = CHR ''/'' \<or> s ! e = CHR ''?'' \<or> s ! e = CHR ''#''"
    and "\<not> (s ! e = CHR ''/'' \<and> e + 1 < length s \<and> s ! (e + 1) = CHR ''/'')"
    and "m \<noteq> []" "list_all method_char m" "x \<noteq> []" "last x \<noteq> CHR '':''" "escaped_ok msid_char x"
  obtains p q f where "drop e s = did_tail p q f" "did_syntax m x p q f"
proof (cases "s ! e = CHR ''/''")
  case True
  then have "ds_state (after_id s e st) = statePath" by (simp add: after_id_def Let_def)
  with assms(1) obtain p q f where p: "drop (e + 1) s = p @ query_part q @ fragment_part f" "escaped_ok path_char p"
    "\<And>z. q = Some z \<Longrightarrow> escaped_ok query_char z" "\<And>z. f = Some z \<Longrightarrow> escaped_ok query_char z"
    by (auto elim: path_inverse)
  have "drop e s = s ! e # drop (e + 1) s" using assms(2) by (simp add: Cons_nth_drop_Suc)
  then have "drop e s = did_tail (CHR ''/'' # p) q f" using p(1) True by (simp add: did_tail_def)
  moreover have "hd p \<noteq> CHR ''/''" if "p \<noteq> []"
  proof -
    have "drop (e + 1) s \<noteq> []" using that p(1) by simp
    then have "e + 1 < length s" and "s ! (e + 1) = hd p" using p(1) that by (simp_all add: hd_drop_conv_nth [symmetric])
    with assms(4) True show ?thesis by simp
  qed
  then have "did_syntax m x (CHR ''/'' # p) q f"
    using assms(5-9) p(2-4) by (simp add: did_syntax_def path_char_def split: option.split)
  ultimately show thesis by (rule that)
next
  case False
  then have "after_id s e st = (if s ! e = CHR ''?''
      then st\<lparr>ds_idEnd := int e, ds_url := True, ds_queryStart := int e + 1, ds_state := stateQuery\<rparr>
      else st\<lparr>ds_idEnd := int e, ds_url := True, ds_fragmentStart := int e + 1, ds_state := stateFragment\<rparr>)"
    by (simp add: after_id_def Let_def)
  with assms(1) have "parse_loop s (e + 1) (if s ! e = CHR ''?''
      then st\<lparr>ds_idEnd := int e, ds_url := True, ds_queryStart := int e + 1, ds_state := stateQuery\<rparr>
      else st\<lparr>ds_idEnd := int e, ds_url := True, ds_fragmentStart := int e + 1, ds_state := stateFragment\<rparr>) = Inr st'"
    by simp
  then obtain q f where q: "drop e s = query_part q @ fragment_part f"
    "\<And>z. q = Some z \<Longrightarrow> escaped_ok query_char z" "\<And>z. f = Some z \<Longrightarrow> escaped_ok query_char z"
    using assms(2,3) False by (elim after_inverse) auto
  then show thesis
    using that [of "[]" q f] assms(5-9) by (simp add: did_syntax_def did_tail_def split: option.split)
qed

lemma id_inverse:
  assumes "parse_loop s k st = Inr st'" and "scan_result s st' = Inr d" and "k \<le> length s"
    and st: "ds_state st = stateID" "ds_idStart st = int k" "ds_idEnd st < 0"
    and m: "m \<noteq> []" "list_all method_char m"
  obtains x p q f where "drop k s = x @ did_tail p q f" "did_syntax m x p q f"
proof -
  define x where "x = takeWhile (\<lambda>c. c \<notin> {CHR ''/'', CHR ''?'', CHR ''#''}) (drop k s)"
  let ?e = "k + length x"
  note loop = assms(1) [unfolded loop_id [OF st(1,2)] Let_def, folded x_def]
  have ok: "escaped_ok msid_char x" using loop by (rule contrapos_pp) simp
  have d: "drop k s = x @ drop ?e s" unfolding x_def by (rule takeWhile_rest)
  have lst: "s ! (?e - 1) = last x" if "x \<noteq> []"
  proof -
    have "length x - 1 < length (drop k s)" using that d by (metis diff_less length_append length_greater_0_conv
        trans_less_add1 zero_less_one)
    then have "s ! (?e - 1) = drop k s ! (length x - 1)" using that by (simp add: Nat.add_diff_assoc Suc_leI)
    also have "\<dots> = last x" using that by (subst d) (simp add: nth_append last_conv_nth)
    finally show ?thesis .
  qed
  show thesis
  proof (cases "?e < length s")
    case True
    then have x: "x \<noteq> []" "s ! (?e - 1) \<noteq> CHR '':''"
        "\<not> (s ! ?e = CHR ''/'' \<and> ?e + 1 < length s \<and> s ! (?e + 1) = CHR ''/'')"
      and tl: "parse_loop s (?e + 1) (after_id s ?e st) = Inr st'"
      using loop ok by (auto split: if_splits)
    have "s ! ?e = CHR ''/'' \<or> s ! ?e = CHR ''?'' \<or> s ! ?e = CHR ''#''"
      using takeWhile_stop [of "\<lambda>c. c \<notin> {CHR ''/'', CHR ''?'', CHR ''#''}" "drop k s"] True
      unfolding x_def [symmetric] by (simp add: less_diff_conv add.commute)
    from tail_inverse [OF tl True this x(3) m x(1) _ ok] x lst obtain p q f
      where "drop ?e s = did_tail p q f" "did_syntax m x p q f" by metis
    then show ?thesis using that d by metis
  next
    case False
    then have "st' = st" using loop ok by simp
    moreover have dx: "drop k s = x" using False d by simp
    then have s: "drop k s = x" "?e = length s" using assms(3) by (simp, metis add_diff_inverse_nat length_drop not_less)
    ultimately have "x \<noteq> []" "last x \<noteq> CHR '':''"
      using assms(2) st lst by (auto simp: scan_result_def Let_def split: if_splits)
    then have "did_syntax m x [] None None" using m ok by (simp add: did_syntax_def)
    then show ?thesis using that [of x "[]" None None] s by (simp add: tail_part_defs)
  qed
qed

lemma parse_inverse:
  assumes "did_parse s = Inr d"
  obtains m x p q f where "did_syntax m x p q f" "s = did_unparse m x p q f"
proof -
  from assms have pre: "\<not> length s < 4" "s ! 0 = CHR ''d''" "s ! 1 = CHR ''i''" "s ! 2 = CHR ''d''" "s ! 3 = CHR '':''"
    by (auto simp: did_parse_def split: if_splits)
  with assms obtain st' where st': "parse_loop s 4 initial_scan = Inr st'" "scan_result s st' = Inr d"
    by (auto simp: did_parse_def sbind_Inr_conv)
  have "s = drop 0 s" by simp
  also have "\<dots> = s ! 0 # s ! 1 # drop 2 s" using pre(1) drop_two [of 0 s] by (simp add: numeral_2_eq_2)
  also have "drop 2 s = s ! 2 # s ! 3 # drop 4 s" using pre(1) drop_two [of 2 s] by simp
  finally have s4: "s = ''did:'' @ drop 4 s" by (simp only: pre append.simps)
  define m where "m = takeWhile (\<lambda>c. c \<noteq> CHR '':'') (drop 4 s)"
  let ?j = "4 + length m"
  let ?st = "initial_scan\<lparr>ds_methodEnd := int ?j, ds_idStart := int ?j + 1, ds_state := stateID\<rparr>"
  have "ds_state initial_scan = stateMethod" by (simp add: initial_scan_def)
  note loop = st'(1) [unfolded loop_method [OF this order_refl] Let_def, folded m_def]
  have ok: "list_all method_char m" using loop by (rule contrapos_pp) simp
  have j: "?j < length s"
  proof (rule ccontr)
    assume "\<not> ?thesis"
    then have "st' = initial_scan" using loop ok by simp
    then show False using st'(2) by (simp add: scan_result_def initial_scan_def)
  qed
  then have m: "m \<noteq> []" and rest: "parse_loop s (?j + 1) ?st = Inr st'" using loop ok by (auto split: if_splits)
  have "s ! ?j = CHR '':''"
    using takeWhile_stop [of "\<lambda>c. c \<noteq> CHR '':''" "drop 4 s"] j
    unfolding m_def [symmetric] by (simp add: less_diff_conv add.commute)
  then have "drop ?j s = '':'' @ drop (?j + 1) s" using Cons_nth_drop_Suc [OF j] by simp
  moreover have "drop 4 s = m @ drop ?j s" unfolding m_def by (rule takeWhile_rest)
  ultimately have s: "s = ''did:'' @ m @ '':'' @ drop (?j + 1) s" using s4 by metis
  have "ds_state ?st = stateID" "ds_idStart ?st = int (?j + 1)" "ds_idEnd ?st < 0" "?j + 1 \<le> length s"
    using j by (simp_all add: initial_scan_def)
  from id_inverse [OF rest st'(2) this(4,1,2,3) m ok] obtain x p q f
    where "drop (?j + 1) s = x @ did_tail p q f" "did_syntax m x p q f" by metis
  then show thesis using that [of m x p q f] s by (simp add: did_unparse_def)
qed

text \<open>C8: the DID parser, a hand-written one-pass state machine, is exactly the grammar of DID URLs. \<open>did_Parse\<close>
  succeeds on a string precisely when it can be written \<^verbatim>\<open>did:method:id path ?query #fragment\<close> with a non-empty
  lower-case/digit method name, a non-empty method-specific identifier that does not end in a colon, a path that
  does not start with two slashes, and well-formed percent escapes; and the record it returns then holds exactly
  those parts, the original string, and whether it was a URL.\<close>

theorem did_Parse_exact:
  "did_Parse s = Inr d \<longleftrightarrow>
    (\<exists>m x p q f. did_syntax m x p q f \<and> s = did_unparse m x p q f \<and> d = did_of m x p q f)"
  by (metis did_Parse_def did_parse_unparse parse_inverse sum.inject(2))

end
