(* ===== verification/Provenance.thy ===== *)
theory Provenance
  imports Attestation Delegation Did
begin

text \<open>
  The data of \<^verbatim>\<open>src/verification\<close>: the error sentinels (\<^verbatim>\<open>errors.go\<close>), what a caller hands to the engine
  (\<^verbatim>\<open>input.go\<close>, \<^verbatim>\<open>commitment.go\<close>), and the provenance trace with its construction and its check
  (\<^verbatim>\<open>provenance.go\<close>, \<^verbatim>\<open>provenance_build.go\<close>, \<^verbatim>\<open>provenance_verify.go\<close>).
\<close>

section \<open>Errors\<close>

text \<open>The trust failures, and after them the sentinels of a misused interface.\<close>

datatype sentinel =
    V_ErrSignatureMismatch
  | V_ErrSignatureKeyMismatch
  | V_ErrAuthorityInvalid
  | V_ErrChainBroken
  | V_ErrNotRootAuthority
  | V_ErrDelegationDepth
  | V_ErrCapabilityNotGranted
  | V_ErrScopeViolation
  | V_ErrNotYetValid
  | V_ErrExpired
  | V_ErrRevoked
  | V_ErrSuperseded
  | V_ErrKeyVersionSuperseded
  | V_ErrIdentityUnresolved
  | V_ErrKeyBinding
  | V_ErrEvidenceIntegrity
  | V_ErrProvenanceMismatch
  | V_ErrCommitmentInvalid
  | V_ErrStructural
  | V_ErrNilAttestation
  | V_ErrNilSigningKey
  | V_ErrEmptyChain
  | V_ErrNilProvenance

definition programmer_sentinels :: "sentinel list" where
  "programmer_sentinels = [V_ErrNilAttestation, V_ErrNilSigningKey, V_ErrEmptyChain, V_ErrNilProvenance]"

text \<open>
  An error value: a sentinel, a sentinel wrapped together with the error of another package, an error
  of another package passed on, an error with neither, the skip signal, or a panic, which no caller catches.
\<close>

datatype verr =
    Sentinel sentinel
  | SentinelOf sentinel attestation_error
  | OfAttestation attestation_error
  | OfClaim claim_error
  | OfAuthority authority_error
  | OfDelegation delegation_error
  | OfCanonical canonical_error
  | PlainError
  | errSkipCheck
  | RuntimePanic

fun verr_sentinel :: "verr \<Rightarrow> sentinel option" where
  "verr_sentinel (Sentinel s) = Some s"
| "verr_sentinel (SentinelOf s _) = Some s"
| "verr_sentinel _ = None"

section \<open>Inputs\<close>

record AuthorityHop =
  hop_Authority :: "Authority option"
  hop_PublicKey :: PublicKey

record KeyVersion =
  kv_Version :: u64
  kv_BoundAt :: gtime
  kv_RevokedAt :: gtime

record CommitmentProof =
  cp_ID :: string
  cp_Value :: "bytes option"

text \<open>The errors of a resolver are only printed; they are strings here.\<close>

record Inputs =
  in_Attestation :: "Attestation option"
  in_SigningKey :: PublicKey
  in_Chain :: "AuthorityHop list"
  in_IdentityResolver :: "string Resolver option"
  in_KeyVersions :: "KeyVersion list"
  in_Evidence :: "string \<rightharpoonup> bytes"
  in_Commitments :: "CommitmentProof list"
  in_Now :: gtime

type_synonym CommitmentChecker = "CommitmentProof \<Rightarrow> Inputs \<Rightarrow> string + unit"

section \<open>The provenance trace\<close>

type_synonym NodeKind = int

definition NodeAttestation :: NodeKind where "NodeAttestation = 1"
definition NodeClaim :: NodeKind where "NodeClaim = 2"
definition NodeSigningKey :: NodeKind where "NodeSigningKey = 3"
definition NodeAuthority :: NodeKind where "NodeAuthority = 4"
definition NodeDelegation :: NodeKind where "NodeDelegation = 5"
definition NodeRootAuthority :: NodeKind where "NodeRootAuthority = 6"
definition NodeIdentity :: NodeKind where "NodeIdentity = 7"

lemmas node_kind_defs = NodeAttestation_def NodeClaim_def NodeSigningKey_def NodeAuthority_def NodeDelegation_def
  NodeRootAuthority_def NodeIdentity_def

record Link =
  ln_Kind :: NodeKind
  ln_Ref :: string
  ln_Subject :: string
  ln_KeyID :: string
  ln_Parent :: string

record Provenance =
  pv_Links :: "Link list"

definition provenance_CanonicalEncoding :: "Provenance \<Rightarrow> Encoding" where
  "provenance_CanonicalEncoding p = EncodingJSON"

definition link_json :: "Link \<Rightarrow> json option" where
  "link_json l = json_struct
    [(''kind'', mem_json (Some (json_int (ln_Kind l)))),
     (''ref'', mem_json (Some (json_string (ln_Ref l)))),
     (''subject'', mem_json (Some (json_string (ln_Subject l)))),
     (''keyId'', mem_json (Some (json_string (ln_KeyID l)))),
     (''parent'', mem_json (Some (json_string (ln_Parent l))))]"

definition provenance_json :: "Provenance \<Rightarrow> json option" where
  "provenance_json p = json_struct
    [(''links'', if pv_Links p = [] then Some None else mem_json (slice_json link_json (Some (pv_Links p))))]"

definition provenance_CanonicalHash :: "Provenance option \<Rightarrow> verr + digest" where
  "provenance_CanonicalHash prov =
    (case prov of
       None \<Rightarrow> Inl (Sentinel V_ErrNilProvenance)
     | Some p \<Rightarrow> lift_error OfCanonical
         (canonical_CanonicalHash (Some (provenance_CanonicalEncoding p)) (provenance_json p) None))"

definition MarshalProvenance :: "Provenance option \<Rightarrow> verr + bytes" where
  "MarshalProvenance prov =
    (case prov of
       None \<Rightarrow> Inl (Sentinel V_ErrNilProvenance)
     | Some p \<Rightarrow> lift_error OfCanonical (canonical_Marshal (provenance_json p) None EncodingJSON))"

definition hashRef :: "('e \<Rightarrow> verr) \<Rightarrow> 'e + digest \<Rightarrow> verr + string" where
  "hashRef f r = sbind (lift_error f r) (\<lambda>h. Inr (hex_EncodeToString h))"

definition zero_link :: Link where
  "zero_link = \<lparr>ln_Kind = 0, ln_Ref = [], ln_Subject = [], ln_KeyID = [], ln_Parent = []\<rparr>"

text \<open>The loops over the hops: the authority nodes, then the delegation edges.\<close>

definition authority_links :: "string list \<Rightarrow> AuthorityHop list \<Rightarrow> Link list" where
  "authority_links refs hops =
    map (\<lambda>i. zero_link\<lparr>ln_Kind := NodeAuthority, ln_Ref := refs ! i,
        ln_Subject := auth_Subject (the (hop_Authority (hops ! i))),
        ln_Parent := (if i + 1 < length hops then refs ! (i + 1) else [])\<rparr>) [0..<length hops]"

definition delegation_links :: "string list \<Rightarrow> Link list" where
  "delegation_links refs =
    map (\<lambda>i. zero_link\<lparr>ln_Kind := NodeDelegation, ln_Ref := refs ! i, ln_Parent := refs ! (i + 1)\<rparr>)
      [0..<length refs - 1]"

definition identity_links :: "Inputs \<Rightarrow> Link list" where
  "identity_links inp =
    (case in_IdentityResolver inp of
       None \<Rightarrow> []
     | Some _ \<Rightarrow>
         (let root = the (hop_Authority (last (in_Chain inp)))
          in [zero_link\<lparr>ln_Kind := NodeIdentity, ln_Ref := auth_Subject root, ln_Subject := auth_Subject root\<rparr>]))"

definition provenance_links :: "Inputs \<Rightarrow> Attestation \<Rightarrow> string \<Rightarrow> string \<Rightarrow> string list \<Rightarrow> Link list" where
  "provenance_links inp att attRef claimRef hopRefs =
    [zero_link\<lparr>ln_Kind := NodeAttestation, ln_Ref := attRef, ln_Subject := att_Issuer att\<rparr>,
     zero_link\<lparr>ln_Kind := NodeClaim, ln_Ref := claimRef, ln_Parent := attRef\<rparr>,
     zero_link\<lparr>ln_Kind := NodeSigningKey, ln_KeyID := att_SigningKeyID att, ln_Parent := attRef\<rparr>] @
    authority_links hopRefs (in_Chain inp) @
    delegation_links hopRefs @
    [zero_link\<lparr>ln_Kind := NodeRootAuthority, ln_Ref := last hopRefs\<rparr>] @
    identity_links inp"

definition BuildProvenance :: "Inputs \<Rightarrow> verr + Provenance" where
  "BuildProvenance inp =
    (case in_Attestation inp of
       None \<Rightarrow> Inl (Sentinel V_ErrNilAttestation)
     | Some att \<Rightarrow>
       if in_Chain inp = [] then Inl (Sentinel V_ErrEmptyChain)
       else
         sbind (hashRef OfAttestation (attestation_CanonicalHash (Some att))) (\<lambda>attRef.
         sbind (hashRef OfClaim (claim_CanonicalHash (Some (att_Claim att)))) (\<lambda>claimRef.
         sbind (smap (\<lambda>hop. hashRef OfAuthority (authority_CanonicalHash (hop_Authority hop))) (in_Chain inp))
          (\<lambda>hopRefs. Inr \<lparr>pv_Links = provenance_links inp att attRef claimRef hopRefs\<rparr>))))"

text \<open>The hash of a nil authority is an error, so \<open>the\<close> above is only evaluated on an authority.\<close>

lemma hashRef_Inr: "hashRef f r = Inr s \<longleftrightarrow> (\<exists>h. r = Inr h \<and> s = hex_EncodeToString h)"
  by (auto simp: hashRef_def sbind_Inr_conv)

lemma BuildProvenance_hops:
  assumes "BuildProvenance inp = Inr p" and "hop \<in> set (in_Chain inp)"
  obtains a h where "hop_Authority hop = Some a" "authority_CanonicalHash (Some a) = Inr h"
proof -
  obtain refs where "smap (\<lambda>hop. hashRef OfAuthority (authority_CanonicalHash (hop_Authority hop))) (in_Chain inp) = Inr refs"
    using assms(1) by (auto simp: BuildProvenance_def sbind_Inr_conv split: option.splits if_splits)
  then obtain s where "hashRef OfAuthority (authority_CanonicalHash (hop_Authority hop)) = Inr s"
    using assms(2) by (metis in_set_conv_nth smap_Inr_nth smap_Inr_length)
  then show thesis using that by (cases "hop_Authority hop") (auto simp: hashRef_Inr authority_CanonicalHash_def)
qed

section \<open>Checking a trace\<close>

definition refEqual :: "string \<Rightarrow> string \<Rightarrow> bool" where
  "refEqual a b =
    (case (hex_DecodeString a, hex_DecodeString b) of
       (Some da, Some db) \<Rightarrow> da = db
     | _ \<Rightarrow> a = b)"

definition linkEqual :: "Link \<Rightarrow> Link \<Rightarrow> bool" where
  "linkEqual a b \<longleftrightarrow>
    ln_Kind a = ln_Kind b \<and> refEqual (ln_Ref a) (ln_Ref b) \<and> refEqual (ln_Subject a) (ln_Subject b) \<and>
    refEqual (ln_KeyID a) (ln_KeyID b) \<and> refEqual (ln_Parent a) (ln_Parent b)"

definition VerifyProvenance :: "Provenance option \<Rightarrow> Inputs \<Rightarrow> verr + unit" where
  "VerifyProvenance prov inp =
    (case prov of
       None \<Rightarrow> Inl (Sentinel V_ErrNilProvenance)
     | Some p \<Rightarrow> sbind (BuildProvenance inp) (\<lambda>expected.
         if length (pv_Links p) \<noteq> length (pv_Links expected) then Inl (Sentinel V_ErrProvenanceMismatch)
         else if list_all2 linkEqual (pv_Links p) (pv_Links expected) then Inr ()
         else Inl (Sentinel V_ErrProvenanceMismatch)))"

section \<open>Properties\<close>

text \<open>The form under which references are compared: valid hex in lower case, anything else as it is.\<close>

definition ref_norm :: "string \<Rightarrow> string" where
  "ref_norm s = (case hex_DecodeString s of None \<Rightarrow> s | Some b \<Rightarrow> hex_EncodeToString b)"

definition link_norm :: "Link \<Rightarrow> Link" where
  "link_norm l = \<lparr>ln_Kind = ln_Kind l, ln_Ref = ref_norm (ln_Ref l), ln_Subject = ref_norm (ln_Subject l),
    ln_KeyID = ref_norm (ln_KeyID l), ln_Parent = ref_norm (ln_Parent l)\<rparr>"

lemma refEqual_norm: "refEqual a b \<longleftrightarrow> ref_norm a = ref_norm b"
  by (auto simp: refEqual_def ref_norm_def hex_codec.enc_inj split: option.splits)

lemma linkEqual_norm: "linkEqual a b \<longleftrightarrow> link_norm a = link_norm b"
  by (auto simp: linkEqual_def link_norm_def refEqual_norm)

text \<open>C16: \<open>VerifyProvenance\<close> accepts exactly the traces that agree with the one rebuilt from the inputs link
  by link, where two fields that are both valid hex agree when they differ in letter case only.\<close>

theorem VerifyProvenance_exact:
  "VerifyProvenance (Some p) inp = Inr () \<longleftrightarrow>
    (\<exists>e. BuildProvenance inp = Inr e \<and> map link_norm (pv_Links p) = map link_norm (pv_Links e))"
proof -
  have "map link_norm xs = map link_norm ys \<longleftrightarrow> length xs = length ys \<and> list_all2 linkEqual xs ys" for xs ys
    by (auto simp: list_all2_conv_all_nth linkEqual_norm list_eq_iff_nth_eq)
  then show ?thesis by (auto simp: VerifyProvenance_def sbind_Inr_conv)
qed

lemma BuildProvenance_Inr:
  assumes "BuildProvenance inp = Inr p"
  obtains att a c refs where "in_Attestation inp = Some att" "in_Chain inp \<noteq> []" "length refs = length (in_Chain inp)"
    "pv_Links p = provenance_links inp att a c refs"
  using assms that
  by (auto simp: BuildProvenance_def sbind_Inr_conv dest!: smap_Inr_length split: option.splits if_splits)

lemma identity_links_parents: "l \<in> set (identity_links inp) \<Longrightarrow> ln_Parent l = []"
  by (auto simp: identity_links_def zero_link_def Let_def split: option.splits)

lemma provenance_links_closed:
  assumes "length refs = length (in_Chain inp)" and "l \<in> set (provenance_links inp att a c refs)"
  shows "ln_Parent l = [] \<or> ln_Parent l = a \<or> ln_Parent l \<in> set refs"
  using assms
  by (auto simp: provenance_links_def authority_links_def delegation_links_def zero_link_def
      dest: identity_links_parents intro: nth_mem)

lemma provenance_links_refs:
  assumes "length refs = length (in_Chain inp)" and "r = a \<or> r \<in> set refs"
  shows "\<exists>k\<in>set (provenance_links inp att a c refs). ln_Ref k = r"
proof (cases "r = a")
  case False
  then obtain i where "i < length (in_Chain inp)" "r = refs ! i" using assms by (metis in_set_conv_nth)
  then have "\<exists>k\<in>set (authority_links refs (in_Chain inp)). ln_Ref k = r" by (auto simp: authority_links_def zero_link_def)
  then show ?thesis by (auto simp: provenance_links_def)
qed (simp add: provenance_links_def zero_link_def)

lemma link_counts:
  "filter (\<lambda>l. ln_Kind l = NodeAuthority) (provenance_links inp att a c refs) = authority_links refs (in_Chain inp)"
  "filter (\<lambda>l. ln_Kind l = NodeDelegation) (provenance_links inp att a c refs) = delegation_links refs"
  by (auto simp: provenance_links_def authority_links_def delegation_links_def identity_links_def zero_link_def
      node_kind_defs Let_def filter_empty_conv filter_id_conv split: option.splits)

text \<open>C17: a trace that \<open>BuildProvenance\<close> returns is closed: every parent a link names is the reference of a link
  of the same trace; and it has exactly one authority link per hop, in the order of the chain, and one
  delegation link per pair of neighbours.\<close>

theorem BuildProvenance_closed:
  assumes "BuildProvenance inp = Inr p"
  shows "(\<forall>l\<in>set (pv_Links p). ln_Parent l = [] \<or> (\<exists>k\<in>set (pv_Links p). ln_Ref k = ln_Parent l)) \<and>
    map ln_Subject (filter (\<lambda>l. ln_Kind l = NodeAuthority) (pv_Links p)) =
      map (\<lambda>hop. auth_Subject (the (hop_Authority hop))) (in_Chain inp) \<and>
    length (filter (\<lambda>l. ln_Kind l = NodeDelegation) (pv_Links p)) = length (in_Chain inp) - 1"
proof -
  from assms obtain att a c refs where p: "length refs = length (in_Chain inp)" "pv_Links p = provenance_links inp att a c refs"
    by (elim BuildProvenance_Inr) blast
  have "map ln_Subject (authority_links refs (in_Chain inp)) =
      map (\<lambda>hop. auth_Subject (the (hop_Authority hop))) (in_Chain inp)"
    by (rule nth_equalityI) (simp_all add: authority_links_def)
  moreover have "length (delegation_links refs) = length (in_Chain inp) - 1" by (simp add: delegation_links_def p(1))
  ultimately show ?thesis
    unfolding p(2) link_counts using provenance_links_closed [OF p(1)] provenance_links_refs [OF p(1)] by blast
qed

end
