(* ===== verification/Verification.thy ===== *)
theory Verification
  imports Provenance
begin

text \<open>
  The verification engine of \<^verbatim>\<open>src/verification\<close>: the check identifiers and results (\<^verbatim>\<open>check.go\<close>), the thirteen
  checks (\<^verbatim>\<open>checks_single.go\<close>, \<^verbatim>\<open>checks_chain.go\<close>, \<^verbatim>\<open>checks_evidence.go\<close>), and the pipeline that runs them in
  order and skips a check whose prerequisite failed (\<^verbatim>\<open>engine.go\<close>, \<^verbatim>\<open>options.go\<close>). The key binder and the
  commitment checker are interfaces in the code and fields of the engine here; the binder may panic, as
  the default one can. The wall clock that
  \<^verbatim>\<open>attestation.VerifyAuthorization\<close> reads is the argument \<open>wall\<close>.
\<close>

section \<open>Checks and results\<close>

datatype CheckID =
    CheckStructural
  | CheckSignature
  | CheckAuthorization
  | CheckAuthorityProof
  | CheckChainLink
  | CheckRootAuthority
  | CheckTemporal
  | CheckRevocation
  | CheckIdentity
  | CheckKeyBinding
  | CheckEvidence
  | CheckProvenance
  | CheckCommitment

fun CheckID_String :: "CheckID \<Rightarrow> string" where
  "CheckID_String CheckStructural = ''structural''"
| "CheckID_String CheckSignature = ''signature''"
| "CheckID_String CheckAuthorization = ''authorization''"
| "CheckID_String CheckAuthorityProof = ''authority_proof''"
| "CheckID_String CheckChainLink = ''chain_link''"
| "CheckID_String CheckRootAuthority = ''root_authority''"
| "CheckID_String CheckTemporal = ''temporal''"
| "CheckID_String CheckRevocation = ''revocation''"
| "CheckID_String CheckIdentity = ''identity''"
| "CheckID_String CheckKeyBinding = ''key_binding''"
| "CheckID_String CheckEvidence = ''evidence''"
| "CheckID_String CheckProvenance = ''provenance''"
| "CheckID_String CheckCommitment = ''commitment''"

datatype CheckStatus = CheckPassed | CheckFailed | CheckSkipped

record CheckResult =
  cr_ID :: CheckID
  cr_Status :: CheckStatus
  cr_Err :: "verr option"

record Failure =
  fl_Check :: CheckID
  fl_Err :: verr
  fl_Hop :: int

record Result =
  res_Valid :: bool
  res_Provenance :: Provenance
  res_Checks :: "CheckResult list"
  res_Failures :: "Failure list"

definition consistent :: "Result \<Rightarrow> bool" where
  "consistent r \<longleftrightarrow> res_Valid r = (length (res_Failures r) = 0)"

section \<open>The engine\<close>

type_synonym KeyBinder = "string \<Rightarrow> Document option \<Rightarrow> verr + PublicKey"

text \<open>\<open>eng_clock\<close> is what a call of the engine's clock returns.\<close>

record Engine =
  eng_clock :: gtime
  eng_binder :: KeyBinder
  eng_commitmentChecker :: "CommitmentChecker option"

record checkContext =
  cx_in :: Inputs
  cx_now :: gtime
  cx_prov :: Provenance
  cx_e :: Engine

text \<open>
  A check reads the context and returns nothing or an error. The one field of the context a check
  writes is the offending hop, just before it returns an error, so a failure carries it.
\<close>

type_synonym check_failure = "int \<times> verr"
type_synonym checkFunc = "checkContext \<Rightarrow> check_failure + unit"

definition fail :: "verr \<Rightarrow> check_failure + unit" where
  "fail e = Inl (- 1, e)"

definition fail_at :: "nat \<Rightarrow> verr \<Rightarrow> check_failure + unit" where
  "fail_at i e = Inl (int i, e)"

text \<open>A loop over the hops that stops at the first error, and one with a field of the hop's authority.\<close>

fun each_hop :: "nat \<Rightarrow> (nat \<Rightarrow> 'a \<Rightarrow> verr + unit) \<Rightarrow> 'a list \<Rightarrow> check_failure + unit" where
  "each_hop i f [] = Inr ()"
| "each_hop i f (x # xs) = (case f i x of Inl e \<Rightarrow> fail_at i e | Inr _ \<Rightarrow> each_hop (Suc i) f xs)"

definition with_authority :: "AuthorityHop \<Rightarrow> (Authority \<Rightarrow> verr + 'a) \<Rightarrow> verr + 'a" where
  "with_authority hop f = (case hop_Authority hop of None \<Rightarrow> Inl RuntimePanic | Some a \<Rightarrow> f a)"

section \<open>Checks of the attestation\<close>

definition checkStructural :: checkFunc where
  "checkStructural ctx =
    (case attestation_Validate (in_Attestation (cx_in ctx)) of
       Inl e \<Rightarrow> fail (SentinelOf V_ErrStructural e) | Inr _ \<Rightarrow> Inr ())"

definition checkSignature :: "clib \<Rightarrow> checkFunc" where
  "checkSignature lib ctx =
    (case VerifySignature lib (in_Attestation (cx_in ctx)) (in_SigningKey (cx_in ctx)) of
       Inr _ \<Rightarrow> Inr ()
     | Inl e \<Rightarrow> if e = ErrWrongAttKey then fail (Sentinel V_ErrSignatureKeyMismatch)
               else fail (Sentinel V_ErrSignatureMismatch))"

definition checkAuthorization :: "gtime \<Rightarrow> checkFunc" where
  "checkAuthorization wall ctx =
    (case VerifyAuthorization wall (in_Attestation (cx_in ctx)) (hop_Authority (hd (in_Chain (cx_in ctx)))) of
       Inr _ \<Rightarrow> Inr ()
     | Inl e \<Rightarrow> if e = ErrCapabilityNotGranted then fail (Sentinel V_ErrCapabilityNotGranted)
               else if e = ErrAuthorizationScope then fail (Sentinel V_ErrScopeViolation)
               else fail (SentinelOf V_ErrAuthorityInvalid e))"

definition checkRootAuthority :: checkFunc where
  "checkRootAuthority ctx =
    (case hop_Authority (last (in_Chain (cx_in ctx))) of
       None \<Rightarrow> fail RuntimePanic
     | Some root \<Rightarrow> if auth_Parent root \<noteq> None then fail (Sentinel V_ErrNotRootAuthority) else Inr ())"

section \<open>Key binding\<close>

fun keyVersionAt_loop :: "gtime \<Rightarrow> KeyVersion option \<Rightarrow> KeyVersion list \<Rightarrow> KeyVersion option" where
  "keyVersionAt_loop now bound [] = bound"
| "keyVersionAt_loop now bound (v # vs) =
    (if Before now (kv_BoundAt v) then keyVersionAt_loop now bound vs
     else if (case bound of
                None \<Rightarrow> True
              | Some b \<Rightarrow> After (kv_BoundAt v) (kv_BoundAt b) \<or>
                  (time_Equal (kv_BoundAt v) (kv_BoundAt b) \<and> kv_Version v > kv_Version b))
     then keyVersionAt_loop now (Some v) vs
     else keyVersionAt_loop now bound vs)"

definition keyVersionAt :: "KeyVersion list \<Rightarrow> gtime \<Rightarrow> KeyVersion option" where
  "keyVersionAt history now = keyVersionAt_loop now None history"

definition checkSigningKeyVersion :: checkFunc where
  "checkSigningKeyVersion ctx =
    (let history = in_KeyVersions (cx_in ctx)
     in if length history = 0 then Inr ()
        else (case in_Attestation (cx_in ctx) of
            None \<Rightarrow> fail RuntimePanic
          | Some att \<Rightarrow>
            (let used = att_SigningKeyVersion att
             in case keyVersionAt history (cx_now ctx) of
                  None \<Rightarrow> fail (Sentinel V_ErrKeyBinding)
                | Some bound \<Rightarrow>
                    if used < kv_Version bound then fail (Sentinel V_ErrKeyVersionSuperseded)
                    else if used > kv_Version bound then fail (Sentinel V_ErrKeyBinding)
                    else if \<not> IsZero (kv_RevokedAt bound) \<and> \<not> Before (cx_now ctx) (kv_RevokedAt bound)
                    then fail (Sentinel V_ErrRevoked)
                    else Inr ())))"

definition marshalPublicKey :: "clib \<Rightarrow> PublicKey \<Rightarrow> bytes option" where
  "marshalPublicKey lib k =
    (case k of
       PubEd25519 b \<Rightarrow> Some b
     | PubSecp256k1 p \<Rightarrow> Some (secp256k1_Bytes p)
     | PubEcdsa (Some key) _ \<Rightarrow> lib_MarshalPKIX lib (Inl key)
     | PubEcdsa None _ \<Rightarrow> None
     | PubRsaPSS key _ \<Rightarrow> lib_MarshalPKIX lib (Inr key)
     | PubRsaPKCS1 key _ \<Rightarrow> lib_MarshalPKIX lib (Inr key)
     | _ \<Rightarrow> lib_MarshalPKIX_other lib k)"

definition samePublicKey :: "clib \<Rightarrow> PublicKey \<Rightarrow> PublicKey \<Rightarrow> bool" where
  "samePublicKey lib a b =
    (if a = PubNil \<or> b = PubNil then a = PubNil \<and> b = PubNil
     else (case (marshalPublicKey lib a, marshalPublicKey lib b) of
         (Some ab, Some bb) \<Rightarrow> ab = bb
       | _ \<Rightarrow> False))"

definition sameKeyAlgorithm :: "PublicKey \<Rightarrow> PublicKey \<Rightarrow> check_failure + unit" where
  "sameKeyAlgorithm bound want =
    (case AlgorithmForPublicKey bound of
       Inl _ \<Rightarrow> fail (Sentinel V_ErrKeyBinding)
     | Inr ba \<Rightarrow> (case AlgorithmForPublicKey want of
         Inl _ \<Rightarrow> fail (Sentinel V_ErrKeyBinding)
       | Inr wa \<Rightarrow> if ba \<noteq> wa then fail (Sentinel V_ErrKeyBinding) else Inr ()))"

definition bindKeyMatches ::
    "clib \<Rightarrow> checkContext \<Rightarrow> string Resolver \<Rightarrow> string \<Rightarrow> string \<Rightarrow> PublicKey \<Rightarrow> check_failure + unit" where
  "bindKeyMatches lib ctx resolver subject keyID want =
    (case did_Parse subject of
       Inl _ \<Rightarrow> fail (Sentinel V_ErrKeyBinding)
     | Inr d \<Rightarrow> (case resolver d of
         Inl _ \<Rightarrow> fail (Sentinel V_ErrKeyBinding)
       | Inr doc \<Rightarrow> (case eng_binder (cx_e ctx) keyID doc of
           Inl e \<Rightarrow> if e = RuntimePanic then fail RuntimePanic else fail (Sentinel V_ErrKeyBinding)
         | Inr bound \<Rightarrow>
             if \<not> samePublicKey lib bound want then fail (Sentinel V_ErrKeyBinding)
             else sameKeyAlgorithm bound want)))"

definition checkKeyBinding :: "clib \<Rightarrow> checkFunc" where
  "checkKeyBinding lib ctx =
    sbind (checkSigningKeyVersion ctx) (\<lambda>_.
      case in_IdentityResolver (cx_in ctx) of
        None \<Rightarrow> Inr ()
      | Some resolver \<Rightarrow>
        (case in_Attestation (cx_in ctx) of
           None \<Rightarrow> fail RuntimePanic
         | Some att \<Rightarrow>
           sbind (bindKeyMatches lib ctx resolver (att_Issuer att) (att_SigningKeyID att) (in_SigningKey (cx_in ctx))) (\<lambda>_.
             let root = last (in_Chain (cx_in ctx))
             in case hop_Authority root of
                  None \<Rightarrow> fail RuntimePanic
                | Some a \<Rightarrow> bindKeyMatches lib ctx resolver (auth_Subject a) (pr_KeyID (auth_Proof a)) (hop_PublicKey root))))"

section \<open>Checks of the chain\<close>

definition checkAuthorityProof :: "clib \<Rightarrow> checkFunc" where
  "checkAuthorityProof lib ctx =
    each_hop 0 (\<lambda>i hop.
      case VerifyAuthorityProof lib (hop_Authority hop) (hop_PublicKey hop) of
        Inl _ \<Rightarrow> Inl (Sentinel V_ErrAuthorityInvalid) | Inr _ \<Rightarrow> Inr ()) (in_Chain (cx_in ctx))"

definition mapDelegationError :: "delegation_error \<Rightarrow> verr" where
  "mapDelegationError e =
    (case e of
       ErrCapabilityEscalation \<Rightarrow> Sentinel V_ErrCapabilityNotGranted
     | ErrScopeEscalation \<Rightarrow> Sentinel V_ErrScopeViolation
     | ErrValidityEscalation \<Rightarrow> Sentinel V_ErrScopeViolation
     | ErrDepthEscalation \<Rightarrow> Sentinel V_ErrDelegationDepth
     | _ \<Rightarrow> OfDelegation e)"

definition link_ok :: "AuthorityHop \<Rightarrow> AuthorityHop \<Rightarrow> verr + unit" where
  "link_ok child_hop parent_hop =
    (case authority_CanonicalHash (hop_Authority parent_hop) of
       Inl _ \<Rightarrow> Inl (Sentinel V_ErrAuthorityInvalid)
     | Inr ph \<Rightarrow> with_authority child_hop (\<lambda>child.
         if auth_Parent child \<noteq> Some (hex_EncodeToString ph) then Inl (Sentinel V_ErrChainBroken)
         else lift_error mapDelegationError (VerifySubset (Some child) (hop_Authority parent_hop))))"

definition checkChainLink :: checkFunc where
  "checkChainLink ctx =
    (let hops = in_Chain (cx_in ctx)
     in each_hop 0 (\<lambda>i (child, parent). link_ok child parent) (zip hops (tl hops)))"

definition checkTemporal :: checkFunc where
  "checkTemporal ctx =
    (case in_Attestation (cx_in ctx) of
       None \<Rightarrow> fail RuntimePanic
     | Some att \<Rightarrow>
       if Before (cx_now ctx) (NotBefore (att_Validity att)) then fail (Sentinel V_ErrNotYetValid)
       else if After (cx_now ctx) (NotAfter (att_Validity att)) then fail (Sentinel V_ErrExpired)
       else each_hop 0 (\<lambda>i hop. with_authority hop (\<lambda>a.
           if Before (cx_now ctx) (NotBefore (auth_Validity a)) then Inl (Sentinel V_ErrNotYetValid)
           else if After (cx_now ctx) (NotAfter (auth_Validity a)) then Inl (Sentinel V_ErrExpired)
           else Inr ())) (in_Chain (cx_in ctx)))"

definition checkRevocation :: checkFunc where
  "checkRevocation ctx =
    each_hop 0 (\<lambda>i hop. with_authority hop (\<lambda>a.
      if auth_Status a = StatusActive then Inr ()
      else if auth_Status a = StatusRevoked then Inl (Sentinel V_ErrRevoked)
      else if auth_Status a = StatusSuperseded then Inl (Sentinel V_ErrSuperseded)
      else if auth_Status a = StatusExpired then Inl (Sentinel V_ErrExpired)
      else Inl (Sentinel V_ErrAuthorityInvalid))) (in_Chain (cx_in ctx))"

definition checkIdentity :: checkFunc where
  "checkIdentity ctx =
    (case in_IdentityResolver (cx_in ctx) of
       None \<Rightarrow> Inr ()
     | Some resolver \<Rightarrow>
       (case hop_Authority (last (in_Chain (cx_in ctx))) of
          None \<Rightarrow> fail RuntimePanic
        | Some root \<Rightarrow>
          (case did_Parse (auth_Subject root) of
             Inl _ \<Rightarrow> fail (Sentinel V_ErrIdentityUnresolved)
           | Inr d \<Rightarrow> (case resolver d of
               Inl _ \<Rightarrow> fail (Sentinel V_ErrIdentityUnresolved) | Inr _ \<Rightarrow> Inr ()))))"

section \<open>Checks of the supplied material\<close>

definition evidence_ok :: "(string \<rightharpoonup> bytes) \<Rightarrow> Evidence \<Rightarrow> bool" where
  "evidence_ok supplied ev =
    (case evidence_CanonicalHash (Some ev) of
       Inl _ \<Rightarrow> False
     | Inr eh \<Rightarrow> (case supplied (hex_EncodeToString eh) of
         None \<Rightarrow> False
       | Some content \<Rightarrow> sha256_sum content = slice (ev_ContentHash ev)))"

definition checkEvidence :: checkFunc where
  "checkEvidence ctx =
    (case in_Attestation (cx_in ctx) of
       None \<Rightarrow> fail RuntimePanic
     | Some att \<Rightarrow>
       if list_all (evidence_ok (in_Evidence (cx_in ctx))) (slice (att_Evidence att)) then Inr ()
       else fail (Sentinel V_ErrEvidenceIntegrity))"

definition checkProvenance :: checkFunc where
  "checkProvenance ctx =
    (case VerifyProvenance (Some (cx_prov ctx)) (cx_in ctx) of Inl e \<Rightarrow> fail e | Inr _ \<Rightarrow> Inr ())"

definition checkCommitment :: checkFunc where
  "checkCommitment ctx =
    (case eng_commitmentChecker (cx_e ctx) of
       None \<Rightarrow> fail errSkipCheck
     | Some checker \<Rightarrow>
       if in_Commitments (cx_in ctx) = [] then fail (Sentinel V_ErrCommitmentInvalid)
       else if list_all (\<lambda>proof. checker proof (cx_in ctx) = Inr ()) (in_Commitments (cx_in ctx)) then Inr ()
       else fail (Sentinel V_ErrCommitmentInvalid))"

section \<open>The pipeline\<close>

fun checkPrerequisites :: "CheckID \<Rightarrow> CheckID list" where
  "checkPrerequisites CheckStructural = []"
| "checkPrerequisites CheckSignature = [CheckStructural]"
| "checkPrerequisites CheckAuthorization = [CheckSignature]"
| "checkPrerequisites CheckAuthorityProof = [CheckAuthorization]"
| "checkPrerequisites CheckChainLink = [CheckAuthorityProof]"
| "checkPrerequisites CheckRootAuthority = [CheckChainLink]"
| "checkPrerequisites CheckTemporal = [CheckStructural]"
| "checkPrerequisites CheckRevocation = [CheckStructural]"
| "checkPrerequisites CheckIdentity = [CheckStructural]"
| "checkPrerequisites CheckKeyBinding = [CheckSignature]"
| "checkPrerequisites CheckEvidence = [CheckStructural]"
| "checkPrerequisites CheckProvenance = [CheckStructural]"
| "checkPrerequisites CheckCommitment = [CheckStructural]"

definition defaultChecks :: "clib \<Rightarrow> gtime \<Rightarrow> (CheckID \<times> checkFunc) list" where
  "defaultChecks lib wall =
    [(CheckStructural, checkStructural),
     (CheckSignature, checkSignature lib),
     (CheckAuthorization, checkAuthorization wall),
     (CheckAuthorityProof, checkAuthorityProof lib),
     (CheckChainLink, checkChainLink),
     (CheckRootAuthority, checkRootAuthority),
     (CheckTemporal, checkTemporal),
     (CheckRevocation, checkRevocation),
     (CheckIdentity, checkIdentity),
     (CheckKeyBinding, checkKeyBinding lib),
     (CheckEvidence, checkEvidence),
     (CheckProvenance, checkProvenance),
     (CheckCommitment, checkCommitment)]"

definition prerequisiteFailed :: "CheckID \<Rightarrow> CheckID set \<Rightarrow> bool" where
  "prerequisiteFailed cid failed = list_ex (\<lambda>prereq. prereq \<in> failed) (checkPrerequisites cid)"

text \<open>
  The body of the loop: the results and failures so far, and the set of failed checks. A panic ends
  the run.
\<close>

record run_state =
  rs_checks :: "CheckResult list"
  rs_failures :: "Failure list"
  rs_failed :: "CheckID set"

definition run_check :: "checkContext \<Rightarrow> CheckID \<times> checkFunc \<Rightarrow> run_state \<Rightarrow> verr + run_state" where
  "run_check ctx spec st =
    (let (cid, run) = spec
     in if prerequisiteFailed cid (rs_failed st)
        then Inr (st\<lparr>rs_checks := rs_checks st @ [\<lparr>cr_ID = cid, cr_Status = CheckSkipped, cr_Err = None\<rparr>]\<rparr>)
        else (case run ctx of
            Inr _ \<Rightarrow>
              Inr (st\<lparr>rs_checks := rs_checks st @ [\<lparr>cr_ID = cid, cr_Status = CheckPassed, cr_Err = None\<rparr>]\<rparr>)
          | Inl (hop, err) \<Rightarrow>
              if err = RuntimePanic then Inl RuntimePanic
              else if err = errSkipCheck
              then Inr (st\<lparr>rs_checks := rs_checks st @ [\<lparr>cr_ID = cid, cr_Status = CheckSkipped, cr_Err = None\<rparr>]\<rparr>)
              else Inr (st\<lparr>rs_failed := insert cid (rs_failed st),
                    rs_checks := rs_checks st @ [\<lparr>cr_ID = cid, cr_Status = CheckFailed, cr_Err = Some err\<rparr>],
                    rs_failures := rs_failures st @ [\<lparr>fl_Check = cid, fl_Err = err, fl_Hop = hop\<rparr>]\<rparr>)))"

fun run_checks :: "checkContext \<Rightarrow> (CheckID \<times> checkFunc) list \<Rightarrow> run_state \<Rightarrow> verr + run_state" where
  "run_checks ctx [] st = Inr st"
| "run_checks ctx (spec # specs) st = sbind (run_check ctx spec st) (run_checks ctx specs)"

definition initial_run :: run_state where
  "initial_run = \<lparr>rs_checks = [], rs_failures = [], rs_failed = {}\<rparr>"

definition evaluation_time :: "Engine \<Rightarrow> Inputs \<Rightarrow> gtime" where
  "evaluation_time e inp = (if IsZero (in_Now inp) then eng_clock e else in_Now inp)"

definition Verify :: "clib \<Rightarrow> gtime \<Rightarrow> Engine \<Rightarrow> Inputs \<Rightarrow> verr + Result" where
  "Verify lib wall e inp =
    (if in_Attestation inp = None then Inl (Sentinel V_ErrNilAttestation)
     else if in_SigningKey inp = PubNil then Inl (Sentinel V_ErrNilSigningKey)
     else if length (in_Chain inp) = 0 then Inl (Sentinel V_ErrEmptyChain)
     else
       sbind (BuildProvenance inp) (\<lambda>prov.
       let ctx = \<lparr>cx_in = inp, cx_now = evaluation_time e inp, cx_prov = prov, cx_e = e\<rparr>
       in sbind (run_checks ctx (defaultChecks lib wall) initial_run) (\<lambda>st.
            Inr \<lparr>res_Valid = (length (rs_failures st) = 0), res_Provenance = prov,
              res_Checks = rs_checks st, res_Failures = rs_failures st\<rparr>)))"

section \<open>Engine construction\<close>

text \<open>The options, applied in order; a nil clock, binder or option is ignored, a nil checker is set.\<close>

datatype EngineOption =
    WithClock "gtime option"
  | WithKeyBinder "KeyBinder option"
  | WithCommitmentChecker "CommitmentChecker option"

fun apply_option :: "EngineOption option \<Rightarrow> Engine \<Rightarrow> Engine" where
  "apply_option (Some (WithClock (Some clock))) e = e\<lparr>eng_clock := clock\<rparr>"
| "apply_option (Some (WithKeyBinder (Some binder))) e = e\<lparr>eng_binder := binder\<rparr>"
| "apply_option (Some (WithCommitmentChecker checker)) e = e\<lparr>eng_commitmentChecker := checker\<rparr>"
| "apply_option _ e = e"

text \<open>\<open>wall\<close> is what \<^verbatim>\<open>time.Now\<close> returns and \<open>binder\<close> the default \<^verbatim>\<open>DocumentKeyBinder\<close>.\<close>

definition NewEngine :: "gtime \<Rightarrow> KeyBinder \<Rightarrow> EngineOption option list \<Rightarrow> Engine" where
  "NewEngine wall binder opts =
    fold apply_option opts \<lparr>eng_clock = wall, eng_binder = binder, eng_commitmentChecker = None\<rparr>"

section \<open>The specification of a run\<close>

text \<open>
  The specification has no accumulators: whether a check fails is defined by recursion over its
  prerequisites, and the report lists each check of the pipeline with its verdict.
\<close>

fun check_rank :: "CheckID \<Rightarrow> nat" where
  "check_rank CheckStructural = 0"
| "check_rank CheckSignature = 1"
| "check_rank CheckAuthorization = 2"
| "check_rank CheckAuthorityProof = 3"
| "check_rank CheckChainLink = 4"
| "check_rank CheckRootAuthority = 5"
| "check_rank _ = 6"

function check_fails :: "(CheckID \<Rightarrow> check_failure + unit) \<Rightarrow> CheckID \<Rightarrow> bool" where
  "check_fails run cid \<longleftrightarrow>
    \<not> list_ex (check_fails run) (checkPrerequisites cid) \<and>
    (case run cid of Inr _ \<Rightarrow> False | Inl (hop, err) \<Rightarrow> err \<noteq> errSkipCheck)"
  by pat_completeness auto
termination
proof (relation "measure (\<lambda>(run, cid). check_rank cid)")
  show "((run, p), (run, cid)) \<in> measure (\<lambda>(run, cid). check_rank cid)" if "p \<in> set (checkPrerequisites cid)" for run cid p
    using that by (cases cid) auto
qed simp

declare check_fails.simps [simp del]

definition spec_result :: "(CheckID \<Rightarrow> check_failure + unit) \<Rightarrow> CheckID \<Rightarrow> CheckResult" where
  "spec_result run cid =
    (if list_ex (check_fails run) (checkPrerequisites cid) then \<lparr>cr_ID = cid, cr_Status = CheckSkipped, cr_Err = None\<rparr>
     else case run cid of
       Inr _ \<Rightarrow> \<lparr>cr_ID = cid, cr_Status = CheckPassed, cr_Err = None\<rparr>
     | Inl (hop, err) \<Rightarrow>
         if err = errSkipCheck then \<lparr>cr_ID = cid, cr_Status = CheckSkipped, cr_Err = None\<rparr>
         else \<lparr>cr_ID = cid, cr_Status = CheckFailed, cr_Err = Some err\<rparr>)"

definition spec_failures :: "(CheckID \<Rightarrow> check_failure + unit) \<Rightarrow> CheckID list \<Rightarrow> Failure list" where
  "spec_failures run cids =
    map (\<lambda>cid. \<lparr>fl_Check = cid, fl_Err = snd (projl (run cid)), fl_Hop = fst (projl (run cid))\<rparr>)
      (filter (check_fails run) cids)"

definition pipeline :: "CheckID list" where
  "pipeline = [CheckStructural, CheckSignature, CheckAuthorization, CheckAuthorityProof, CheckChainLink,
    CheckRootAuthority, CheckTemporal, CheckRevocation, CheckIdentity, CheckKeyBinding, CheckEvidence,
    CheckProvenance, CheckCommitment]"

fun check_of :: "clib \<Rightarrow> gtime \<Rightarrow> CheckID \<Rightarrow> checkFunc" where
  "check_of lib wall CheckStructural = checkStructural"
| "check_of lib wall CheckSignature = checkSignature lib"
| "check_of lib wall CheckAuthorization = checkAuthorization wall"
| "check_of lib wall CheckAuthorityProof = checkAuthorityProof lib"
| "check_of lib wall CheckChainLink = checkChainLink"
| "check_of lib wall CheckRootAuthority = checkRootAuthority"
| "check_of lib wall CheckTemporal = checkTemporal"
| "check_of lib wall CheckRevocation = checkRevocation"
| "check_of lib wall CheckIdentity = checkIdentity"
| "check_of lib wall CheckKeyBinding = checkKeyBinding lib"
| "check_of lib wall CheckEvidence = checkEvidence"
| "check_of lib wall CheckProvenance = checkProvenance"
| "check_of lib wall CheckCommitment = checkCommitment"

definition spec_report :: "(CheckID \<Rightarrow> check_failure + unit) \<Rightarrow> Provenance \<Rightarrow> Result" where
  "spec_report run prov = \<lparr>res_Valid = (\<forall>cid. \<not> check_fails run cid), res_Provenance = prov,
    res_Checks = map (spec_result run) pipeline, res_Failures = spec_failures run pipeline\<rparr>"

text \<open>The check is run, since no prerequisite failed, and panics.\<close>

definition panics_at :: "(CheckID \<Rightarrow> check_failure + unit) \<Rightarrow> CheckID \<Rightarrow> bool" where
  "panics_at run cid \<longleftrightarrow> \<not> list_ex (check_fails run) (checkPrerequisites cid) \<and> (\<exists>h. run cid = Inl (h, RuntimePanic))"

text \<open>Every prerequisite of a check stands before it.\<close>

fun well_ordered :: "CheckID set \<Rightarrow> CheckID list \<Rightarrow> bool" where
  "well_ordered seen [] = True"
| "well_ordered seen (cid # cids) \<longleftrightarrow>
    set (checkPrerequisites cid) \<subseteq> seen \<and> cid \<notin> seen \<and> well_ordered (insert cid seen) cids"

lemma run_check_spec:
  assumes "set (checkPrerequisites cid) \<subseteq> seen" and "rs_failed st = {c \<in> seen. check_fails run c}" and "cid \<notin> seen"
    and "check ctx = run cid"
  shows "run_check ctx (cid, check) st = (if panics_at run cid then Inl RuntimePanic
    else Inr \<lparr>rs_checks = rs_checks st @ [spec_result run cid], rs_failures = rs_failures st @ spec_failures run [cid],
      rs_failed = {c \<in> insert cid seen. check_fails run c}\<rparr>)"
proof -
  have "prerequisiteFailed cid (rs_failed st) \<longleftrightarrow> list_ex (check_fails run) (checkPrerequisites cid)"
    using assms(1,2) by (auto simp: prerequisiteFailed_def list_ex_iff)
  moreover have "{c. (c = cid \<or> c \<in> seen) \<and> check_fails run c} =
      (if check_fails run cid then insert cid {c \<in> seen. check_fails run c} else {c \<in> seen. check_fails run c})"
    by auto
  ultimately show ?thesis
    using assms(2,4)
    by (auto simp: run_check_def spec_result_def spec_failures_def panics_at_def check_fails.simps [of run cid] Let_def
        split: sum.splits)
qed

lemma run_checks_spec:
  assumes "well_ordered seen (map fst specs)" and "rs_failed st = {c \<in> seen. check_fails run c}"
    and "\<And>cid check. (cid, check) \<in> set specs \<Longrightarrow> check ctx = run cid"
  shows "run_checks ctx specs st = (if list_ex (panics_at run) (map fst specs) then Inl RuntimePanic
    else Inr \<lparr>rs_checks = rs_checks st @ map (spec_result run) (map fst specs),
      rs_failures = rs_failures st @ spec_failures run (map fst specs),
      rs_failed = {c \<in> seen \<union> set (map fst specs). check_fails run c}\<rparr>)"
  using assms(1-3)
proof (induction specs arbitrary: st seen)
  case Nil
  then show ?case by (cases st) (simp add: spec_failures_def)
next
  case (Cons spec specs)
  obtain cid check where spec: "spec = (cid, check)" by (cases spec)
  let ?st = "\<lparr>rs_checks = rs_checks st @ [spec_result run cid], rs_failures = rs_failures st @ spec_failures run [cid],
    rs_failed = {c \<in> insert cid seen. check_fails run c}\<rparr>"
  have "run_check ctx (cid, check) st = (if panics_at run cid then Inl RuntimePanic else Inr ?st)"
    using Cons.prems spec by (intro run_check_spec) auto
  moreover have "run_checks ctx specs ?st = (if list_ex (panics_at run) (map fst specs) then Inl RuntimePanic
      else Inr \<lparr>rs_checks = rs_checks ?st @ map (spec_result run) (map fst specs),
        rs_failures = rs_failures ?st @ spec_failures run (map fst specs),
        rs_failed = {c \<in> insert cid seen \<union> set (map fst specs). check_fails run c}\<rparr>)"
    using Cons.prems spec by (intro Cons.IH) auto
  ultimately show ?case by (simp add: spec spec_failures_def)
qed

section \<open>Single checks\<close>

lemmas fail_defs = fail_def fail_at_def

lemma fail_simps [simp]: "fail e \<noteq> Inr u" "fail e = Inl (h, e') \<longleftrightarrow> h = - 1 \<and> e' = e" "fail_at i e \<noteq> Inr u"
  by (auto simp: fail_defs)

lemma each_hop_Inr: "each_hop i f xs = Inr () \<longleftrightarrow> (\<forall>k<length xs. f (i + k) (xs ! k) = Inr ())"
proof (induction xs arbitrary: i)
  case (Cons x xs)
  have "each_hop i f (x # xs) = Inr () \<longleftrightarrow> f i x = Inr () \<and> each_hop (Suc i) f xs = Inr ()"
    by (auto simp: fail_defs split: sum.splits)
  moreover have "(\<forall>k<length (x # xs). f (i + k) ((x # xs) ! k) = Inr ()) \<longleftrightarrow>
      f i x = Inr () \<and> (\<forall>k<length xs. f (Suc i + k) (xs ! k) = Inr ())"
    using All_less_Suc2 [of "length xs" "\<lambda>k. f (i + k) ((x # xs) ! k) = Inr ()"] by simp
  ultimately show ?case by (simp only: Cons.IH)
qed simp

lemma each_hop_Inl: "each_hop i f xs = Inl (h, e) \<Longrightarrow> \<exists>k<length xs. h = int (i + k) \<and> f (i + k) (xs ! k) = Inl e"
proof (induction xs arbitrary: i)
  case (Cons x xs)
  show ?case
  proof (cases "f i x")
    case (Inl e')
    then show ?thesis using Cons.prems by (intro exI [of _ 0]) (auto simp: fail_at_def)
  next
    case (Inr u)
    then obtain k where "k < length xs" "h = int (Suc i + k)" "f (Suc i + k) (xs ! k) = Inl e"
      using Cons.IH [of "Suc i"] Cons.prems by auto
    then show ?thesis by (intro exI [of _ "Suc k"]) auto
  qed
qed simp

text \<open>
  A context as \<open>Verify\<close> builds it: an attestation, a chain that is not empty, and a trace built from the
  inputs, so that every hop has an authority.
\<close>

definition good_context :: "checkContext \<Rightarrow> bool" where
  "good_context ctx \<longleftrightarrow> in_Attestation (cx_in ctx) \<noteq> None \<and> in_Chain (cx_in ctx) \<noteq> [] \<and>
    BuildProvenance (cx_in ctx) = Inr (cx_prov ctx)"

lemma good_context_hop:
  assumes "good_context ctx" and "hop \<in> set (in_Chain (cx_in ctx))"
  obtains a h where "hop_Authority hop = Some a" "authority_CanonicalHash (Some a) = Inr h"
  using assms by (auto simp: good_context_def elim: BuildProvenance_hops)

lemma good_context_nth:
  assumes "good_context ctx" and "k < length (in_Chain (cx_in ctx))"
  obtains a h where "hop_Authority (in_Chain (cx_in ctx) ! k) = Some a" "authority_CanonicalHash (Some a) = Inr h"
  using good_context_hop [OF assms(1) nth_mem [OF assms(2)]] by blast

lemma good_context_last:
  assumes "good_context ctx"
  obtains a where "hop_Authority (last (in_Chain (cx_in ctx))) = Some a"
  using good_context_hop [OF assms last_in_set] assms by (auto simp: good_context_def)

text \<open>The errors a check reports: a sentinel of the trust taxonomy or, for the last check, the skip signal.\<close>

definition trust_error :: "verr \<Rightarrow> bool" where
  "trust_error e \<longleftrightarrow> (\<exists>s. verr_sentinel e = Some s \<and> s \<notin> set programmer_sentinels \<and> s \<noteq> V_ErrProvenanceMismatch)"

lemma trust_error_simps [simp]:
  "trust_error (Sentinel s) \<longleftrightarrow> s \<notin> set programmer_sentinels \<and> s \<noteq> V_ErrProvenanceMismatch"
  "trust_error (SentinelOf s x) \<longleftrightarrow> s \<notin> set programmer_sentinels \<and> s \<noteq> V_ErrProvenanceMismatch"
  "\<not> trust_error RuntimePanic"
  "\<not> trust_error errSkipCheck"
  by (simp_all add: trust_error_def)

definition hop_of :: "checkContext \<Rightarrow> int \<Rightarrow> bool" where
  "hop_of ctx h \<longleftrightarrow> h = - 1 \<or> (0 \<le> h \<and> h < int (length (in_Chain (cx_in ctx))))"

lemma provenance_check_passes: "good_context ctx \<Longrightarrow> checkProvenance ctx = Inr ()"
  by (auto simp: checkProvenance_def VerifyProvenance_def good_context_def list_all2_conv_all_nth linkEqual_norm)

lemma each_hop_trust:
  assumes "each_hop 0 f xs = Inl (h, e)" and "length xs \<le> length (in_Chain (cx_in ctx))"
    and "\<And>k e. k < length xs \<Longrightarrow> f k (xs ! k) = Inl e \<Longrightarrow> trust_error e"
  shows "trust_error e \<and> hop_of ctx h"
  using each_hop_Inl [OF assms(1)] assms(2,3) by (auto simp: hop_of_def)

lemma link_ok_trust:
  assumes "good_context ctx" and "Suc k < length (in_Chain (cx_in ctx))"
    and "link_ok (in_Chain (cx_in ctx) ! k) (in_Chain (cx_in ctx) ! Suc k) = Inl e"
  shows "trust_error e"
proof -
  obtain c where "hop_Authority (in_Chain (cx_in ctx) ! k) = Some c"
    using assms(1,2) by (metis Suc_lessD good_context_nth)
  moreover obtain p where "hop_Authority (in_Chain (cx_in ctx) ! Suc k) = Some p"
    using assms(1,2) by (metis good_context_nth)
  ultimately show ?thesis
    using assms(3)
    by (auto simp: link_ok_def with_authority_def lift_error_def VerifySubset_def mapDelegationError_def
        programmer_sentinels_def split: sum.splits if_splits)
qed

lemma chain_checks_trust:
  assumes "good_context ctx"
  shows "checkAuthorityProof lib ctx = Inl (h, e) \<Longrightarrow> trust_error e \<and> hop_of ctx h"
    and "checkChainLink ctx = Inl (h, e) \<Longrightarrow> trust_error e \<and> hop_of ctx h"
    and "checkTemporal ctx = Inl (h, e) \<Longrightarrow> trust_error e \<and> hop_of ctx h"
    and "checkRevocation ctx = Inl (h, e) \<Longrightarrow> trust_error e \<and> hop_of ctx h"
proof -
  show "trust_error e \<and> hop_of ctx h" if "checkAuthorityProof lib ctx = Inl (h, e)"
    using that unfolding checkAuthorityProof_def
    by (rule each_hop_trust) (auto simp: programmer_sentinels_def split: sum.splits)
  show "trust_error e \<and> hop_of ctx h" if "checkChainLink ctx = Inl (h, e)"
    using that unfolding checkChainLink_def Let_def
    by (rule each_hop_trust) (auto simp: nth_tl less_diff_conv intro: link_ok_trust [OF assms])
  show "trust_error e \<and> hop_of ctx h" if "checkRevocation ctx = Inl (h, e)"
    using that unfolding checkRevocation_def
    by (rule each_hop_trust)
      (auto simp: with_authority_def programmer_sentinels_def elim: good_context_nth [OF assms] split: if_splits option.splits)
  obtain att where att: "in_Attestation (cx_in ctx) = Some att" using assms by (auto simp: good_context_def)
  show "trust_error e \<and> hop_of ctx h" if c: "checkTemporal ctx = Inl (h, e)"
  proof (cases "each_hop 0 (\<lambda>i hop. with_authority hop (\<lambda>a.
           if Before (cx_now ctx) (NotBefore (auth_Validity a)) then Inl (Sentinel V_ErrNotYetValid)
           else if After (cx_now ctx) (NotAfter (auth_Validity a)) then Inl (Sentinel V_ErrExpired)
           else Inr ())) (in_Chain (cx_in ctx)) = Inl (h, e)")
    case True
    then show ?thesis
      by (rule each_hop_trust)
        (auto simp: with_authority_def programmer_sentinels_def elim: good_context_nth [OF assms] split: if_splits option.splits)
  next
    case False
    then show ?thesis using c
      by (auto simp: checkTemporal_def att hop_of_def programmer_sentinels_def split: if_splits)
  qed
qed

lemma key_binding_trust:
  assumes "good_context ctx" and "checkKeyBinding lib ctx = Inl (h, e)"
  shows "(trust_error e \<or> e = RuntimePanic) \<and> hop_of ctx h"
proof -
  obtain att where att: "in_Attestation (cx_in ctx) = Some att" using assms(1) by (auto simp: good_context_def)
  obtain a where a: "hop_Authority (last (in_Chain (cx_in ctx))) = Some a" by (rule good_context_last [OF assms(1)])
  have bind: "(trust_error e' \<or> e' = RuntimePanic) \<and> h' = - 1" if "bindKeyMatches lib ctx r sub k w = Inl (h', e')" for r sub k w h' e'
    using that by (auto simp: bindKeyMatches_def sameKeyAlgorithm_def programmer_sentinels_def split: sum.splits if_splits)
  have vers: "trust_error e' \<and> h' = - 1" if "checkSigningKeyVersion ctx = Inl (h', e')" for h' e'
    using that by (auto simp: checkSigningKeyVersion_def att programmer_sentinels_def Let_def split: option.splits if_splits)
  show ?thesis
    using assms(2) bind vers unfolding checkKeyBinding_def att a Let_def
    by (fastforce simp: sbind_def hop_of_def split: sum.splits option.splits)
qed

lemma check_trust:
  assumes "good_context ctx" and "check_of lib wall cid ctx = Inl (h, e)"
  shows "(trust_error e \<or> (e = errSkipCheck \<and> cid = CheckCommitment \<and> eng_commitmentChecker (cx_e ctx) = None) \<or>
    (e = RuntimePanic \<and> cid = CheckKeyBinding)) \<and> hop_of ctx h"
proof -
  obtain att where att: "in_Attestation (cx_in ctx) = Some att" using assms(1) by (auto simp: good_context_def)
  obtain a where a: "hop_Authority (last (in_Chain (cx_in ctx))) = Some a" by (rule good_context_last [OF assms(1)])
  show ?thesis
    using assms(2) chain_checks_trust [OF assms(1)] key_binding_trust [OF assms(1)] provenance_check_passes [OF assms(1)]
    by (cases cid) (auto simp: checkStructural_def checkSignature_def checkAuthorization_def checkRootAuthority_def
        checkIdentity_def checkEvidence_def checkCommitment_def att a hop_of_def programmer_sentinels_def
        split: sum.splits option.splits if_splits)
qed

section \<open>The engine implements the specification\<close>

definition context_of :: "Engine \<Rightarrow> Inputs \<Rightarrow> Provenance \<Rightarrow> checkContext" where
  "context_of e inp prov = \<lparr>cx_in = inp, cx_now = evaluation_time e inp, cx_prov = prov, cx_e = e\<rparr>"

definition outcomes :: "clib \<Rightarrow> gtime \<Rightarrow> Engine \<Rightarrow> Inputs \<Rightarrow> Provenance \<Rightarrow> CheckID \<Rightarrow> check_failure + unit" where
  "outcomes lib wall e inp prov cid = check_of lib wall cid (context_of e inp prov)"

lemma pipeline_complete: "set pipeline = UNIV"
proof -
  have "cid \<in> set pipeline" for cid by (cases cid) (simp_all add: pipeline_def)
  then show ?thesis by auto
qed

lemma default_checks: "map fst (defaultChecks lib wall) = pipeline"
  "(cid, check) \<in> set (defaultChecks lib wall) \<Longrightarrow> check = check_of lib wall cid"
  by (auto simp: defaultChecks_def pipeline_def)

lemma pipeline_ordered: "well_ordered {} pipeline"
  by (simp add: pipeline_def)

lemma good_context_of:
  "in_Attestation inp \<noteq> None \<Longrightarrow> in_Chain inp \<noteq> [] \<Longrightarrow> BuildProvenance inp = Inr prov \<Longrightarrow>
    good_context (context_of e inp prov)"
  by (simp add: good_context_def context_of_def)

text \<open>Only the binder can panic, when the check of the key binding is run.\<close>

definition binder_panics :: "(CheckID \<Rightarrow> check_failure + unit) \<Rightarrow> bool" where
  "binder_panics run \<longleftrightarrow> \<not> check_fails run CheckSignature \<and> (\<exists>h. run CheckKeyBinding = Inl (h, RuntimePanic))"

lemma outcomes_panic:
  assumes "good_context (context_of e inp prov)"
  shows "list_ex (panics_at (outcomes lib wall e inp prov)) pipeline \<longleftrightarrow> binder_panics (outcomes lib wall e inp prov)"
proof -
  let ?run = "outcomes lib wall e inp prov"
  have "cid = CheckKeyBinding" if "?run cid = Inl (h, RuntimePanic)" for cid h
    using check_trust [OF assms, of lib wall cid h RuntimePanic] that by (simp add: outcomes_def)
  then have "panics_at ?run cid \<longleftrightarrow> cid = CheckKeyBinding \<and> binder_panics ?run" for cid
    by (cases "cid = CheckKeyBinding") (auto simp: panics_at_def binder_panics_def)
  then show ?thesis by (simp add: list_ex_iff pipeline_complete)
qed

lemma run_checks_report:
  assumes "good_context (context_of e inp prov)"
  shows "run_checks (context_of e inp prov) (defaultChecks lib wall) initial_run =
    (if binder_panics (outcomes lib wall e inp prov) then Inl RuntimePanic
     else Inr \<lparr>rs_checks = map (spec_result (outcomes lib wall e inp prov)) pipeline,
       rs_failures = spec_failures (outcomes lib wall e inp prov) pipeline,
       rs_failed = {c. check_fails (outcomes lib wall e inp prov) c}\<rparr>)"
proof -
  have "check (context_of e inp prov) = outcomes lib wall e inp prov cid"
    if "(cid, check) \<in> set (defaultChecks lib wall)" for cid check
    using default_checks(2) [OF that] by (simp add: outcomes_def)
  then have "run_checks (context_of e inp prov) (defaultChecks lib wall) initial_run =
      (if list_ex (panics_at (outcomes lib wall e inp prov)) (map fst (defaultChecks lib wall)) then Inl RuntimePanic
       else Inr \<lparr>rs_checks = rs_checks initial_run @ map (spec_result (outcomes lib wall e inp prov)) (map fst (defaultChecks lib wall)),
        rs_failures = rs_failures initial_run @ spec_failures (outcomes lib wall e inp prov) (map fst (defaultChecks lib wall)),
        rs_failed = {c \<in> {} \<union> set (map fst (defaultChecks lib wall)). check_fails (outcomes lib wall e inp prov) c}\<rparr>)"
    by (intro run_checks_spec) (simp_all add: default_checks(1) pipeline_ordered initial_run_def)
  then show ?thesis by (simp add: default_checks(1) outcomes_panic [OF assms] initial_run_def pipeline_complete)
qed

lemma Verify_report:
  assumes "in_Attestation inp \<noteq> None" and "in_SigningKey inp \<noteq> PubNil" and "in_Chain inp \<noteq> []"
    and "BuildProvenance inp = Inr prov"
  shows "Verify lib wall e inp =
    (if binder_panics (outcomes lib wall e inp prov) then Inl RuntimePanic
     else Inr (spec_report (outcomes lib wall e inp prov) prov))"
proof -
  have "spec_failures run pipeline = [] \<longleftrightarrow> (\<forall>cid. \<not> check_fails run cid)" for run
    by (simp add: spec_failures_def filter_empty_conv pipeline_complete)
  with assms good_context_of [of inp prov e] show ?thesis
    by (auto simp: Verify_def Let_def context_of_def [symmetric] run_checks_report spec_report_def)
qed

lemma Verify_Inr:
  "Verify lib wall e inp = Inr r \<longleftrightarrow>
    in_Attestation inp \<noteq> None \<and> in_SigningKey inp \<noteq> PubNil \<and> in_Chain inp \<noteq> [] \<and>
    (\<exists>prov. BuildProvenance inp = Inr prov \<and> \<not> binder_panics (outcomes lib wall e inp prov) \<and>
      r = spec_report (outcomes lib wall e inp prov) prov)"
proof (cases "in_Attestation inp = None \<or> in_SigningKey inp = PubNil \<or> in_Chain inp = []")
  case False
  then show ?thesis
    using Verify_report [of inp] by (cases "BuildProvenance inp") (auto simp: Verify_def sbind_def)
qed (auto simp: Verify_def)


section \<open>What a valid result means\<close>

text \<open>No check fails exactly when every check passes or does not apply: a skipped check has a failed prerequisite.\<close>

lemma no_failures: "(\<forall>cid. \<not> check_fails run cid) \<longleftrightarrow> (\<forall>cid. case run cid of Inr _ \<Rightarrow> True | Inl (hop, err) \<Rightarrow> err = errSkipCheck)"
proof
  assume none: "\<forall>cid. \<not> check_fails run cid"
  show "\<forall>cid. case run cid of Inr _ \<Rightarrow> True | Inl (hop, err) \<Rightarrow> err = errSkipCheck"
  proof
    fix cid
    have "\<not> list_ex (check_fails run) (checkPrerequisites cid)" using none by (simp add: list_ex_iff)
    then show "case run cid of Inr _ \<Rightarrow> True | Inl (hop, err) \<Rightarrow> err = errSkipCheck"
      using none [rule_format, of cid] unfolding check_fails.simps [of run cid] by (auto split: sum.splits)
  qed
next
  assume "\<forall>cid. case run cid of Inr _ \<Rightarrow> True | Inl (hop, err) \<Rightarrow> err = errSkipCheck"
  then have "\<not> check_fails run cid" for cid
    by (auto simp: check_fails.simps [of run cid] split: sum.splits dest: spec [of _ cid])
  then show "\<forall>cid. \<not> check_fails run cid" by simp
qed

lemma no_failures_no_panic: "\<forall>cid. \<not> check_fails run cid \<Longrightarrow> \<not> binder_panics run"
  unfolding no_failures binder_panics_def by (auto split: sum.splits dest!: spec [of _ CheckKeyBinding])

text \<open>The conditions a valid result stands for, read off the checks.\<close>

definition links_to :: "AuthorityHop \<Rightarrow> AuthorityHop \<Rightarrow> bool" where
  "links_to child parent \<longleftrightarrow>
    (\<exists>c p h. hop_Authority child = Some c \<and> hop_Authority parent = Some p \<and>
      authority_CanonicalHash (Some p) = Inr h \<and> auth_Parent c = Some (hex_EncodeToString h) \<and>
      VerifySubset (Some c) (Some p) = Inr ())"

definition trusted_hop :: "clib \<Rightarrow> gtime \<Rightarrow> AuthorityHop \<Rightarrow> bool" where
  "trusted_hop lib now hop \<longleftrightarrow>
    VerifyAuthorityProof lib (hop_Authority hop) (hop_PublicKey hop) = Inr () \<and>
    (\<exists>a. hop_Authority hop = Some a \<and> validityContains (auth_Validity a) now \<and> auth_Status a = StatusActive)"

definition bound_to :: "clib \<Rightarrow> KeyBinder \<Rightarrow> string Resolver \<Rightarrow> string \<Rightarrow> string \<Rightarrow> PublicKey \<Rightarrow> bool" where
  "bound_to lib binder resolver subject keyID want \<longleftrightarrow>
    (\<exists>d doc key alg. did_Parse subject = Inr d \<and> resolver d = Inr doc \<and> binder keyID doc = Inr key \<and>
      samePublicKey lib key want \<and> AlgorithmForPublicKey key = Inr alg \<and> AlgorithmForPublicKey want = Inr alg)"

definition current_version :: "KeyVersion list \<Rightarrow> gtime \<Rightarrow> u64 \<Rightarrow> bool" where
  "current_version history now used \<longleftrightarrow> history = [] \<or>
    (\<exists>v. keyVersionAt history now = Some v \<and> kv_Version v = used \<and>
      (IsZero (kv_RevokedAt v) \<or> Before now (kv_RevokedAt v)))"

definition trusted_identity :: "clib \<Rightarrow> Engine \<Rightarrow> Inputs \<Rightarrow> Attestation \<Rightarrow> Authority \<Rightarrow> bool" where
  "trusted_identity lib e inp att root \<longleftrightarrow>
    (case in_IdentityResolver inp of
       None \<Rightarrow> True
     | Some resolver \<Rightarrow>
         bound_to lib (eng_binder e) resolver (att_Issuer att) (att_SigningKeyID att) (in_SigningKey inp) \<and>
         bound_to lib (eng_binder e) resolver (auth_Subject root) (pr_KeyID (auth_Proof root))
           (hop_PublicKey (last (in_Chain inp))))"

definition trusted_commitments :: "Engine \<Rightarrow> Inputs \<Rightarrow> bool" where
  "trusted_commitments e inp \<longleftrightarrow>
    (case eng_commitmentChecker e of
       None \<Rightarrow> True
     | Some checker \<Rightarrow> in_Commitments inp \<noteq> [] \<and> (\<forall>proof\<in>set (in_Commitments inp). checker proof inp = Inr ()))"

definition trusted :: "clib \<Rightarrow> gtime \<Rightarrow> Engine \<Rightarrow> Inputs \<Rightarrow> bool" where
  "trusted lib wall e inp \<longleftrightarrow>
    (\<exists>att root. in_Attestation inp = Some att \<and> hop_Authority (last (in_Chain inp)) = Some root \<and>
      attestation_Validate (Some att) = Inr () \<and>
      VerifySignature lib (Some att) (in_SigningKey inp) = Inr () \<and>
      VerifyAuthorization wall (Some att) (hop_Authority (hd (in_Chain inp))) = Inr () \<and>
      validityContains (att_Validity att) (evaluation_time e inp) \<and>
      (\<forall>hop\<in>set (in_Chain inp). trusted_hop lib (evaluation_time e inp) hop) \<and>
      (\<forall>i. Suc i < length (in_Chain inp) \<longrightarrow> links_to (in_Chain inp ! i) (in_Chain inp ! Suc i)) \<and>
      auth_Parent root = None \<and>
      current_version (in_KeyVersions inp) (evaluation_time e inp) (att_SigningKeyVersion att) \<and>
      trusted_identity lib e inp att root \<and>
      (\<forall>ev\<in>set (slice (att_Evidence att)). evidence_ok (in_Evidence inp) ev) \<and>
      trusted_commitments e inp)"

lemma bindKeyMatches_Inr:
  "bindKeyMatches lib ctx r subject keyID want = Inr () \<longleftrightarrow> bound_to lib (eng_binder (cx_e ctx)) r subject keyID want"
  by (auto simp: bindKeyMatches_def sameKeyAlgorithm_def bound_to_def split: sum.splits)

lemma checkSigningKeyVersion_Inr:
  "in_Attestation (cx_in ctx) = Some att \<Longrightarrow> checkSigningKeyVersion ctx = Inr () \<longleftrightarrow>
    current_version (in_KeyVersions (cx_in ctx)) (cx_now ctx) (att_SigningKeyVersion att)"
  by (auto simp: checkSigningKeyVersion_def current_version_def Let_def split: option.splits)

lemma link_ok_Inr: "link_ok child parent = Inr () \<longleftrightarrow> links_to child parent"
  by (auto simp: link_ok_def links_to_def with_authority_def VerifySubset_def split: sum.splits option.splits)

lemma each_hop_all: "each_hop i (\<lambda>_. g) xs = Inr () \<longleftrightarrow> (\<forall>x\<in>set xs. g x = Inr ())"
  by (auto simp: each_hop_Inr all_set_conv_all_nth)

lemma with_authority_Inr: "with_authority hop f = Inr u \<longleftrightarrow> (\<exists>a. hop_Authority hop = Some a \<and> f a = Inr u)"
  by (simp add: with_authority_def split: option.splits)

lemma sum_unit_Inr: "(case r of Inl _ \<Rightarrow> Inl e | Inr _ \<Rightarrow> Inr ()) = Inr () \<longleftrightarrow> r = Inr ()"
  by (cases r) simp_all

lemma chain_checks_Inr:
  "checkAuthorityProof lib ctx = Inr () \<longleftrightarrow>
    (\<forall>hop\<in>set (in_Chain (cx_in ctx)). VerifyAuthorityProof lib (hop_Authority hop) (hop_PublicKey hop) = Inr ())"
  "checkRevocation ctx = Inr () \<longleftrightarrow>
    (\<forall>hop\<in>set (in_Chain (cx_in ctx)). \<exists>a. hop_Authority hop = Some a \<and> auth_Status a = StatusActive)"
  "checkChainLink ctx = Inr () \<longleftrightarrow>
    (\<forall>i. Suc i < length (in_Chain (cx_in ctx)) \<longrightarrow> links_to (in_Chain (cx_in ctx) ! i) (in_Chain (cx_in ctx) ! Suc i))"
  "in_Attestation (cx_in ctx) = Some att \<Longrightarrow> checkTemporal ctx = Inr () \<longleftrightarrow> validityContains (att_Validity att) (cx_now ctx) \<and>
    (\<forall>hop\<in>set (in_Chain (cx_in ctx)). \<exists>a. hop_Authority hop = Some a \<and> validityContains (auth_Validity a) (cx_now ctx))"
  unfolding checkAuthorityProof_def checkRevocation_def checkChainLink_def checkTemporal_def Let_def
  subgoal by (simp add: each_hop_all sum_unit_Inr)
  subgoal unfolding each_hop_all with_authority_Inr by (intro ball_cong arg_cong [of _ _ Ex] ext) (auto split: if_splits)
  subgoal by (auto simp: each_hop_Inr link_ok_Inr nth_tl less_diff_conv)
  subgoal by (auto simp: each_hop_all with_authority_Inr validityContains_def)
  done

lemma single_checks_Inr:
  assumes "in_Attestation (cx_in ctx) = Some att" and "hop_Authority (last (in_Chain (cx_in ctx))) = Some root"
  shows "checkStructural ctx = Inr () \<longleftrightarrow> attestation_Validate (Some att) = Inr ()"
    "checkSignature lib ctx = Inr () \<longleftrightarrow> VerifySignature lib (Some att) (in_SigningKey (cx_in ctx)) = Inr ()"
    "checkAuthorization wall ctx = Inr () \<longleftrightarrow>
      VerifyAuthorization wall (Some att) (hop_Authority (hd (in_Chain (cx_in ctx)))) = Inr ()"
    "checkRootAuthority ctx = Inr () \<longleftrightarrow> auth_Parent root = None"
    "checkEvidence ctx = Inr () \<longleftrightarrow> (\<forall>ev\<in>set (slice (att_Evidence att)). evidence_ok (in_Evidence (cx_in ctx)) ev)"
    "checkIdentity ctx = Inr () \<and> checkKeyBinding lib ctx = Inr () \<longleftrightarrow>
      current_version (in_KeyVersions (cx_in ctx)) (cx_now ctx) (att_SigningKeyVersion att) \<and>
      trusted_identity lib (cx_e ctx) (cx_in ctx) att root"
  using assms checkSigningKeyVersion_Inr [OF assms(1)]
  by (auto simp: checkStructural_def checkSignature_def checkAuthorization_def checkRootAuthority_def checkEvidence_def
      checkIdentity_def checkKeyBinding_def trusted_identity_def bindKeyMatches_Inr list_all_iff sbind_Inr_conv Let_def
      bound_to_def split: sum.splits option.splits if_splits)

lemma checkCommitment_ok:
  "(case checkCommitment ctx of Inr _ \<Rightarrow> True | Inl (hop, err) \<Rightarrow> err = errSkipCheck) \<longleftrightarrow> trusted_commitments (cx_e ctx) (cx_in ctx)"
  by (auto simp: checkCommitment_def trusted_commitments_def fail_def list_all_iff split: option.splits)

lemma all_CheckID:
  "(\<forall>cid. P cid) \<longleftrightarrow> P CheckStructural \<and> P CheckSignature \<and> P CheckAuthorization \<and> P CheckAuthorityProof \<and>
    P CheckChainLink \<and> P CheckRootAuthority \<and> P CheckTemporal \<and> P CheckRevocation \<and> P CheckIdentity \<and>
    P CheckKeyBinding \<and> P CheckEvidence \<and> P CheckProvenance \<and> P CheckCommitment"
  by (auto intro: CheckID.induct)

lemma check_ok:
  assumes "good_context ctx" and "cid \<noteq> CheckCommitment"
  shows "(case check_of lib wall cid ctx of Inr _ \<Rightarrow> True | Inl (hop, err) \<Rightarrow> err = errSkipCheck) \<longleftrightarrow>
    check_of lib wall cid ctx = Inr ()"
  using check_trust [OF assms(1), of lib wall cid] assms(2) by (auto split: sum.splits)

lemma trusted_hops:
  "(\<forall>hop\<in>S. trusted_hop lib now hop) \<longleftrightarrow>
    (\<forall>hop\<in>S. VerifyAuthorityProof lib (hop_Authority hop) (hop_PublicKey hop) = Inr ()) \<and>
    (\<forall>hop\<in>S. \<exists>a. hop_Authority hop = Some a \<and> validityContains (auth_Validity a) now) \<and>
    (\<forall>hop\<in>S. \<exists>a. hop_Authority hop = Some a \<and> auth_Status a = StatusActive)"
  unfolding trusted_hop_def by fastforce

lemma valid_trusted:
  assumes "good_context (context_of e inp prov)"
  shows "(\<forall>cid. \<not> check_fails (outcomes lib wall e inp prov) cid) \<longleftrightarrow> trusted lib wall e inp"
proof -
  let ?ctx = "context_of e inp prov"
  have ctx [simp]: "cx_in ?ctx = inp" "cx_now ?ctx = evaluation_time e inp" "cx_e ?ctx = e" by (simp_all add: context_of_def)
  obtain att where att: "in_Attestation inp = Some att" using assms by (auto simp: good_context_def)
  obtain root where root: "hop_Authority (last (in_Chain inp)) = Some root" using good_context_last [OF assms] by auto
  have "(\<forall>cid. \<not> check_fails (outcomes lib wall e inp prov) cid) \<longleftrightarrow>
      (\<forall>cid. case check_of lib wall cid ?ctx of Inr _ \<Rightarrow> True | Inl (hop, err) \<Rightarrow> err = errSkipCheck)"
    by (simp only: no_failures outcomes_def)
  also have "\<dots> \<longleftrightarrow> (checkStructural ?ctx = Inr () \<and> checkSignature lib ?ctx = Inr () \<and> checkAuthorization wall ?ctx = Inr () \<and>
      checkAuthorityProof lib ?ctx = Inr () \<and> checkChainLink ?ctx = Inr () \<and> checkRootAuthority ?ctx = Inr () \<and>
      checkTemporal ?ctx = Inr () \<and> checkRevocation ?ctx = Inr () \<and> checkIdentity ?ctx = Inr () \<and>
      checkKeyBinding lib ?ctx = Inr () \<and> checkEvidence ?ctx = Inr () \<and> trusted_commitments e inp)"
    by (simp add: all_CheckID check_ok [OF assms] del: check_of.simps)
      (simp add: checkCommitment_ok provenance_check_passes [OF assms])
  finally have all: "(\<forall>cid. \<not> check_fails (outcomes lib wall e inp prov) cid) \<longleftrightarrow> \<dots>" .
  note single = single_checks_Inr [where ctx = ?ctx, unfolded ctx, OF att root]
  note chain = chain_checks_Inr(1-3) [where ctx = ?ctx, unfolded ctx] chain_checks_Inr(4) [where ctx = ?ctx, unfolded ctx, OF att]
  show ?thesis
    unfolding all trusted_def att root option.inject trusted_hops chain single(1-5) using single(6) by blast
qed

text \<open>C1: the meaning of a valid result. \<open>Verify\<close> reports an input as valid exactly when the inputs can be hashed and
  all of this holds: the attestation is well formed, signed by the given key and authorized by the first
  authority of the chain; every authority of the chain carries a valid proof, is active and current; each names
  the hash of the next and is contained in it; the last has no parent; the signing key version is the current
  one; with a resolver, the signing key is bound to the issuer and the root key to the root subject; all
  evidence is supplied and hashes to what the attestation says; and the commitment checker, if any, accepts.\<close>

theorem Verify_valid_exact:
  "(\<exists>r. Verify lib wall e inp = Inr r \<and> res_Valid r) \<longleftrightarrow>
    in_SigningKey inp \<noteq> PubNil \<and> (\<exists>prov. BuildProvenance inp = Inr prov) \<and> trusted lib wall e inp"
proof -
  have "in_Attestation inp \<noteq> None \<and> in_Chain inp \<noteq> []" if "BuildProvenance inp = Inr prov" for prov
    using that by (elim BuildProvenance_Inr) auto
  then show ?thesis
    using valid_trusted good_context_of no_failures_no_panic by (auto simp: Verify_Inr spec_report_def)
qed

section \<open>No escalation through the chain\<close>

lemma trusted_linked:
  assumes "trusted lib wall e inp"
  shows "chain.linked (map (\<lambda>hop. the (hop_Authority hop)) (in_Chain inp))"
proof -
  have "subset_ok (the (hop_Authority (in_Chain inp ! Suc i))) (the (hop_Authority (in_Chain inp ! i)))"
    if "Suc i < length (in_Chain inp)" for i
  proof -
    from that assms have "links_to (in_Chain inp ! i) (in_Chain inp ! Suc i)" by (auto simp: trusted_def)
    then show ?thesis by (auto simp: links_to_def subset_ok_def)
  qed
  then show ?thesis by (simp add: chain.linked_def)
qed

lemma trusted_contains:
  assumes "trusted lib wall e inp" and "k < length (in_Chain inp)"
    and "hop_Authority (hd (in_Chain inp)) = Some leaf" and "hop_Authority (in_Chain inp ! k) = Some a"
  shows "a = leaf \<or> subset_ok a leaf"
proof (cases k)
  case 0
  then show ?thesis using assms(2-4) by (simp add: hd_conv_nth)
next
  case (Suc j)
  have "in_Chain inp \<noteq> []" using assms(2) by auto
  then show ?thesis
    using chain.linked_narrows [OF trusted_linked [OF assms(1)], of 0 k] assms(2-4) Suc by (simp add: hd_conv_nth)
qed

lemma trusted_authorized:
  assumes "trusted lib wall e inp" and "in_Attestation inp = Some att"
  obtains leaf where "hop_Authority (hd (in_Chain inp)) = Some leaf"
    "VerifyAuthorization wall (Some att) (Some leaf) = Inr ()"
proof (cases "hop_Authority (hd (in_Chain inp))")
  case None
  then show thesis using assms by (auto simp: trusted_def VerifyAuthorization_def)
next
  case (Some leaf)
  then show thesis using assms that by (auto simp: trusted_def)
qed

text \<open>C2: in a valid result no authority of the chain is exceeded: the capability the attestation exercises is one
  of every authority from the leaf to the root, the validity of the attestation lies within the validity of each
  of them, and each of them grants every request that the leaf authority grants.\<close>

theorem Verify_no_escalation:
  assumes "Verify lib wall e inp = Inr r" and "res_Valid r" and "in_Attestation inp = Some att"
    and "k < length (in_Chain inp)"
  shows "\<exists>a leaf. hop_Authority (in_Chain inp ! k) = Some a \<and> hop_Authority (hd (in_Chain inp)) = Some leaf \<and>
    att_Capability att \<in> set (slice (auth_Capabilities a)) \<and>
    attestation_validitySubset (att_Validity att) (auth_Validity a) \<and>
    (\<forall>rq. authority_grants leaf rq \<longrightarrow> authority_grants a rq)"
proof -
  from assms(1,2) have t: "trusted lib wall e inp"
    using valid_trusted good_context_of by (auto simp: Verify_Inr spec_report_def)
  then obtain leaf where leaf: "hop_Authority (hd (in_Chain inp)) = Some leaf"
    and auth: "VerifyAuthorization wall (Some att) (Some leaf) = Inr ()"
    using assms(3) by (rule trusted_authorized)
  have "trusted_hop lib (evaluation_time e inp) (in_Chain inp ! k)" using t assms(4) by (auto simp: trusted_def)
  then obtain a where a: "hop_Authority (in_Chain inp ! k) = Some a" by (auto simp: trusted_hop_def)
  have "a = leaf \<or> subset_ok a leaf" by (rule trusted_contains [OF t assms(4) leaf a])
  moreover have "att_Capability att \<in> set (slice (auth_Capabilities leaf))"
    "attestation_validitySubset (att_Validity att) (auth_Validity leaf)"
    using auth by (auto simp: VerifyAuthorization_Inr)
  ultimately show ?thesis
    using a leaf chain.narrows_grants [of a leaf]
    by (auto simp: subset_ok_iff capabilitySubset_def list_all_iff attestation_validitySubset_def validitySubset_def
        Before_def After_def)
qed

section \<open>The shape of a result\<close>

lemma spec_result_simps:
  "cr_ID (spec_result run cid) = cid"
  "cr_Status (spec_result run cid) = CheckFailed \<longleftrightarrow> check_fails run cid"
  "cr_Err (spec_result run cid) = (if check_fails run cid then Some (snd (projl (run cid))) else None)"
  by (auto simp: spec_result_def check_fails.simps [of run cid] split: sum.splits)

lemma spec_report_failures:
  "map (\<lambda>f. (fl_Check f, Some (fl_Err f))) (res_Failures (spec_report run prov)) =
    map (\<lambda>c. (cr_ID c, cr_Err c)) (filter (\<lambda>c. cr_Status c = CheckFailed) (res_Checks (spec_report run prov)))"
  by (simp add: spec_report_def spec_failures_def filter_map o_def spec_result_simps cong: map_cong)

lemma spec_report_consistent: "consistent (spec_report run prov)"
  by (simp add: consistent_def spec_report_def spec_failures_def filter_empty_conv pipeline_complete)

lemma check_fails_outcome:
  assumes "good_context (context_of e inp prov)" and "check_fails (outcomes lib wall e inp prov) cid"
    and "\<not> binder_panics (outcomes lib wall e inp prov)"
  shows "trust_error (snd (projl (outcomes lib wall e inp prov cid))) \<and>
    hop_of (context_of e inp prov) (fst (projl (outcomes lib wall e inp prov cid)))" and "cid \<noteq> CheckProvenance"
proof -
  from assms(2) obtain h err where o: "outcomes lib wall e inp prov cid = Inl (h, err)" "err \<noteq> errSkipCheck"
    by (auto simp: check_fails.simps [of _ cid] split: sum.splits)
  have "\<not> (err = RuntimePanic \<and> cid = CheckKeyBinding)"
    using assms(2,3) o(1) by (auto simp: binder_panics_def check_fails.simps [of _ CheckKeyBinding])
  then show "trust_error (snd (projl (outcomes lib wall e inp prov cid))) \<and>
      hop_of (context_of e inp prov) (fst (projl (outcomes lib wall e inp prov cid)))"
    using check_trust [OF assms(1), of lib wall cid h err] o by (auto simp: outcomes_def)
  show "cid \<noteq> CheckProvenance" using o(1) provenance_check_passes [OF assms(1)] by (auto simp: outcomes_def)
qed

text \<open>C13: the invariant of results. In every result the \<open>Valid\<close> flag says whether the list of failures is empty; the
  thirteen checks are listed once each, in order; a check carries an error exactly when its status is failed; the
  failures are the failed checks in the same order with the same errors; every failure is a sentinel of the trust
  taxonomy and never one of a misused interface; the hop of a failure is -1 or an index of the chain; and the
  check of the trace never fails, since the trace it is given was built from the same inputs.\<close>

theorem Verify_result_invariant:
  assumes "Verify lib wall e inp = Inr r"
  shows "consistent r \<and> map cr_ID (res_Checks r) = pipeline \<and>
    (\<forall>c\<in>set (res_Checks r). (cr_Err c \<noteq> None) = (cr_Status c = CheckFailed)) \<and>
    map (\<lambda>f. (fl_Check f, Some (fl_Err f))) (res_Failures r) =
      map (\<lambda>c. (cr_ID c, cr_Err c)) (filter (\<lambda>c. cr_Status c = CheckFailed) (res_Checks r)) \<and>
    (\<forall>f\<in>set (res_Failures r). fl_Check f \<noteq> CheckProvenance \<and>
      (\<exists>s. verr_sentinel (fl_Err f) = Some s \<and> s \<notin> set programmer_sentinels) \<and>
      (fl_Hop f = - 1 \<or> 0 \<le> fl_Hop f \<and> fl_Hop f < int (length (in_Chain inp))))"
proof -
  obtain prov where r: "r = spec_report (outcomes lib wall e inp prov) prov" and ctx: "good_context (context_of e inp prov)"
    and np: "\<not> binder_panics (outcomes lib wall e inp prov)"
    using assms good_context_of by (auto simp: Verify_Inr)
  have "cx_in (context_of e inp prov) = inp" by (simp add: context_of_def)
  then have "\<forall>f\<in>set (res_Failures r). fl_Check f \<noteq> CheckProvenance \<and>
      (\<exists>s. verr_sentinel (fl_Err f) = Some s \<and> s \<notin> set programmer_sentinels) \<and>
      (fl_Hop f = - 1 \<or> 0 \<le> fl_Hop f \<and> fl_Hop f < int (length (in_Chain inp)))"
    using check_fails_outcome [OF ctx _ np]
    by (fastforce simp: r spec_report_def spec_failures_def trust_error_def hop_of_def)
  moreover have "\<forall>c\<in>set (res_Checks r). (cr_Err c \<noteq> None) = (cr_Status c = CheckFailed)" "map cr_ID (res_Checks r) = pipeline"
    by (simp_all add: r spec_report_def spec_result_simps o_def)
  ultimately show ?thesis using spec_report_failures spec_report_consistent r by blast
qed

section \<open>Key versions\<close>

definition version_precedes :: "KeyVersion \<Rightarrow> KeyVersion \<Rightarrow> bool" where
  "version_precedes v w \<longleftrightarrow> instant (kv_BoundAt v) < instant (kv_BoundAt w) \<or>
    (instant (kv_BoundAt v) = instant (kv_BoundAt w) \<and> kv_Version v \<le> kv_Version w)"

lemma keyVersionAt_loop_inv:
  assumes "keyVersionAt_loop now bound vs = r"
  shows "(r = None \<longleftrightarrow> bound = None \<and> (\<forall>v\<in>set vs. Before now (kv_BoundAt v))) \<and>
    (\<forall>w. r = Some w \<longrightarrow> (bound = Some w \<or> w \<in> set vs \<and> \<not> Before now (kv_BoundAt w)) \<and>
      (\<forall>b. bound = Some b \<longrightarrow> version_precedes b w) \<and>
      (\<forall>v\<in>set vs. \<not> Before now (kv_BoundAt v) \<longrightarrow> version_precedes v w))"
  using assms
proof (induction now bound vs rule: keyVersionAt_loop.induct)
  case (2 now bound v vs)
  show ?case
  proof (cases "Before now (kv_BoundAt v)")
    case True
    then show ?thesis using 2 by auto
  next
    case False
    then show ?thesis using 2
      by (auto simp: version_precedes_def After_def time_Equal_def split: option.splits if_splits)
  qed
qed (auto simp: version_precedes_def)

section \<open>A concrete run\<close>

text \<open>
  An attestation under a chain of two authorities, leaf and root, valid from instant 1 to 9 and
  evaluated at instant 2. The references are the hashes of the two authorities.
\<close>

definition demo_instant :: "int \<Rightarrow> gtime" where
  "demo_instant n = \<lparr>instant = n, zone_offset = 0\<rparr>"

definition demo_validity :: Validity where
  "demo_validity = \<lparr>NotBefore = demo_instant 1, NotAfter = demo_instant 9\<rparr>"

definition demo_sig :: bytes where
  "demo_sig = be_bytes 32 1 @ be_bytes 32 1"

definition demo_granted :: "string option \<Rightarrow> Authority" where
  "demo_granted parent = demo_authority\<lparr>auth_Parent := parent, auth_Validity := demo_validity,
    auth_Proof := \<lparr>pr_Algorithm = 2, pr_KeyID = ''k'', pr_Signature = Some demo_sig\<rparr>\<rparr>"

definition demo_signed :: "string \<Rightarrow> Attestation" where
  "demo_signed ref = demo_attestation\<lparr>att_AuthorityRef := ref, att_IssuedAt := demo_instant 1,
    att_Claim := (att_Claim demo_attestation)\<lparr>cl_Validity := demo_validity\<rparr>, att_Validity := demo_validity,
    att_Signature := Some demo_sig\<rparr>"

definition demo_inputs :: "string \<Rightarrow> string \<Rightarrow> Inputs" where
  "demo_inputs leaf root = \<lparr>in_Attestation = Some (demo_signed leaf), in_SigningKey = PubSecp256k1 (5, 5),
    in_Chain = [\<lparr>hop_Authority = Some (demo_granted (Some root)), hop_PublicKey = PubSecp256k1 (5, 5)\<rparr>,
                \<lparr>hop_Authority = Some (demo_granted None), hop_PublicKey = PubSecp256k1 (5, 5)\<rparr>],
    in_IdentityResolver = None, in_KeyVersions = [], in_Evidence = Map.empty, in_Commitments = [],
    in_Now = demo_instant 2\<rparr>"

definition demo_engine :: Engine where
  "demo_engine = NewEngine zero_time (\<lambda>_ _. Inl (Sentinel V_ErrKeyBinding)) []"

lemma time_json_instant: "0 \<le> n \<Longrightarrow> n < 1000000000 \<Longrightarrow> time_json (demo_instant n) = Some (format_rfc3339 (demo_instant n))"
  by (simp add: time_json_def local_year_def local_seconds_def demo_instant_def year_day_def Let_def)

lemma demo_granted_hash: "\<exists>h. authority_CanonicalHash (Some (demo_granted parent)) = Inr h \<and> length h = 32"
proof -
  let ?a = "unsigned_authority (demo_granted parent)"
  have "\<exists>j. authority_json ?a = Some j \<and> json_depth j \<le> 10000 \<and> numbers_ok j"
    by (cases parent) (simp_all add: demo_granted_def demo_authority_def demo_validity_def unsigned_authority_def struct_json_eval
        time_json_instant)
  then obtain h where h: "canonical_CanonicalHash (Some EncodingJSON) (authority_json ?a) None = Inr h"
    using canonical_CanonicalHash_JSON by blast
  then show ?thesis
    using canonical_CanonicalHash_length [OF h] by (simp add: authority_CanonicalHash_def authority_CanonicalEncoding_def)
qed

lemma demo_signed_hash: "\<exists>h. attestation_CanonicalHash (Some (demo_signed ref)) = Inr h \<and> length h = 32"
proof -
  let ?a = "(demo_signed ref)\<lparr>att_Signature := None\<rparr>"
  have "\<exists>j. attestation_json ?a = Some j \<and> json_depth j \<le> 10000 \<and> numbers_ok j"
    by (simp add: demo_signed_def demo_attestation_def demo_scope_def demo_authority_def demo_validity_def attestation_json_def
        claim_json_def claimtype_json_def claimprovenance_json_def struct_json_eval time_json_instant)
  then obtain h where h: "canonical_CanonicalHash (Some EncodingJSON) (attestation_json ?a) None = Inr h"
    using canonical_CanonicalHash_JSON by blast
  then show ?thesis
    using canonical_CanonicalHash_length [OF h] by (simp add: attestation_CanonicalHash_def attestation_CanonicalEncoding_def)
qed

lemma demo_claim_hash: "\<exists>h. claim_CanonicalHash (Some (att_Claim (demo_signed ref))) = Inr h"
proof -
  let ?c = "att_Claim (demo_signed ref)"
  have "\<exists>j. claim_json ?c = Some j \<and> json_depth j \<le> 10000 \<and> numbers_ok j"
    by (simp add: demo_signed_def demo_attestation_def demo_scope_def demo_authority_def demo_validity_def
        claim_json_def claimtype_json_def claimprovenance_json_def struct_json_eval time_json_instant)
  then obtain h where "canonical_CanonicalHash (Some EncodingJSON) (claim_json ?c) None = Inr h"
    using canonical_CanonicalHash_JSON by blast
  then show ?thesis by (simp add: claim_CanonicalHash_def claim_CanonicalEncoding_def)
qed

lemma demo_key_verify: "length h = 32 \<Longrightarrow> key_verify demo_lib (PubSecp256k1 (5, 5)) demo_sig h"
proof -
  assume "length h = 32"
  moreover have "\<not> IsOverHalfOrder (1 mod secp256k1_N)" by (simp add: IsOverHalfOrder_def secp256k1_N_def)
  moreover have "1 mod secp256k1_N = 1" by (simp add: secp256k1_N_def)
  ultimately show ?thesis
    by (simp add: key_verify_def demo_sig_def secp256k1_Verify_split be_val_be_bytes demo_lib_def)
qed

lemma demo_provenance: "\<exists>prov. BuildProvenance (demo_inputs leaf root) = Inr prov"
proof -
  obtain a c g0 g1 where "attestation_CanonicalHash (Some (demo_signed leaf)) = Inr a"
    "claim_CanonicalHash (Some (att_Claim (demo_signed leaf))) = Inr c"
    "authority_CanonicalHash (Some (demo_granted (Some root))) = Inr g0"
    "authority_CanonicalHash (Some (demo_granted None)) = Inr g1"
    using demo_signed_hash demo_claim_hash demo_granted_hash by metis
  then show ?thesis by (simp add: BuildProvenance_def demo_inputs_def hashRef_def lift_error_def)
qed

lemma demo_refs:
  obtains h0 h1 where "authority_CanonicalHash (Some (demo_granted None)) = Inr h0" "length h0 = 32"
    "authority_CanonicalHash (Some (demo_granted (Some (hex_EncodeToString h0)))) = Inr h1" "length h1 = 32"
  using demo_granted_hash by metis

lemma demo_authorized:
  assumes "authority_CanonicalHash (Some (demo_granted parent)) = Inr h" and "length h = 32"
    and "1 \<le> instant wall" and "instant wall \<le> 9"
  shows "VerifyAuthorization wall (Some (demo_signed (hex_EncodeToString h))) (Some (demo_granted parent)) = Inr ()"
proof -
  have "length (hex_EncodeToString h) \<noteq> 0" using assms(2) by simp
  then have "hex_EncodeToString h \<noteq> []" by blast
  then show ?thesis
    unfolding VerifyAuthorization_Inr using assms
    by (simp add: demo_granted_def demo_signed_def demo_attestation_def demo_scope_def demo_authority_def StatusActive_def
        demo_validity_def demo_instant_def validityContains_def attestation_validitySubset_def attestation_scopeSubset_def
        attestation_stringSliceSubset_def Before_def After_def)
qed

lemma demo_structural: "ref \<noteq> [] \<Longrightarrow> attestation_Validate (Some (demo_signed ref)) = Inr ()"
  by (simp add: attestation_Validate_def demo_signed_def demo_attestation_def demo_validity_def demo_instant_def IsZero_def
      CapabilityAttest_def claim_Validate_def demo_scope_def demo_authority_def ValidateScope_def known_status_def
      status_defs)

lemma demo_links:
  assumes "authority_CanonicalHash (Some (demo_granted None)) = Inr h"
  shows "links_to \<lparr>hop_Authority = Some (demo_granted (Some (hex_EncodeToString h))), hop_PublicKey = k\<rparr>
    \<lparr>hop_Authority = Some (demo_granted None), hop_PublicKey = k'\<rparr>"
proof -
  have "subset_ok (demo_granted None) (demo_granted (Some (hex_EncodeToString h)))"
    by (simp add: subset_ok_iff demo_granted_def demo_authority_def delegationDepthOK_def scopeSubset_def stringSliceSubset_def
        timeWindowSubset_def quantitySubset_def monetarySubset_def validitySubset_def demo_validity_def Before_def After_def)
  moreover have "auth_Parent (demo_granted (Some (hex_EncodeToString h))) = Some (hex_EncodeToString h)"
    by (simp add: demo_granted_def)
  ultimately show ?thesis using assms by (simp add: links_to_def subset_ok_def)
qed

lemma demo_hop:
  assumes "1 \<le> instant now" and "instant now \<le> 9"
  shows "trusted_hop demo_lib now \<lparr>hop_Authority = Some (demo_granted parent), hop_PublicKey = PubSecp256k1 (5, 5)\<rparr>"
proof -
  obtain h where "authority_CanonicalHash (Some (demo_granted parent)) = Inr h" "length h = 32"
    using demo_granted_hash by blast
  with assms demo_key_verify [of h] show ?thesis
    by (simp add: trusted_hop_def VerifyAuthorityProof_Inr key_algorithms demo_granted_def demo_authority_def demo_validity_def
        demo_instant_def validityContains_def Before_def After_def StatusActive_def)
qed

lemma demo_trusted:
  assumes "authority_CanonicalHash (Some (demo_granted None)) = Inr h0" and "length h0 = 32"
    and "authority_CanonicalHash (Some (demo_granted (Some (hex_EncodeToString h0)))) = Inr h1" and "length h1 = 32"
    and "1 \<le> instant wall" and "instant wall \<le> 9"
  shows "trusted demo_lib wall demo_engine (demo_inputs (hex_EncodeToString h1) (hex_EncodeToString h0))"
proof -
  let ?att = "demo_signed (hex_EncodeToString h1)"
  have now: "evaluation_time demo_engine (demo_inputs l r) = demo_instant 2" for l r
    by (simp add: evaluation_time_def demo_inputs_def demo_instant_def IsZero_def)
  obtain h where "attestation_CanonicalHash (Some ?att) = Inr h" "length h = 32" using demo_signed_hash by blast
  then have "VerifySignature demo_lib (Some ?att) (PubSecp256k1 (5, 5)) = Inr ()"
    using demo_key_verify [of h]
    by (simp add: VerifySignature_Inr key_algorithms demo_signed_def demo_attestation_def)
  moreover have "length (hex_EncodeToString h1) \<noteq> 0" using assms(4) by simp
  then have "attestation_Validate (Some ?att) = Inr ()" by (intro demo_structural) blast
  moreover have "validityContains (att_Validity ?att) (demo_instant 2)" "slice (att_Evidence ?att) = []"
    by (simp_all add: demo_signed_def demo_attestation_def demo_validity_def demo_instant_def validityContains_def Before_def
        After_def)
  moreover have "trusted_hop demo_lib (demo_instant 2) \<lparr>hop_Authority = Some (demo_granted p), hop_PublicKey = PubSecp256k1 (5, 5)\<rparr>" for p
    by (intro demo_hop) (simp_all add: demo_instant_def)
  moreover have "auth_Parent (demo_granted None) = None" by (simp add: demo_granted_def)
  ultimately show ?thesis
    using demo_authorized [OF assms(3-6)] demo_links [OF assms(1)]
    unfolding trusted_def now
    by (simp add: demo_inputs_def current_version_def trusted_identity_def trusted_commitments_def demo_engine_def NewEngine_def)
qed

lemma demo_run:
  obtains inp r where "Verify demo_lib (demo_instant 2) demo_engine inp = Inr r" "res_Valid r"
    "\<exists>leaf root. inp = demo_inputs leaf root"
proof -
  obtain h0 h1 where h: "authority_CanonicalHash (Some (demo_granted None)) = Inr h0" "length h0 = 32"
    "authority_CanonicalHash (Some (demo_granted (Some (hex_EncodeToString h0)))) = Inr h1" "length h1 = 32"
    by (rule demo_refs)
  let ?inp = "demo_inputs (hex_EncodeToString h1) (hex_EncodeToString h0)"
  obtain prov where prov: "BuildProvenance ?inp = Inr prov" using demo_provenance by blast
  have ok: "in_Attestation ?inp \<noteq> None" "in_SigningKey ?inp \<noteq> PubNil" "in_Chain ?inp \<noteq> []" by (simp_all add: demo_inputs_def)
  have "trusted demo_lib (demo_instant 2) demo_engine ?inp"
    using demo_trusted [OF h, of "demo_instant 2"] by (simp add: demo_instant_def)
  then have none: "\<forall>cid. \<not> check_fails (outcomes demo_lib (demo_instant 2) demo_engine ?inp prov) cid"
    using valid_trusted [OF good_context_of [OF ok(1,3) prov]] by simp
  let ?r = "spec_report (outcomes demo_lib (demo_instant 2) demo_engine ?inp prov) prov"
  have "Verify demo_lib (demo_instant 2) demo_engine ?inp = Inr ?r"
    using Verify_report [OF ok prov] no_failures_no_panic [OF none] by simp
  moreover have "res_Valid ?r" using none by (simp add: spec_report_def)
  ultimately show thesis using that by blast
qed

lemma demo_no_panic: "\<not> binder_panics (outcomes lib wall e (demo_inputs leaf root) prov)"
  by (simp add: binder_panics_def outcomes_def context_of_def checkKeyBinding_def checkSigningKeyVersion_def demo_inputs_def)

theorem BuildProvenance_closed_witness:
  "\<exists>inp p. BuildProvenance inp = Inr p \<and> length (in_Chain inp) = 2 \<and>
    length (filter (\<lambda>l. ln_Kind l = NodeDelegation) (pv_Links p)) = 1"
proof -
  obtain p where p: "BuildProvenance (demo_inputs [] []) = Inr p" using demo_provenance by blast
  have "length (in_Chain (demo_inputs [] [])) = 2" by (simp add: demo_inputs_def)
  with BuildProvenance_closed [OF p] p show ?thesis by fastforce
qed

theorem Verify_no_escalation_witness:
  "\<exists>inp r att a leaf. Verify demo_lib (demo_instant 2) demo_engine inp = Inr r \<and> res_Valid r \<and>
    in_Attestation inp = Some att \<and> length (in_Chain inp) = 2 \<and> hop_Authority (in_Chain inp ! 1) = Some a \<and>
    hop_Authority (hd (in_Chain inp)) = Some leaf \<and> a \<noteq> leaf \<and> att_Capability att \<in> set (slice (auth_Capabilities a)) \<and>
    (\<forall>rq. authority_grants leaf rq \<longrightarrow> authority_grants a rq)"
proof -
  obtain inp r leaf root where run: "Verify demo_lib (demo_instant 2) demo_engine inp = Inr r" "res_Valid r"
    and inp: "inp = demo_inputs leaf root" by (rule demo_run) blast
  have i: "in_Attestation inp = Some (demo_signed leaf)" "1 < length (in_Chain inp)" "length (in_Chain inp) = 2"
    "hop_Authority (in_Chain inp ! 1) = Some (demo_granted None)"
    "hop_Authority (hd (in_Chain inp)) = Some (demo_granted (Some root))"
    by (simp_all add: inp demo_inputs_def)
  have "auth_Parent (demo_granted p) = p" for p by (simp add: demo_granted_def)
  then have "demo_granted None \<noteq> demo_granted (Some root)" by (metis option.distinct(1))
  moreover have "att_Capability (demo_signed leaf) \<in> set (slice (auth_Capabilities (demo_granted None)))"
    "\<forall>rq. authority_grants (demo_granted (Some root)) rq \<longrightarrow> authority_grants (demo_granted None) rq"
    using Verify_no_escalation [OF run i(1,2)] by (auto simp only: i option.inject)
  ultimately show ?thesis using run i by blast
qed

theorem Verify_result_invariant_witness:
  "\<exists>inp r. Verify demo_lib (demo_instant 2) demo_engine inp = Inr r \<and> consistent r \<and> map cr_ID (res_Checks r) = pipeline \<and>
    (\<forall>c\<in>set (res_Checks r). (cr_Err c \<noteq> None) = (cr_Status c = CheckFailed))"
proof -
  obtain inp r where run: "Verify demo_lib (demo_instant 2) demo_engine inp = Inr r" by (rule demo_run) blast
  with Verify_result_invariant [OF run] show ?thesis by blast
qed

text \<open>skipping does not propagate. When the structural check fails, the signature check is skipped; but the
  checks gated on the signature, authorization and key binding, look only for a failed signature check, so they
  are run on the malformed and unauthenticated attestation and add failures of their own.\<close>

theorem Verify_skip_not_transitive:
  assumes "Verify lib wall e inp = Inr r" and "attestation_Validate (in_Attestation inp) = Inl err"
    and "c \<in> set (res_Checks r)"
  shows "(cr_ID c = CheckStructural \<longrightarrow> cr_Status c = CheckFailed) \<and>
    (cr_ID c = CheckSignature \<longrightarrow> cr_Status c = CheckSkipped) \<and>
    (cr_ID c \<in> {CheckAuthorization, CheckKeyBinding} \<longrightarrow> cr_Status c \<noteq> CheckSkipped)"
proof -
  obtain prov where r: "r = spec_report (outcomes lib wall e inp prov) prov" and ctx: "good_context (context_of e inp prov)"
    using assms(1) good_context_of by (auto simp: Verify_Inr)
  let ?run = "outcomes lib wall e inp prov"
  have "?run CheckStructural = fail (SentinelOf V_ErrStructural err)"
    using assms(2) by (simp add: outcomes_def checkStructural_def context_of_def)
  then have s: "check_fails ?run CheckStructural" by (simp add: check_fails.simps [of _ CheckStructural] fail_def)
  then have "\<not> check_fails ?run CheckSignature" by (simp add: check_fails.simps [of _ CheckSignature])
  then have "cr_Status (spec_result ?run cid) \<noteq> CheckSkipped" if "cid \<in> {CheckAuthorization, CheckKeyBinding}" for cid
    using check_trust [OF ctx, of lib wall cid] that
    by (auto simp: spec_result_def outcomes_def split: sum.splits)
  moreover have "cr_Status (spec_result ?run CheckSignature) = CheckSkipped" using s by (simp add: spec_result_def)
  moreover have "cr_Status (spec_result ?run CheckStructural) = CheckFailed" using s by (simp add: spec_result_simps)
  ultimately show ?thesis using assms(3) by (auto simp: r spec_report_def spec_result_simps)
qed

theorem Verify_skip_not_transitive_witness:
  "\<exists>r. Verify demo_lib (demo_instant 2) demo_engine (demo_inputs [] []) = Inr r \<and>
    (\<forall>c\<in>set (res_Checks r). cr_ID c = CheckAuthorization \<longrightarrow> cr_Status c \<noteq> CheckSkipped)"
proof -
  obtain prov where prov: "BuildProvenance (demo_inputs [] []) = Inr prov" using demo_provenance by blast
  let ?r = "spec_report (outcomes demo_lib (demo_instant 2) demo_engine (demo_inputs [] []) prov) prov"
  have v: "Verify demo_lib (demo_instant 2) demo_engine (demo_inputs [] []) = Inr ?r"
    using Verify_report [OF _ _ _ prov, of demo_lib "demo_instant 2" demo_engine] demo_no_panic by (simp add: demo_inputs_def)
  have "attestation_Validate (in_Attestation (demo_inputs [] [])) = Inl ErrEmptyAuthorityRef"
    by (simp add: attestation_Validate_def demo_inputs_def demo_signed_def demo_attestation_def)
  from Verify_skip_not_transitive [OF v this] v show ?thesis by blast
qed

text \<open>C15: the evaluation instant of the inputs does not decide whether an attestation is current: authorization reads
  the wall clock. A result is not valid when the wall clock is outside the validity of the attestation, whatever
  \<open>Now\<close> and the engine clock are.\<close>

theorem Verify_reads_wall_clock:
  assumes "Verify lib wall e inp = Inr r" and "in_Attestation inp = Some att"
    and "\<not> validityContains (att_Validity att) wall"
  shows "\<not> res_Valid r"
proof
  assume "res_Valid r"
  with assms(1) have "trusted lib wall e inp"
    using valid_trusted good_context_of by (auto simp: Verify_Inr spec_report_def)
  then obtain g where "VerifyAuthorization wall (Some att) (Some g) = Inr ()"
    using assms(2) by (rule trusted_authorized)
  with assms(3) show False by (simp add: VerifyAuthorization_Inr)
qed

theorem Verify_reads_wall_clock_witness:
  "\<exists>inp r r'. in_Now inp = demo_instant 2 \<and>
    Verify demo_lib (demo_instant 2) demo_engine inp = Inr r \<and> res_Valid r \<and>
    Verify demo_lib (demo_instant 20) demo_engine inp = Inr r' \<and> \<not> res_Valid r'"
proof -
  obtain inp r leaf root where run: "Verify demo_lib (demo_instant 2) demo_engine inp = Inr r" "res_Valid r"
    and inp: "inp = demo_inputs leaf root" by (rule demo_run) blast
  obtain r' where r': "Verify demo_lib (demo_instant 20) demo_engine inp = Inr r'"
    using run(1) by (auto simp: Verify_Inr inp demo_no_panic)
  have "in_Attestation inp = Some (demo_signed leaf)" "in_Now inp = demo_instant 2" by (simp_all add: inp demo_inputs_def)
  moreover have "\<not> validityContains (att_Validity (demo_signed leaf)) (demo_instant 20)"
    by (simp add: demo_signed_def demo_validity_def demo_instant_def validityContains_def Before_def After_def)
  ultimately show ?thesis using Verify_reads_wall_clock [OF r'] run r' by blast
qed

text \<open>the version in force. \<open>keyVersionAt\<close> finds no version exactly when all were bound later; otherwise the one
  it returns was bound by then, and it is the one bound last, the highest version deciding a tie: a version with a
  higher number that was bound earlier does not count.\<close>

theorem keyVersionAt_latest:
  "(keyVersionAt history now = None \<longleftrightarrow> (\<forall>v\<in>set history. Before now (kv_BoundAt v))) \<and>
   (\<forall>w. keyVersionAt history now = Some w \<longrightarrow> w \<in> set history \<and> \<not> Before now (kv_BoundAt w) \<and>
     (\<forall>v\<in>set history. \<not> Before now (kv_BoundAt v) \<longrightarrow> version_precedes v w))"
  using keyVersionAt_loop_inv [of now None history] by (auto simp: keyVersionAt_def)

definition demo_version :: "u64 \<Rightarrow> int \<Rightarrow> KeyVersion" where
  "demo_version v n = \<lparr>kv_Version = v, kv_BoundAt = demo_instant n, kv_RevokedAt = zero_time\<rparr>"

theorem keyVersionAt_latest_witness:
  "keyVersionAt [demo_version 2 1, demo_version 1 3, demo_version 3 9] (demo_instant 5) = Some (demo_version 1 3) \<and>
   version_precedes (demo_version 2 1) (demo_version 1 3) \<and> keyVersionAt [demo_version 3 9] (demo_instant 5) = None"
proof -
  let ?h = "[demo_version 2 1, demo_version 1 3, demo_version 3 9]"
  have "keyVersionAt ?h (demo_instant 5) = Some (demo_version 1 3)"
    by (simp add: keyVersionAt_def demo_version_def demo_instant_def Before_def After_def)
  moreover have "\<not> Before (demo_instant 5) (kv_BoundAt (demo_version 2 1))" "Before (demo_instant 5) (kv_BoundAt (demo_version 3 9))"
    by (simp_all add: demo_version_def demo_instant_def Before_def)
  ultimately show ?thesis
    using keyVersionAt_latest [of ?h "demo_instant 5"] keyVersionAt_latest [of "[demo_version 3 9]" "demo_instant 5"] by auto
qed

end
