(* ===== verification/Ec.thy ===== *)
theory Ec
  imports Keys GoText
begin

text \<open>
  What the identity and verification packages use of the standard library on curve points and key
  text: the parameters of P-256 and P-384 with the point decoders of \<^verbatim>\<open>crypto/elliptic\<close>, and unpadded
  URL base64 of \<^verbatim>\<open>encoding/base64\<close>. The field prime of both curves is 3 modulo 4, so a square root
  is a power.
\<close>

section \<open>Curve parameters\<close>

fun curve_P :: "Curve \<Rightarrow> nat" where
  "curve_P P256 = 0xffffffff00000001000000000000000000000000ffffffffffffffffffffffff"
| "curve_P P384 = 2 ^ 384 - 2 ^ 128 - 2 ^ 96 + 2 ^ 32 - 1"
| "curve_P CurveOther = 1"

fun curve_N :: "Curve \<Rightarrow> nat" where
  "curve_N P256 = 0xffffffff00000000ffffffffffffffffbce6faada7179e84f3b9cac2fc632551"
| "curve_N P384 = 0xffffffffffffffffffffffffffffffffffffffffffffffffc7634d81f4372ddf581a0db248b0a77aecec196accc52973"
| "curve_N CurveOther = 1"

fun curve_B :: "Curve \<Rightarrow> nat" where
  "curve_B P256 = 0x5ac635d8aa3a93e7b3ebbd55769886bc651d06b0cc53b0f63bce3c3e27d2604b"
| "curve_B P384 = 0xb3312fa7e23ee7e4988e056be3f82d19181d9c6efe8141120314088f5013875ac656398d8a2ed19d2a85c8edd3ec2aef"
| "curve_B CurveOther = 0"

fun curve_BitSize :: "Curve \<Rightarrow> nat" where
  "curve_BitSize P256 = 256"
| "curve_BitSize P384 = 384"
| "curve_BitSize CurveOther = 0"

text \<open>The right-hand side of \<open>y\<^sup>2 = x\<^sup>3 - 3x + b\<close>.\<close>

definition curve_poly :: "Curve \<Rightarrow> nat \<Rightarrow> nat" where
  "curve_poly c x = (x ^ 3 + (curve_P c - 3) * x + curve_B c) mod curve_P c"

definition IsOnCurve :: "Curve \<Rightarrow> nat \<Rightarrow> nat \<Rightarrow> bool" where
  "IsOnCurve c x y \<longleftrightarrow> x < curve_P c \<and> y < curve_P c \<and> \<not> (x = 0 \<and> y = 0) \<and> (y * y) mod curve_P c = curve_poly c x"

fun mod_pow :: "nat \<Rightarrow> nat \<Rightarrow> nat \<Rightarrow> nat" where
  "mod_pow m b e =
    (if e = 0 then 1 mod m
     else let h = mod_pow m (b * b mod m) (e div 2) in if odd e then b * h mod m else h)"

declare mod_pow.simps [simp del]

definition mod_sqrt :: "nat \<Rightarrow> nat \<Rightarrow> nat option" where
  "mod_sqrt p a = (let r = mod_pow p a ((p + 1) div 4) in if r * r mod p = a mod p then Some r else None)"

section \<open>Point decoding\<close>

definition elliptic_Unmarshal :: "Curve \<Rightarrow> bytes \<Rightarrow> point option" where
  "elliptic_Unmarshal c data =
    (let n = (curve_BitSize c + 7) div 8; x = be_val (take n (drop 1 data)); y = be_val (drop (1 + n) data)
     in if length data = 1 + 2 * n \<and> data ! 0 = 4 \<and> IsOnCurve c x y then Some (x, y) else None)"

definition elliptic_UnmarshalCompressed :: "Curve \<Rightarrow> bytes \<Rightarrow> point option" where
  "elliptic_UnmarshalCompressed c data =
    (let n = (curve_BitSize c + 7) div 8; x = be_val (drop 1 data)
     in if length data = 1 + n \<and> (data ! 0 = 2 \<or> data ! 0 = 3) \<and> x < curve_P c
        then (case mod_sqrt (curve_P c) (curve_poly c x) of
            None \<Rightarrow> None
          | Some y \<Rightarrow> Some (x, if odd y = (data ! 0 = 3) then y else (curve_P c - y) mod curve_P c))
        else None)"

lemma mod_pow_eq: "mod_pow m b e = b ^ e mod m"
proof (induction m b e rule: mod_pow.induct)
  case (1 m b e)
  show ?case
  proof (cases "e = 0")
    case False
    have "b ^ (e mod 2 + 2 * (e div 2)) = b ^ (e mod 2) * (b * b) ^ (e div 2)"
      by (simp only: power_add power_mult power2_eq_square)
    then have "b ^ e = b ^ (e mod 2) * (b * b) ^ (e div 2)" by simp
    moreover have "mod_pow m (b * b mod m) (e div 2) = (b * b) ^ (e div 2) mod m"
      using 1 False by (simp add: power_mod)
    ultimately show ?thesis
      using False by (auto simp: mod_pow.simps [of m b e] Let_def mod_mult_right_eq odd_iff_mod_2_eq_one)
  qed (simp add: mod_pow.simps)
qed

lemma mod_sqrt_Some: "mod_sqrt p a = Some r \<Longrightarrow> 0 < p \<Longrightarrow> r * r mod p = a mod p \<and> r < p"
  by (auto simp: mod_sqrt_def mod_pow_eq Let_def split: if_splits)

lemma curve_P_pos: "0 < curve_P c"
  by (cases c) simp_all

lemma curve_B_nonzero: "c \<noteq> CurveOther \<Longrightarrow> curve_poly c 0 \<noteq> 0"
  by (cases c) (simp_all add: curve_poly_def)

lemma negate_square: "y < p \<Longrightarrow> ((p - y) mod p) * ((p - y) mod p) mod p = (y * y) mod (p :: nat)"
proof -
  assume "y < p"
  then obtain z where p: "p = y + z" by (metis less_imp_add_positive)
  have "(p - y) * (p - y) + p * y = y * y + p * z" by (simp add: p algebra_simps)
  then have "((p - y) * (p - y) + p * y) mod p = (y * y + p * z) mod p" by simp
  then show ?thesis by (simp add: mod_mult_eq)
qed

text \<open>Whatever the decoder of compressed points returns lies on the curve and has the abscissa of the input.\<close>

lemma UnmarshalCompressed_on_curve:
  assumes "elliptic_UnmarshalCompressed c data = Some (x, y)" and "c \<noteq> CurveOther"
  shows "IsOnCurve c x y \<and> x = be_val (drop 1 data)"
proof -
  obtain r where r: "mod_sqrt (curve_P c) (curve_poly c x) = Some r" and x: "x = be_val (drop 1 data)" "x < curve_P c"
    and y: "y = r \<or> y = (curve_P c - r) mod curve_P c"
    using assms(1) by (auto simp: elliptic_UnmarshalCompressed_def Let_def split: if_splits option.splits)
  have sq: "r * r mod curve_P c = curve_poly c x" "r < curve_P c"
    using mod_sqrt_Some [OF r curve_P_pos] by (simp_all add: curve_poly_def)
  then have "y * y mod curve_P c = curve_poly c x" using y negate_square [OF sq(2)] by auto
  moreover have "y < curve_P c" using y sq(2) curve_P_pos [of c] by auto
  moreover have "\<not> (x = 0 \<and> y = 0)" using calculation(1) curve_B_nonzero [OF assms(2)] by fastforce
  ultimately show ?thesis using x by (simp add: IsOnCurve_def)
qed

section \<open>Unpadded URL base64\<close>

definition url64_char :: "nat \<Rightarrow> char" where
  "url64_char d = (if d = 62 then CHR ''-'' else if d = 63 then CHR ''_'' else base64_char d)"

fun url64_encode :: "bytes \<Rightarrow> string" where
  "url64_encode [] = []"
| "url64_encode [a] = [url64_char (unat a div 4), url64_char (unat a mod 4 * 16)]"
| "url64_encode [a, b] =
    [url64_char (unat a div 4), url64_char (unat a mod 4 * 16 + unat b div 16), url64_char (unat b mod 16 * 4)]"
| "url64_encode (a # b # c # s) =
    [url64_char (unat a div 4), url64_char (unat a mod 4 * 16 + unat b div 16),
     url64_char (unat b mod 16 * 4 + unat c div 64), url64_char (unat c mod 64)] @ url64_encode s"

definition url64_val :: "char \<Rightarrow> nat option" where
  "url64_val c =
    (if CHR ''A'' \<le> c \<and> c \<le> CHR ''Z'' then Some (of_char c - 65)
     else if CHR ''a'' \<le> c \<and> c \<le> CHR ''z'' then Some (of_char c - 71)
     else if CHR ''0'' \<le> c \<and> c \<le> CHR ''9'' then Some (of_char c + 4)
     else if c = CHR ''-'' then Some 62 else if c = CHR ''_'' then Some 63 else None)"

text \<open>The decoder skips line breaks, refuses a single left-over character, and ignores surplus low bits.\<close>

fun url64_groups :: "nat list \<Rightarrow> bytes option" where
  "url64_groups [] = Some []"
| "url64_groups [_] = None"
| "url64_groups [a, b] = Some [word_of_nat (a * 4 + b div 16)]"
| "url64_groups [a, b, c] = Some [word_of_nat (a * 4 + b div 16), word_of_nat (b mod 16 * 16 + c div 4)]"
| "url64_groups (a # b # c # d # ds) =
    map_option (\<lambda>bs. word_of_nat (a * 4 + b div 16) # word_of_nat (b mod 16 * 16 + c div 4) #
      word_of_nat (c mod 4 * 64 + d) # bs) (url64_groups ds)"

fun url64_vals :: "string \<Rightarrow> nat list option" where
  "url64_vals [] = Some []"
| "url64_vals (c # cs) =
    (if c = CHR 0x0A \<or> c = CHR 0x0D then url64_vals cs
     else case url64_val c of None \<Rightarrow> None | Some v \<Rightarrow> map_option ((#) v) (url64_vals cs))"

definition url64_decode :: "string \<Rightarrow> bytes option" where
  "url64_decode s = Option.bind (url64_vals s) url64_groups"

lemma url64_val_char: "d < 64 \<Longrightarrow> url64_val (url64_char d) = Some d"
  by (auto simp: url64_val_def url64_char_def base64_char_def less_eq_char_def)

lemma url64_char_no_break: "url64_char d \<noteq> CHR 0x0A" "url64_char d \<noteq> CHR 0x0D"
proof -
  have "of_char (url64_char d) \<noteq> (10 :: nat)" "of_char (url64_char d) \<noteq> (13 :: nat)"
    by (auto simp: url64_char_def base64_char_def)
  then show "url64_char d \<noteq> CHR 0x0A" "url64_char d \<noteq> CHR 0x0D" by auto
qed

lemma url64_vals_char: "d < 64 \<Longrightarrow> url64_vals (url64_char d # cs) = map_option ((#) d) (url64_vals cs)"
  by (simp add: url64_val_char url64_char_no_break)

lemma byte_parts:
  fixes a :: byte
  shows "unat a div 4 < 64" "unat a div 16 < 16" "unat a div 64 < 4" "unat a mod 4 < 4" "unat a mod 16 < 16" "unat a mod 64 < 64"
proof -
  have "unat a < 256" by (rule unat_byte)
  then show "unat a div 4 < 64" "unat a div 16 < 16" "unat a div 64 < 4" by (simp_all add: less_mult_imp_div_less)
qed simp_all

lemma sextets:
  fixes a b c :: byte
  shows "unat a div 4 < 64" "unat a mod 4 * 16 + unat b div 16 < 64" "unat a mod 4 * 16 < 64"
    "unat b mod 16 * 4 + unat c div 64 < 64" "unat b mod 16 * 4 < 64" "unat c mod 64 < 64"
  using byte_parts [of a] byte_parts [of b] byte_parts [of c] by linarith+

lemma unpack: "q < k \<Longrightarrow> (m * k + q) div k = m" "q < k \<Longrightarrow> (m * k + q) mod k = (q :: nat)"
  by simp_all

lemma octets:
  fixes a b c :: byte
  shows "word_of_nat (unat a div 4 * 4 + (unat a mod 4 * 16 + unat b div 16) div 16) = a"
    "word_of_nat (unat a div 4 * 4 + (unat a mod 4 * 16) div 16) = a"
    "word_of_nat ((unat a mod 4 * 16 + unat b div 16) mod 16 * 16 + (unat b mod 16 * 4 + unat c div 64) div 4) = b"
    "word_of_nat ((unat a mod 4 * 16 + unat b div 16) mod 16 * 16 + (unat b mod 16 * 4) div 4) = b"
    "word_of_nat ((unat b mod 16 * 4 + unat c div 64) mod 4 * 64 + unat c mod 64) = c"
proof -
  have "unat a div 4 * 4 + (unat a mod 4 * 16 + unat b div 16) div 16 = unat a"
    "unat a div 4 * 4 + (unat a mod 4 * 16) div 16 = unat a"
    "(unat a mod 4 * 16 + unat b div 16) mod 16 * 16 + (unat b mod 16 * 4 + unat c div 64) div 4 = unat b"
    "(unat a mod 4 * 16 + unat b div 16) mod 16 * 16 + (unat b mod 16 * 4) div 4 = unat b"
    "(unat b mod 16 * 4 + unat c div 64) mod 4 * 64 + unat c mod 64 = unat c"
    using byte_parts [of b] byte_parts [of c] by (simp_all only: unpack div_mult_mod_eq) simp_all
  then show "word_of_nat (unat a div 4 * 4 + (unat a mod 4 * 16 + unat b div 16) div 16) = a"
    "word_of_nat (unat a div 4 * 4 + (unat a mod 4 * 16) div 16) = a"
    "word_of_nat ((unat a mod 4 * 16 + unat b div 16) mod 16 * 16 + (unat b mod 16 * 4 + unat c div 64) div 4) = b"
    "word_of_nat ((unat a mod 4 * 16 + unat b div 16) mod 16 * 16 + (unat b mod 16 * 4) div 4) = b"
    "word_of_nat ((unat b mod 16 * 4 + unat c div 64) mod 4 * 64 + unat c mod 64) = c"
    by (simp_all only: unat_word_inverse)
qed

lemma url64_roundtrip: "url64_decode (url64_encode b) = Some b"
proof -
  have "\<exists>vs. url64_vals (url64_encode b) = Some vs \<and> url64_groups vs = Some b"
  proof (induction b rule: url64_encode.induct)
    case (4 a b c s)
    then obtain vs where "url64_vals (url64_encode s) = Some vs" "url64_groups vs = Some s" by blast
    then show ?case
      by (simp only: url64_encode.simps append.simps url64_vals_char sextets url64_groups.simps octets option.map option.inject ex_simps
          simp_thms)
  qed (simp_all only: url64_encode.simps append.simps url64_vals.simps(1) url64_vals_char sextets url64_groups.simps octets option.map
      option.inject ex_simps simp_thms)
  then show ?thesis by (auto simp: url64_decode_def)
qed

interpretation url64_codec: codec url64_encode url64_decode "\<lambda>_. True"
  by unfold_locales (simp add: url64_roundtrip)

end
