(* ===== verification/Jwk.thy ===== *)
theory Jwk
  imports Ec Signature Canonical
begin

text \<open>
  JSON web keys, \<^verbatim>\<open>src/identity/jwk/jwk.go\<close>: the mapping between the key wrappers and the members of a JWK.
  Ed25519, X25519, P-256, P-384 and RSA keys go through a third-party package, which is the argument \<open>jx\<close>;
  secp256k1 keys are handled by the code itself. A panic of the standard library is a value of the
  result type. The text forms (\<^verbatim>\<open>PublicFromJWK\<close>, \<^verbatim>\<open>ToJWK\<close> and their kin) only add the JSON text codec.
\<close>

section \<open>Types\<close>

type_synonym members = "(string \<times> goany) list"

datatype jwk_error =
    J_ErrAlgNone
  | J_ErrAlgMismatch
  | J_ErrAlgRequired
  | J_ErrDuplicateMember
  | J_ErrUnsupportedKty
  | J_ErrUnsupportedCrv
  | J_ErrUnsupportedKeyType
  | J_ErrMissingMember
  | J_ErrInvalidMember
  | J_ErrKeyInconsistent
  | OfKey key_error
  | OfSignature sig_error

datatype jwk_fault = JwkErr jwk_error | JwkPanic

text \<open>The keys of the standard library that the third-party package reads and writes.\<close>

datatype RawKey =
    RawEd25519Public bytes
  | RawEcdhPublic bytes
  | RawEcdsaPublic EcdsaPub
  | RawRsaPublic RsaPub
  | RawEd25519Private bytes
  | RawEcdhPrivate bytes
  | RawEcdsaPrivate EcdsaPriv
  | RawRsaPrivate RsaPriv
  | RawOther

text \<open>
  The third-party operations: parsing members and exporting the raw key, the same for the public part
  of the parsed key, importing a raw key under an algorithm name, the curve test of the secp256k1 package,
  and the base-point multiplication of \<^verbatim>\<open>crypto/elliptic\<close>.
\<close>

record jwx =
  jwx_Export :: "members \<Rightarrow> RawKey option"
  jwx_ExportPublic :: "members \<Rightarrow> RawKey option"
  jwx_Import :: "RawKey \<Rightarrow> string \<Rightarrow> members option"
  jwx_S256_IsOnCurve :: "nat \<Rightarrow> nat \<Rightarrow> bool"
  jwx_ScalarBaseMult :: "Curve \<Rightarrow> bytes \<Rightarrow> point"

section \<open>Members\<close>

definition jwk_err :: "jwk_error \<Rightarrow> jwk_fault + 'a" where
  "jwk_err e = Inl (JwkErr e)"

definition reqString :: "members \<Rightarrow> string \<Rightarrow> jwk_fault + string" where
  "reqString m key =
    (case map_of m key of
       None \<Rightarrow> jwk_err J_ErrMissingMember
     | Some (AnyString s) \<Rightarrow> Inr s
     | Some _ \<Rightarrow> jwk_err J_ErrInvalidMember)"

definition optString :: "members \<Rightarrow> string \<Rightarrow> string" where
  "optString m key = (case map_of m key of Some (AnyString s) \<Rightarrow> s | _ \<Rightarrow> [])"

definition decodeBytes :: "string \<Rightarrow> nat \<Rightarrow> jwk_fault + bytes" where
  "decodeBytes s want =
    (case url64_decode s of
       None \<Rightarrow> jwk_err J_ErrInvalidMember
     | Some b \<Rightarrow> if want > 0 \<and> length b \<noteq> want then jwk_err J_ErrInvalidMember else Inr b)"

definition decodeInt :: "string \<Rightarrow> jwk_fault + nat" where
  "decodeInt s = (case url64_decode s of None \<Rightarrow> jwk_err J_ErrInvalidMember | Some b \<Rightarrow> Inr (be_val b))"

text \<open>The slice expression panics when the number needs more than \<open>n\<close> bytes.\<close>

definition fixedBytes :: "nat \<Rightarrow> nat \<Rightarrow> jwk_fault + bytes" where
  "fixedBytes i n = (if i \<ge> 256 ^ n then Inl JwkPanic else Inr (be_bytes n i))"

definition encodeFixedInt :: "nat \<Rightarrow> nat \<Rightarrow> jwk_fault + string" where
  "encodeFixedInt i n = sbind (fixedBytes i n) (\<lambda>b. Inr (url64_encode b))"

definition of_key :: "key_error + 'a \<Rightarrow> jwk_fault + 'a" where
  "of_key r = lift_error (\<lambda>e. JwkErr (OfKey e)) r"

definition of_raw :: "RawKey option \<Rightarrow> jwk_fault + RawKey" where
  "of_raw r = (case r of None \<Rightarrow> jwk_err J_ErrInvalidMember | Some k \<Rightarrow> Inr k)"

section \<open>X25519 wrappers\<close>

definition x25519_NewPublicKey :: "bytes \<Rightarrow> key_error + PublicKey" where
  "x25519_NewPublicKey key = (if length key \<noteq> 32 then Inl ErrInvalidKey else Inr (PubX25519 key))"

definition x25519_NewPrivateKey :: "bytes \<Rightarrow> key_error + PrivateKey" where
  "x25519_NewPrivateKey key = (if length key \<noteq> 32 then Inl ErrInvalidKey else Inr (PrivX25519 key))"

definition x25519_Public :: "clib \<Rightarrow> bytes \<Rightarrow> bytes" where
  "x25519_Public lib key = lib_x25519_base lib key"

section \<open>Public keys\<close>

definition unmarshalOKPPublic :: "jwx \<Rightarrow> members \<Rightarrow> string \<Rightarrow> jwk_fault + PublicKey" where
  "unmarshalOKPPublic jx m alg =
    sbind (reqString m ''crv'') (\<lambda>crv.
    sbind (reqString m ''x'') (\<lambda>_.
      if crv = ''Ed25519'' \<and> alg \<noteq> [] \<and> alg \<noteq> ''EdDSA'' then jwk_err J_ErrAlgMismatch
      else if crv = ''X25519'' \<and> alg \<noteq> [] \<and> take 7 alg \<noteq> ''ECDH-ES'' then jwk_err J_ErrAlgMismatch
      else if crv \<noteq> ''Ed25519'' \<and> crv \<noteq> ''X25519'' then jwk_err J_ErrUnsupportedCrv
      else sbind (of_raw (jwx_Export jx m)) (\<lambda>raw.
        case raw of
          RawEd25519Public r \<Rightarrow> of_key (ed25519_NewPublicKey r)
        | RawEcdhPublic r \<Rightarrow> of_key (x25519_NewPublicKey r)
        | _ \<Rightarrow> jwk_err J_ErrInvalidMember)))"

definition ec_alg_check :: "string \<Rightarrow> string \<Rightarrow> jwk_fault + unit" where
  "ec_alg_check crv alg =
    (if crv = ''P-256'' then (if alg \<noteq> [] \<and> alg \<noteq> ''ES256'' then jwk_err J_ErrAlgMismatch else Inr ())
     else if crv = ''P-384'' then (if alg \<noteq> [] \<and> alg \<noteq> ''ES384'' then jwk_err J_ErrAlgMismatch else Inr ())
     else jwk_err J_ErrUnsupportedCrv)"

definition unmarshalECPublic :: "jwx \<Rightarrow> members \<Rightarrow> string \<Rightarrow> jwk_fault + PublicKey" where
  "unmarshalECPublic jx m alg =
    sbind (reqString m ''crv'') (\<lambda>crv.
    sbind (reqString m ''x'') (\<lambda>_.
    sbind (reqString m ''y'') (\<lambda>_.
    sbind (ec_alg_check crv alg) (\<lambda>_.
    sbind (of_raw (jwx_Export jx m)) (\<lambda>raw.
      case raw of
        RawEcdsaPublic stdpub \<Rightarrow>
          of_key (ecdsa_NewPublicKey (Some stdpub) (if crv = ''P-256'' then SHA256 else SHA384))
      | _ \<Rightarrow> jwk_err J_ErrInvalidMember)))))"

text \<open>
  \<^verbatim>\<open>elliptic.MarshalCompressed\<close> panics on a point that is not on the curve, the origin excepted, and on
  an abscissa that does not fit.
\<close>

definition S256_MarshalCompressed :: "jwx \<Rightarrow> nat \<Rightarrow> nat \<Rightarrow> jwk_fault + bytes" where
  "S256_MarshalCompressed jx x y =
    (if \<not> (x = 0 \<and> y = 0) \<and> \<not> jwx_S256_IsOnCurve jx x y then Inl JwkPanic
     else if x \<ge> 256 ^ 32 then Inl JwkPanic
     else Inr ((if odd y then 0x03 else 0x02) # be_bytes 32 x))"

definition unmarshalSecp256k1Public :: "clib \<Rightarrow> jwx \<Rightarrow> members \<Rightarrow> string \<Rightarrow> jwk_fault + PublicKey" where
  "unmarshalSecp256k1Public lib jx m alg =
    sbind (reqString m ''x'') (\<lambda>xStr.
    sbind (reqString m ''y'') (\<lambda>yStr.
      if alg \<noteq> [] \<and> alg \<noteq> ''ES256K'' then jwk_err J_ErrAlgMismatch
      else
        sbind (decodeInt xStr) (\<lambda>x.
        sbind (decodeInt yStr) (\<lambda>y.
        sbind (S256_MarshalCompressed jx x y) (\<lambda>compressed.
          of_key (secp256k1_NewPublicKey lib compressed))))))"

definition rsaAlgParams :: "string \<Rightarrow> (bool \<times> HashAlg) option" where
  "rsaAlgParams alg =
    (if alg = ''PS256'' then Some (True, SHA256)
     else if alg = ''PS384'' then Some (True, SHA384)
     else if alg = ''PS512'' then Some (True, SHA512)
     else if alg = ''RS256'' then Some (False, SHA256)
     else if alg = ''RS384'' then Some (False, SHA384)
     else if alg = ''RS512'' then Some (False, SHA512)
     else None)"

definition unmarshalRSAPublic :: "jwx \<Rightarrow> members \<Rightarrow> string \<Rightarrow> jwk_fault + PublicKey" where
  "unmarshalRSAPublic jx m alg =
    (if alg = [] then jwk_err J_ErrAlgRequired
     else case rsaAlgParams alg of
       None \<Rightarrow> jwk_err J_ErrAlgMismatch
     | Some (pss, hash) \<Rightarrow>
         sbind (reqString m ''n'') (\<lambda>_.
         sbind (reqString m ''e'') (\<lambda>_.
         sbind (of_raw (jwx_Export jx m)) (\<lambda>raw.
           case raw of
             RawRsaPublic stdpub \<Rightarrow>
               of_key (if pss then NewPSSPublicKey (Some stdpub) hash else NewPKCS1PublicKey (Some stdpub) hash)
           | _ \<Rightarrow> jwk_err J_ErrInvalidMember))))"

text \<open>A nil map is \<open>None\<close>.\<close>

definition jwk_Unmarshal :: "clib \<Rightarrow> jwx \<Rightarrow> members option \<Rightarrow> jwk_fault + PublicKey" where
  "jwk_Unmarshal lib jx jwk =
    (case jwk of
       None \<Rightarrow> jwk_err J_ErrInvalidMember
     | Some m \<Rightarrow>
       sbind (reqString m ''kty'') (\<lambda>kty.
         if map_of m ''d'' \<noteq> None then jwk_err J_ErrInvalidMember
         else (let alg = optString m ''alg''
               in if alg = ''none'' then jwk_err J_ErrAlgNone
                  else if kty = ''OKP'' then unmarshalOKPPublic jx m alg
                  else if kty = ''EC'' then
                    (if optString m ''crv'' = ''secp256k1'' then unmarshalSecp256k1Public lib jx m alg
                     else unmarshalECPublic jx m alg)
                  else if kty = ''RSA'' then unmarshalRSAPublic jx m alg
                  else jwk_err J_ErrUnsupportedKty)))"

section \<open>Private keys\<close>

text \<open>\<^verbatim>\<open>validateECPoint\<close> on the secp256k1 curve; nothing in the package calls it. A nil coordinate is \<open>None\<close>.\<close>

definition secp256k1_P :: nat where
  "secp256k1_P = 2 ^ 256 - 2 ^ 32 - 977"

definition validateECPoint :: "jwx \<Rightarrow> int option \<Rightarrow> int option \<Rightarrow> jwk_fault + unit" where
  "validateECPoint jx x y =
    (case (x, y) of
       (Some x, Some y) \<Rightarrow>
         if x < 0 \<or> y < 0 then jwk_err J_ErrInvalidMember
         else if x \<ge> int secp256k1_P \<or> y \<ge> int secp256k1_P then jwk_err J_ErrInvalidMember
         else if \<not> jwx_S256_IsOnCurve jx (nat x) (nat y) then jwk_err J_ErrInvalidMember
         else Inr ()
     | _ \<Rightarrow> jwk_err J_ErrInvalidMember)"

definition validateECScalar :: "jwx \<Rightarrow> Curve \<Rightarrow> nat \<Rightarrow> nat \<Rightarrow> nat \<Rightarrow> nat \<Rightarrow> jwk_fault + unit" where
  "validateECScalar jx curve d x y n =
    (if d = 0 then jwk_err J_ErrInvalidMember
     else if d \<ge> curve_N curve then jwk_err J_ErrInvalidMember
     else sbind (fixedBytes d n) (\<lambda>dBytes.
       let (dx, dy) = jwx_ScalarBaseMult jx curve dBytes
       in if dx \<noteq> x \<or> dy \<noteq> y then jwk_err J_ErrKeyInconsistent else Inr ()))"

definition unmarshalOKPPrivate :: "clib \<Rightarrow> jwx \<Rightarrow> members \<Rightarrow> string \<Rightarrow> string \<Rightarrow> jwk_fault + PrivateKey" where
  "unmarshalOKPPrivate lib jx m alg dStr =
    sbind (reqString m ''crv'') (\<lambda>crv.
    sbind (reqString m ''x'') (\<lambda>xStr.
      if crv = ''Ed25519'' then
        (if alg \<noteq> [] \<and> alg \<noteq> ''EdDSA'' then jwk_err J_ErrAlgMismatch
         else
           sbind (decodeBytes dStr 32) (\<lambda>seed.
           sbind (decodeBytes xStr 32) (\<lambda>x.
             if ed25519_Public (lib_ed25519_seed lib seed) \<noteq> x then jwk_err J_ErrKeyInconsistent
             else sbind (of_raw (jwx_Export jx m)) (\<lambda>raw.
               case raw of
                 RawEd25519Private rp \<Rightarrow> of_key (ed25519_NewPrivateKey rp)
               | _ \<Rightarrow> jwk_err J_ErrInvalidMember))))
      else if crv = ''X25519'' then
        (if alg \<noteq> [] \<and> take 7 alg \<noteq> ''ECDH-ES'' then jwk_err J_ErrAlgMismatch
         else
           sbind (decodeBytes dStr 32) (\<lambda>d.
           sbind (decodeBytes xStr 32) (\<lambda>x.
           sbind (of_key (x25519_NewPrivateKey d)) (\<lambda>_.
             if x25519_Public lib d \<noteq> x then jwk_err J_ErrKeyInconsistent
             else sbind (of_raw (jwx_Export jx m)) (\<lambda>raw.
               case raw of
                 RawEcdhPrivate rp \<Rightarrow> of_key (x25519_NewPrivateKey rp)
               | _ \<Rightarrow> jwk_err J_ErrInvalidMember)))))
      else jwk_err J_ErrUnsupportedCrv))"

definition unmarshalECPrivate :: "jwx \<Rightarrow> members \<Rightarrow> string \<Rightarrow> jwk_fault + PrivateKey" where
  "unmarshalECPrivate jx m alg =
    sbind (reqString m ''crv'') (\<lambda>crv.
    sbind (reqString m ''x'') (\<lambda>_.
    sbind (reqString m ''y'') (\<lambda>_.
    sbind (ec_alg_check crv alg) (\<lambda>_.
    sbind (of_raw (jwx_Export jx m)) (\<lambda>raw.
      case raw of
        RawEcdsaPrivate k \<Rightarrow>
          (let (curve, hash, n) = (if crv = ''P-256'' then (P256, SHA256, 32) else (P384, SHA384, 48))
           in sbind (validateECScalar jx curve (ec_D k) (ec_X (ec_pub k)) (ec_Y (ec_pub k)) n) (\<lambda>_.
                of_key (ecdsa_NewPrivateKey (Some k) hash)))
      | _ \<Rightarrow> jwk_err J_ErrInvalidMember)))))"

definition secp256k1_Equal :: "PublicKey \<Rightarrow> PublicKey \<Rightarrow> bool" where
  "secp256k1_Equal a b =
    (case (a, b) of (PubSecp256k1 p, PubSecp256k1 q) \<Rightarrow> secp256k1_Bytes p = secp256k1_Bytes q | _ \<Rightarrow> False)"

definition unmarshalSecp256k1Private :: "clib \<Rightarrow> jwx \<Rightarrow> members \<Rightarrow> string \<Rightarrow> string \<Rightarrow> jwk_fault + PrivateKey" where
  "unmarshalSecp256k1Private lib jx m alg dStr =
    sbind (reqString m ''x'') (\<lambda>xStr.
    sbind (reqString m ''y'') (\<lambda>yStr.
      if alg \<noteq> [] \<and> alg \<noteq> ''ES256K'' then jwk_err J_ErrAlgMismatch
      else
        sbind (decodeInt xStr) (\<lambda>x.
        sbind (decodeInt yStr) (\<lambda>y.
        sbind (decodeInt dStr) (\<lambda>d.
        sbind (S256_MarshalCompressed jx x y) (\<lambda>compressed.
        sbind (of_key (secp256k1_NewPublicKey lib compressed)) (\<lambda>pub.
        sbind (fixedBytes d 32) (\<lambda>dBytes.
        sbind (of_key (secp256k1_NewPrivateKey dBytes)) (\<lambda>priv.
          case priv of
            PrivSecp256k1 k \<Rightarrow>
              if \<not> secp256k1_Equal (secp256k1_Public lib k) pub then jwk_err J_ErrKeyInconsistent else Inr priv
          | _ \<Rightarrow> jwk_err J_ErrKeyInconsistent)))))))))"

definition unmarshalRSAPrivate :: "jwx \<Rightarrow> members \<Rightarrow> string \<Rightarrow> string \<Rightarrow> jwk_fault + PrivateKey" where
  "unmarshalRSAPrivate jx m alg dStr =
    (if alg = [] then jwk_err J_ErrAlgRequired
     else case rsaAlgParams alg of
       None \<Rightarrow> jwk_err J_ErrAlgMismatch
     | Some (pss, hash) \<Rightarrow>
         sbind (reqString m ''n'') (\<lambda>_.
         sbind (reqString m ''e'') (\<lambda>_.
         sbind (decodeInt dStr) (\<lambda>d.
         sbind (of_raw (jwx_ExportPublic jx m)) (\<lambda>raw.
           case raw of
             RawRsaPublic stdpub \<Rightarrow>
               (let stdpriv = \<lparr>rsa_pub = stdpub, rsa_D = d\<rparr>
                in of_key (if pss then NewPSSPrivateKey (Some stdpriv) hash else NewPKCS1PrivateKey (Some stdpriv) hash))
           | _ \<Rightarrow> jwk_err J_ErrInvalidMember)))))"

definition jwk_UnmarshalPrivate :: "clib \<Rightarrow> jwx \<Rightarrow> members option \<Rightarrow> jwk_fault + PrivateKey" where
  "jwk_UnmarshalPrivate lib jx jwk =
    (case jwk of
       None \<Rightarrow> jwk_err J_ErrInvalidMember
     | Some m \<Rightarrow>
       sbind (reqString m ''kty'') (\<lambda>kty.
         let alg = optString m ''alg''
         in if alg = ''none'' then jwk_err J_ErrAlgNone
            else sbind (reqString m ''d'') (\<lambda>dStr.
              if kty = ''OKP'' then unmarshalOKPPrivate lib jx m alg dStr
              else if kty = ''EC'' then
                (if optString m ''crv'' = ''secp256k1'' then unmarshalSecp256k1Private lib jx m alg dStr
                 else unmarshalECPrivate jx m alg)
              else if kty = ''RSA'' then unmarshalRSAPrivate jx m alg dStr
              else jwk_err J_ErrUnsupportedKty)))"

section \<open>Writing keys\<close>

definition marshalViaJWX :: "jwx \<Rightarrow> RawKey \<Rightarrow> string \<Rightarrow> jwk_fault + members" where
  "marshalViaJWX jx rawKey alg =
    (case jwx_Import jx rawKey alg of None \<Rightarrow> jwk_err J_ErrInvalidMember | Some m \<Rightarrow> Inr m)"

text \<open>The decompressed point is written as the byte 4 and two coordinates of 32 bytes.\<close>

definition marshalSecp256k1Public :: "clib \<Rightarrow> point \<Rightarrow> jwk_fault + members" where
  "marshalSecp256k1Public lib k =
    (case lib_secp_ParsePubKey lib (secp256k1_Bytes k) of
       None \<Rightarrow> jwk_err J_ErrInvalidMember
     | Some (x, y) \<Rightarrow>
         sbind (encodeFixedInt (be_val (be_bytes 32 x)) 32) (\<lambda>xs.
         sbind (encodeFixedInt (be_val (be_bytes 32 y)) 32) (\<lambda>ys.
           Inr [(''kty'', AnyString ''EC''), (''crv'', AnyString ''secp256k1''),
                (''alg'', AnyString (JOSE AlgorithmES256K)), (''x'', AnyString xs), (''y'', AnyString ys)])))"

definition marshal_signing :: "jwx \<Rightarrow> PublicKey \<Rightarrow> RawKey \<Rightarrow> jwk_fault + members" where
  "marshal_signing jx k raw =
    sbind (lift_error (\<lambda>e. JwkErr (OfSignature e)) (AlgorithmForPublicKey k)) (\<lambda>alg. marshalViaJWX jx raw (JOSE alg))"

definition jwk_Marshal :: "clib \<Rightarrow> jwx \<Rightarrow> PublicKey \<Rightarrow> jwk_fault + members" where
  "jwk_Marshal lib jx k =
    (case k of
       PubEd25519 b \<Rightarrow> marshalViaJWX jx (RawEd25519Public b) ''EdDSA''
     | PubX25519 b \<Rightarrow> marshalViaJWX jx (RawEcdhPublic b) []
     | PubSecp256k1 p \<Rightarrow> marshalSecp256k1Public lib p
     | PubEcdsa (Some key) _ \<Rightarrow> marshal_signing jx k (RawEcdsaPublic key)
     | PubEcdsa None _ \<Rightarrow> marshal_signing jx k RawOther
     | PubRsaPSS key _ \<Rightarrow> marshal_signing jx k (RawRsaPublic key)
     | PubRsaPKCS1 key _ \<Rightarrow> marshal_signing jx k (RawRsaPublic key)
     | _ \<Rightarrow> jwk_err J_ErrUnsupportedKeyType)"

definition marshalSecp256k1Private :: "clib \<Rightarrow> nat \<Rightarrow> jwk_fault + members" where
  "marshalSecp256k1Private lib k =
    sbind (marshalSecp256k1Public lib (lib_secp_PubKey lib k)) (\<lambda>m.
    sbind (encodeFixedInt k 32) (\<lambda>d. Inr (m @ [(''d'', AnyString d)])))"

definition jwk_MarshalPrivate :: "clib \<Rightarrow> jwx \<Rightarrow> PrivateKey \<Rightarrow> jwk_fault + members" where
  "jwk_MarshalPrivate lib jx k =
    (case k of
       PrivEd25519 b \<Rightarrow> marshalViaJWX jx (RawEd25519Private b) ''EdDSA''
     | PrivX25519 b \<Rightarrow> marshalViaJWX jx (RawEcdhPrivate b) []
     | PrivSecp256k1 d \<Rightarrow> marshalSecp256k1Private lib d
     | PrivEcdsa (Some key) h \<Rightarrow> marshal_signing jx (PubEcdsa (Some (ec_pub key)) h) (RawEcdsaPrivate key)
     | PrivEcdsa None h \<Rightarrow> marshal_signing jx (PubEcdsa None h) RawOther
     | PrivRsaPSS key h \<Rightarrow> marshal_signing jx (PubRsaPSS (rsa_pub key) h) (RawRsaPrivate key)
     | PrivRsaPKCS1 key h \<Rightarrow> marshal_signing jx (PubRsaPKCS1 (rsa_pub key) h) (RawRsaPrivate key)
     | _ \<Rightarrow> jwk_err J_ErrUnsupportedKeyType)"

definition marshal_set :: "clib \<Rightarrow> jwx \<Rightarrow> PublicKey list \<Rightarrow> jwk_fault + members list" where
  "marshal_set lib jx keys = smap (jwk_Marshal lib jx) keys"

section \<open>Properties\<close>

lemma jwk_err_simps [simp]: "jwk_err e \<noteq> Inr x" "jwk_err e = Inl f \<longleftrightarrow> f = JwkErr e" "Inl f = jwk_err e \<longleftrightarrow> f = JwkErr e"
  by (auto simp: jwk_err_def)

lemma of_key_simps: "of_key r = Inr k \<longleftrightarrow> r = Inr k" "of_key r \<noteq> Inl JwkPanic"
  by (auto simp: of_key_def lift_error_def split: sum.splits)

lemma of_raw_simps: "of_raw r = Inr k \<longleftrightarrow> r = Some k" "of_raw r \<noteq> Inl JwkPanic"
  by (auto simp: of_raw_def split: option.splits)

lemma reqString_Inr: "reqString m key = Inr v \<longleftrightarrow> map_of m key = Some (AnyString v)"
  by (auto simp: reqString_def split: option.splits goany.splits)

lemma member_no_panic: "reqString m key \<noteq> Inl JwkPanic" "decodeInt v \<noteq> Inl JwkPanic" "ec_alg_check crv alg \<noteq> Inl JwkPanic"
  by (auto simp: reqString_def decodeInt_def ec_alg_check_def split: option.splits goany.splits)

lemma optString_reqString: "reqString m key = Inr v \<Longrightarrow> optString m key = v"
  by (auto simp: reqString_def optString_def split: option.splits goany.splits)

lemma sbind_Inl_conv: "sbind r f = Inl e \<longleftrightarrow> r = Inl e \<or> (\<exists>x. r = Inr x \<and> f x = Inl e)"
  by (cases r) auto

text \<open>The members of a secp256k1 key that reach the curve: both coordinates decode and the algorithm is right or absent.\<close>

definition secp256k1_members :: "members \<Rightarrow> nat \<Rightarrow> nat \<Rightarrow> bool" where
  "secp256k1_members m x y \<longleftrightarrow>
    map_of m ''kty'' = Some (AnyString ''EC'') \<and> map_of m ''d'' = None \<and> optString m ''crv'' = ''secp256k1'' \<and>
    optString m ''alg'' \<in> {[], ''ES256K''} \<and>
    (\<exists>xs ys bx by. map_of m ''x'' = Some (AnyString xs) \<and> map_of m ''y'' = Some (AnyString ys) \<and>
      url64_decode xs = Some bx \<and> url64_decode ys = Some by \<and> x = be_val bx \<and> y = be_val by)"

lemma other_no_panic:
  "unmarshalOKPPublic jx m alg \<noteq> Inl JwkPanic" "unmarshalECPublic jx m alg \<noteq> Inl JwkPanic" "unmarshalRSAPublic jx m alg \<noteq> Inl JwkPanic"
  by (auto simp: unmarshalOKPPublic_def unmarshalECPublic_def unmarshalRSAPublic_def sbind_Inl_conv member_no_panic of_raw_simps
      of_key_simps split: RawKey.splits if_splits option.splits)

lemma decodeInt_Inr: "decodeInt v = Inr n \<longleftrightarrow> (\<exists>b. url64_decode v = Some b \<and> n = be_val b)"
  by (auto simp: decodeInt_def split: option.splits)

definition S256_bad :: "jwx \<Rightarrow> nat \<Rightarrow> nat \<Rightarrow> bool" where
  "S256_bad jx x y \<longleftrightarrow> (x \<noteq> 0 \<or> y \<noteq> 0) \<and> \<not> jwx_S256_IsOnCurve jx x y \<or> x \<ge> 256 ^ 32"

lemma S256_Inl: "S256_MarshalCompressed jx x y = Inl e \<longleftrightarrow> e = JwkPanic \<and> S256_bad jx x y"
  unfolding S256_MarshalCompressed_def S256_bad_def by auto

lemma secp256k1_panics:
  "unmarshalSecp256k1Public lib jx m alg = Inl JwkPanic \<longleftrightarrow> (alg = [] \<or> alg = ''ES256K'') \<and>
    (\<exists>xs ys x y. map_of m ''x'' = Some (AnyString xs) \<and> map_of m ''y'' = Some (AnyString ys) \<and>
      decodeInt xs = Inr x \<and> decodeInt ys = Inr y \<and> S256_bad jx x y)"
proof (cases "alg = [] \<or> alg = ''ES256K''")
  case True
  then have "\<not> (alg \<noteq> [] \<and> alg \<noteq> ''ES256K'')" by blast
  then show ?thesis
    unfolding unmarshalSecp256k1Public_def
    by (simp only: sbind_Inl_conv member_no_panic of_key_simps S256_Inl reqString_Inr True if_False simp_thms) metis
next
  case False
  then show ?thesis
    by (simp add: unmarshalSecp256k1Public_def sbind_Inl_conv member_no_panic)
qed

lemma Unmarshal_panics:
  "jwk_Unmarshal lib jx (Some m) = Inl JwkPanic \<longleftrightarrow>
    map_of m ''kty'' = Some (AnyString ''EC'') \<and> map_of m ''d'' = None \<and> optString m ''alg'' \<noteq> ''none'' \<and>
    optString m ''crv'' = ''secp256k1'' \<and> unmarshalSecp256k1Public lib jx m (optString m ''alg'') = Inl JwkPanic"
proof (cases "reqString m ''kty''")
  case (Inl e)
  then have "map_of m ''kty'' \<noteq> Some (AnyString ''EC'')" using reqString_Inr by (metis sum.distinct(1))
  with Inl member_no_panic(1) [of m "''kty''"] show ?thesis by (simp add: jwk_Unmarshal_def)
next
  case (Inr kty)
  then have "map_of m ''kty'' = Some (AnyString kty)" by (simp add: reqString_Inr)
  then show ?thesis
    using Inr by (simp add: jwk_Unmarshal_def other_no_panic Let_def)
qed

text \<open>The check that the package has and does not call would have ruled the panic out.\<close>

lemma validateECPoint_prevents_panic:
  assumes "validateECPoint jx (Some (int x)) (Some (int y)) = Inr ()"
  shows "\<not> S256_bad jx x y"
proof -
  have "x < secp256k1_P" and on: "jwx_S256_IsOnCurve jx x y"
    using assms by (auto simp: validateECPoint_def split: if_splits)
  moreover have "secp256k1_P < 256 ^ 32" by (simp add: secp256k1_P_def)
  ultimately have "\<not> x \<ge> 256 ^ 32" by linarith
  with on show ?thesis by (simp only: S256_bad_def simp_thms)
qed

text \<open>The third-party package with every operation a concrete function, for evaluating the model.\<close>

definition demo_jwx :: jwx where
  "demo_jwx = \<lparr>jwx_Export = (\<lambda>_. None), jwx_ExportPublic = (\<lambda>_. None), jwx_Import = (\<lambda>_ _. None),
    jwx_S256_IsOnCurve = (\<lambda>x y. x = 7 \<and> y = 8), jwx_ScalarBaseMult = (\<lambda>_ d. (be_val d, 1))\<rparr>"

lemma Unmarshal_panics_iff:
  "jwk_Unmarshal lib jx (Some m) = Inl JwkPanic \<longleftrightarrow> (\<exists>x y. secp256k1_members m x y \<and> S256_bad jx x y)"
proof -
  have "optString m ''alg'' \<noteq> ''none''" if "optString m ''alg'' = [] \<or> optString m ''alg'' = ''ES256K''"
    using that by auto
  then show ?thesis
    unfolding Unmarshal_panics secp256k1_panics secp256k1_members_def decodeInt_Inr insert_iff empty_iff simp_thms
    by blast
qed

text \<open>parsing a public key panics exactly on a secp256k1 key whose coordinates decode to a point that is not on the
  curve (or do not fit in 32 bytes); on every other input it returns a key or an error.\<close>

theorem jwk_Unmarshal_panics_exact:
  "jwk_Unmarshal lib jx (Some m) = Inl JwkPanic \<longleftrightarrow>
    (\<exists>x y. secp256k1_members m x y \<and> ((x \<noteq> 0 \<or> y \<noteq> 0) \<and> \<not> jwx_S256_IsOnCurve jx x y \<or> x \<ge> 256 ^ 32))"
  unfolding Unmarshal_panics_iff S256_bad_def ..

text \<open>
  What the third-party package documents: the key it exports for an OKP curve is of that curve.
\<close>

definition jwx_typed :: "jwx \<Rightarrow> bool" where
  "jwx_typed jx \<longleftrightarrow> (\<forall>m b. jwx_Export jx m = Some (RawEd25519Public b) \<longrightarrow> map_of m ''crv'' = Some (AnyString ''Ed25519''))"

lemma OKP_algorithm:
  assumes "unmarshalOKPPublic jx m alg = Inr key" and "AlgorithmForPublicKey key = Inr a" and "jwx_typed jx"
  shows "a = AlgorithmEdDSA \<and> alg \<in> {[], JOSE a}"
proof -
  obtain crv raw where r: "reqString m ''crv'' = Inr crv" "jwx_Export jx m = Some raw"
    and crv: "crv = ''Ed25519'' \<Longrightarrow> alg = [] \<or> alg = ''EdDSA''"
    and key: "(case raw of RawEd25519Public r \<Rightarrow> of_key (ed25519_NewPublicKey r)
        | RawEcdhPublic r \<Rightarrow> of_key (x25519_NewPublicKey r) | _ \<Rightarrow> jwk_err J_ErrInvalidMember) = Inr key"
    using assms(1) by (auto simp: unmarshalOKPPublic_def sbind_Inr_conv of_raw_simps split: if_splits)
  then obtain b where b: "raw = RawEd25519Public b" "key = PubEd25519 b"
    using assms(2) by (auto simp: of_key_simps ed25519_NewPublicKey_def x25519_NewPublicKey_def key_algorithms split: RawKey.splits if_splits)
  with r assms(3) have "crv = ''Ed25519''" by (auto simp: jwx_typed_def reqString_Inr)
  with crv b assms(2) show ?thesis by (auto simp: key_algorithms JOSE_def algorithmTable_def)
qed

lemma EC_algorithm:
  assumes "unmarshalECPublic jx m alg = Inr key" and "AlgorithmForPublicKey key = Inr a"
  shows "a \<in> {AlgorithmES256, AlgorithmES384} \<and> alg \<in> {[], JOSE a}"
proof -
  obtain crv raw where c: "ec_alg_check crv alg = Inr ()" and "(case raw of RawEcdsaPublic stdpub \<Rightarrow>
        of_key (ecdsa_NewPublicKey (Some stdpub) (if crv = ''P-256'' then SHA256 else SHA384))
      | _ \<Rightarrow> jwk_err J_ErrInvalidMember) = Inr key"
    using assms(1) by (auto simp: unmarshalECPublic_def sbind_Inr_conv)
  then obtain k where key: "ecdsa_NewPublicKey (Some k) (if crv = ''P-256'' then SHA256 else SHA384) = Inr key"
    by (cases raw) (simp_all only: RawKey.case of_key_simps jwk_err_simps)
  show ?thesis
  proof (cases "crv = ''P-256''")
    case True
    then have "key = PubEcdsa (Some k) SHA256" "ec_curve k = P256"
      using key by (auto simp: ecdsa_NewPublicKey_def sbind_Inr_conv validateCurveHash_def split: Curve.splits)
    then show ?thesis using True c assms(2)
      by (auto simp: ec_alg_check_def key_algorithms ecdsa_Curve_def JOSE_def algorithmTable_def split: if_splits)
  next
    case False
    then have "key = PubEcdsa (Some k) SHA384" "ec_curve k = P384"
      using key by (auto simp: ecdsa_NewPublicKey_def sbind_Inr_conv validateCurveHash_def split: Curve.splits)
    then show ?thesis using False c assms(2)
      by (auto simp: ec_alg_check_def key_algorithms ecdsa_Curve_def JOSE_def algorithmTable_def split: if_splits)
  qed
qed

lemma secp256k1_algorithm:
  assumes "unmarshalSecp256k1Public lib jx m alg = Inr key" and "AlgorithmForPublicKey key = Inr a"
  shows "a = AlgorithmES256K \<and> alg \<in> {[], JOSE a}"
  using assms
  by (auto simp: unmarshalSecp256k1Public_def sbind_Inr_conv of_key_simps secp256k1_NewPublicKey_def key_algorithms JOSE_def
      algorithmTable_def split: if_splits option.splits)

lemma RSA_algorithm:
  assumes "unmarshalRSAPublic jx m alg = Inr key" and "AlgorithmForPublicKey key = Inr a"
  shows "alg \<noteq> [] \<and> alg = JOSE a"
proof -
  obtain pss hash raw where p: "rsaAlgParams alg = Some (pss, hash)" and "(case raw of RawRsaPublic k \<Rightarrow>
        of_key (if pss then NewPSSPublicKey (Some k) hash else NewPKCS1PublicKey (Some k) hash)
      | _ \<Rightarrow> jwk_err J_ErrInvalidMember) = Inr key"
    using assms(1) by (auto simp: unmarshalRSAPublic_def sbind_Inr_conv split: if_split_asm option.split_asm)
  then obtain k where "(if pss then NewPSSPublicKey (Some k) hash else NewPKCS1PublicKey (Some k) hash) = Inr key"
    by (cases raw) (simp_all only: RawKey.case of_key_simps jwk_err_simps)
  then have "key = (if pss then PubRsaPSS k hash else PubRsaPKCS1 k hash)"
    by (auto simp: NewPSSPublicKey_def NewPKCS1PublicKey_def sbind_Inr_conv validatePublicKey_def split: if_splits)
  with p assms(2) show ?thesis
    by (auto simp: rsaAlgParams_def key_algorithms JOSE_def algorithmTable_def split: if_splits)
qed


definition demo_jwk :: members where
  "demo_jwk = [(''kty'', AnyString ''EC''), (''crv'', AnyString ''secp256k1''), (''x'', AnyString ''Bw''), (''y'', AnyString ''CA'')]"


lemma fixedBytes_small: "n < 256 ^ k \<Longrightarrow> fixedBytes n k = Inr (be_bytes k n)"
  by (simp only: fixedBytes_def not_le [symmetric] if_False)

lemma encodeFixedInt_small: "n < 256 ^ 32 \<Longrightarrow> encodeFixedInt (be_val (be_bytes 32 n)) 32 = Inr (url64_encode (be_bytes 32 n))"
  "n < 256 ^ 32 \<Longrightarrow> encodeFixedInt n 32 = Inr (url64_encode (be_bytes 32 n))"
  by (simp_all only: encodeFixedInt_def fixedBytes_small be_val_be_bytes sbind_simps)

lemma decodeInt_fixed: "n < 256 ^ 32 \<Longrightarrow> decodeInt (url64_encode (be_bytes 32 n)) = Inr n"
  by (simp only: decodeInt_def url64_roundtrip option.case be_val_be_bytes)

text \<open>
  What the curve package documents about a point it hands out: it lies on the curve, its coordinates
  fit, and parsing its compressed form gives it back.
\<close>

definition secp256k1_point :: "clib \<Rightarrow> jwx \<Rightarrow> point \<Rightarrow> bool" where
  "secp256k1_point lib jx p \<longleftrightarrow> jwx_S256_IsOnCurve jx (fst p) (snd p) \<and> fst p < 256 ^ 32 \<and> snd p < 256 ^ 32 \<and>
    lib_secp_ParsePubKey lib (secp256k1_Bytes p) = Some p"

definition secp256k1_jwk :: "point \<Rightarrow> members" where
  "secp256k1_jwk p = [(''kty'', AnyString ''EC''), (''crv'', AnyString ''secp256k1''),
    (''alg'', AnyString (JOSE AlgorithmES256K)), (''x'', AnyString (url64_encode (be_bytes 32 (fst p)))),
    (''y'', AnyString (url64_encode (be_bytes 32 (snd p))))]"

lemma marshalSecp256k1Public_point:
  assumes "secp256k1_point lib jx p"
  shows "marshalSecp256k1Public lib p = Inr (secp256k1_jwk p)"
proof -
  obtain x y where p: "p = (x, y)" by (cases p)
  then have "x < 256 ^ 32" "y < 256 ^ 32" "lib_secp_ParsePubKey lib (secp256k1_Bytes p) = Some (x, y)"
    using assms by (auto simp: secp256k1_point_def)
  then show ?thesis
    unfolding marshalSecp256k1Public_def
    by (simp only: encodeFixedInt_small option.case prod.case sbind_simps secp256k1_jwk_def p fst_conv snd_conv)
qed

lemma compressed_point:
  assumes "secp256k1_point lib jx p"
  shows "S256_MarshalCompressed jx (fst p) (snd p) = Inr (secp256k1_Bytes p)"
    "secp256k1_NewPublicKey lib (secp256k1_Bytes p) = Inr (PubSecp256k1 p)"
  using assms
  by (auto simp: S256_MarshalCompressed_def secp256k1_point_def secp256k1_Bytes_def secp256k1_NewPublicKey_def)

lemma secp256k1_jwk_members:
  "reqString (secp256k1_jwk p @ r) ''kty'' = Inr ''EC''" "optString (secp256k1_jwk p @ r) ''crv'' = ''secp256k1''"
  "optString (secp256k1_jwk p @ r) ''alg'' = ''ES256K''" "reqString (secp256k1_jwk p @ r) ''d'' = reqString r ''d''"
  "reqString (secp256k1_jwk p @ r) ''x'' = Inr (url64_encode (be_bytes 32 (fst p)))"
  "reqString (secp256k1_jwk p @ r) ''y'' = Inr (url64_encode (be_bytes 32 (snd p)))"
  by (simp_all add: secp256k1_jwk_def optString_def reqString_def JOSE_def algorithmTable_def AlgorithmES256K_def map_add_def
      split: option.splits)

lemma secp256k1_jwk_no_d: "map_of (secp256k1_jwk p) ''d'' = None"
  by (simp add: secp256k1_jwk_def)

text \<open>a secp256k1 key survives the trip through a JWK: marshalling succeeds on every public key that lies on the
  curve, and on every private key in range, and parsing the members gives back the same key.\<close>

theorem jwk_secp256k1_roundtrip:
  assumes "secp256k1_point lib jx (lib_secp_PubKey lib d)" and "0 < d" and "d < secp256k1_N"
  shows "(\<exists>m. jwk_Marshal lib jx (PubSecp256k1 (lib_secp_PubKey lib d)) = Inr m \<and>
      jwk_Unmarshal lib jx (Some m) = Inr (PubSecp256k1 (lib_secp_PubKey lib d))) \<and>
    (\<exists>m. jwk_MarshalPrivate lib jx (PrivSecp256k1 d) = Inr m \<and> jwk_UnmarshalPrivate lib jx (Some m) = Inr (PrivSecp256k1 d))"
proof -
  let ?p = "lib_secp_PubKey lib d"
  have xy: "fst ?p < 256 ^ 32" "snd ?p < 256 ^ 32" using assms(1) by (auto simp only: secp256k1_point_def)
  have d: "d < 256 ^ 32" using assms(3) secp256k1_N_bound by (rule less_trans)
  note m0 = secp256k1_jwk_members [of ?p "[]", unfolded append_Nil2]
  have "jwk_Unmarshal lib jx (Some (secp256k1_jwk ?p)) = unmarshalSecp256k1Public lib jx (secp256k1_jwk ?p) ''ES256K''"
    by (simp add: jwk_Unmarshal_def m0 secp256k1_jwk_no_d)
  also have "\<dots> = Inr (PubSecp256k1 ?p)"
    by (simp add: unmarshalSecp256k1Public_def m0 decodeInt_fixed [OF xy(1)] decodeInt_fixed [OF xy(2)] compressed_point [OF assms(1)]
        of_key_simps)
  finally have pub: "jwk_Unmarshal lib jx (Some (secp256k1_jwk ?p)) = Inr (PubSecp256k1 ?p)" .
  let ?m = "secp256k1_jwk ?p @ [(''d'', AnyString (url64_encode (be_bytes 32 d)))]"
  have "jwk_UnmarshalPrivate lib jx (Some ?m) = unmarshalSecp256k1Private lib jx ?m ''ES256K'' (url64_encode (be_bytes 32 d))"
    by (simp add: jwk_UnmarshalPrivate_def secp256k1_jwk_members reqString_def [of "[_]"] del: map_of_append)
  also have "\<dots> = Inr (PrivSecp256k1 d)"
  proof -
    have "secp256k1_NewPrivateKey (be_bytes 32 d) = Inr (PrivSecp256k1 d)"
      using assms(2,3) be_val_be_bytes [OF d] by (simp add: secp256k1_NewPrivateKey_def scalar_SetBytes_def Let_def)
    then show ?thesis
      by (simp add: unmarshalSecp256k1Private_def secp256k1_jwk_members decodeInt_fixed [OF xy(1)] decodeInt_fixed [OF xy(2)]
          decodeInt_fixed [OF d] compressed_point [OF assms(1)] of_key_def lift_error_def fixedBytes_small [OF d] secp256k1_Equal_def
          secp256k1_Public_def)
  qed
  finally have priv: "jwk_UnmarshalPrivate lib jx (Some ?m) = Inr (PrivSecp256k1 d)" .
  have "jwk_MarshalPrivate lib jx (PrivSecp256k1 d) = Inr ?m"
    by (simp add: jwk_MarshalPrivate_def marshalSecp256k1Private_def marshalSecp256k1Public_point [OF assms(1)] encodeFixedInt_small(2) [OF d])
  moreover have "jwk_Marshal lib jx (PubSecp256k1 ?p) = Inr (secp256k1_jwk ?p)"
    by (simp add: jwk_Marshal_def marshalSecp256k1Public_point [OF assms(1)])
  ultimately show ?thesis using pub priv by blast
qed

definition demo_secp :: clib where
  "demo_secp = demo_lib\<lparr>lib_secp_PubKey := \<lambda>_. (7, 8), lib_secp_ParsePubKey := \<lambda>_. Some (7, 8)\<rparr>"

theorem jwk_secp256k1_roundtrip_witness:
  "\<exists>m. jwk_MarshalPrivate demo_secp demo_jwx (PrivSecp256k1 5) = Inr m \<and>
     jwk_UnmarshalPrivate demo_secp demo_jwx (Some m) = Inr (PrivSecp256k1 5)"
proof -
  have "secp256k1_point demo_secp demo_jwx (lib_secp_PubKey demo_secp 5)"
    by (simp add: secp256k1_point_def demo_jwx_def demo_secp_def)
  moreover have "5 < secp256k1_N" by (simp add: secp256k1_N_def)
  moreover have "0 < (5 :: nat)" by simp
  ultimately show ?thesis using jwk_secp256k1_roundtrip [of demo_secp demo_jwx 5] by blast
qed

end
