(* ===== verification/Binder.thy ===== *)
theory Binder
  imports Jwk Verification "HOL-Library.AList"
begin

text \<open>
  The default key binder, \<^verbatim>\<open>src/verification/binder.go\<close> and \<^verbatim>\<open>binder_algorithm.go\<close>: it finds the verification
  method of a key identifier in a DID document, works out which algorithms the method declares and which
  its key material can encode, and returns the one key that fits both. An error of the binder that wraps
  no sentinel is \<open>PlainError\<close>; a panic below \<^verbatim>\<open>jwkutil.Unmarshal\<close> is a panic of the binder.
\<close>

section \<open>Multibase\<close>

definition base58Alphabet :: string where
  "base58Alphabet = ''123456789ABCDEFGHJKLMNPQRSTUVWXYZabcdefghijkmnopqrstuvwxyz''"

fun index_byte :: "string \<Rightarrow> char \<Rightarrow> nat option" where
  "index_byte [] c = None"
| "index_byte (d # ds) c = (if c = d then Some 0 else map_option Suc (index_byte ds c))"

text \<open>
  The number is kept big endian and updated from its last byte, so the two inner loops run over the
  reversed list: the first multiplies by 58 and carries, the second writes what is left of the carry.
\<close>

fun carry_bytes :: "nat \<Rightarrow> bytes" where
  "carry_bytes carry = (if carry = 0 then [] else word_of_nat (carry mod 256) # carry_bytes (carry div 256))"

declare carry_bytes.simps [simp del]

fun base58_carry :: "nat \<Rightarrow> bytes \<Rightarrow> bytes" where
  "base58_carry carry [] = carry_bytes carry"
| "base58_carry carry (b # bs) =
    word_of_nat ((carry + 58 * unat b) mod 256) # base58_carry ((carry + 58 * unat b) div 256) bs"

definition base58_digit :: "bytes \<Rightarrow> nat \<Rightarrow> bytes" where
  "base58_digit out idx = rev (base58_carry idx (rev out))"

fun base58_loop :: "string \<Rightarrow> bytes \<Rightarrow> bytes option" where
  "base58_loop [] out = Some out"
| "base58_loop (c # cs) out =
    (case index_byte base58Alphabet c of None \<Rightarrow> None | Some idx \<Rightarrow> base58_loop cs (base58_digit out idx))"

definition decodeBase58BTC :: "string \<Rightarrow> bytes option" where
  "decodeBase58BTC s =
    (if s = [] then None
     else map_option ((@) (replicate (length (takeWhile ((=) CHR ''1'') s)) 0)) (base58_loop s []))"

definition decodeMultibase :: "string \<Rightarrow> bytes option" where
  "decodeMultibase s =
    (case s of
       c # d # ds \<Rightarrow>
         if c = CHR ''z'' then decodeBase58BTC (d # ds)
         else if c = CHR ''u'' then url64_decode (d # ds)
         else if c = CHR ''f'' \<or> c = CHR ''F'' then hex_DecodeString (d # ds)
         else None
     | _ \<Rightarrow> None)"

section \<open>Declared algorithms\<close>

definition containsAlgorithm :: "Algorithm list \<Rightarrow> Algorithm \<Rightarrow> bool" where
  "containsAlgorithm algs want = list_ex (\<lambda>a. a = want) algs"

definition intersectAlgorithms :: "Algorithm list \<Rightarrow> Algorithm list \<Rightarrow> Algorithm list" where
  "intersectAlgorithms cands declared = filter (\<lambda>c. length declared = 0 \<or> containsAlgorithm declared c) cands"

definition rsaKeyAlgorithms :: "Algorithm list" where
  "rsaKeyAlgorithms =
    [AlgorithmPS256, AlgorithmPS384, AlgorithmPS512, AlgorithmRS256, AlgorithmRS384, AlgorithmRS512]"

definition suiteKeyAlgorithms :: "(string \<times> Algorithm list) list" where
  "suiteKeyAlgorithms =
    [(''Ed25519VerificationKey2018'', [AlgorithmEdDSA]),
     (''Ed25519VerificationKey2020'', [AlgorithmEdDSA]),
     (''EcdsaSecp256k1VerificationKey2019'', [AlgorithmES256K]),
     (''EcdsaSecp256k1RecoveryMethod2020'', [AlgorithmES256K]),
     (''EcdsaSecp256r1VerificationKey2019'', [AlgorithmES256, AlgorithmES384]),
     (''RsaVerificationKey2018'', rsaKeyAlgorithms),
     (''JsonWebKey2020'', [])]"

definition suiteTypeSuffix :: string where
  "suiteTypeSuffix = ''VerificationKey2020''"

text \<open>\<^verbatim>\<open>strconv.ParseInt\<close> in base 10 with 64 bits: an optional sign, at least one digit, and the value in range.\<close>

definition parse_int64 :: "string \<Rightarrow> int option" where
  "parse_int64 s =
    (let (neg, ds) = (case s of c # cs \<Rightarrow> if c = CHR ''-'' then (True, cs) else if c = CHR ''+'' then (False, cs) else (False, s)
                             | [] \<Rightarrow> (False, []));
         v = (if neg then - int (digits_val ds) else int (digits_val ds))
     in if ds \<noteq> [] \<and> list_all is_digit ds \<and> int_range v then Some v else None)"

definition cut_suffix :: "string \<Rightarrow> string \<Rightarrow> string option" where
  "cut_suffix s suf =
    (if length suf \<le> length s \<and> drop (length s - length suf) s = suf then Some (take (length s - length suf) s) else None)"

definition algorithmsForSuiteType :: "string \<Rightarrow> verr + Algorithm list" where
  "algorithmsForSuiteType typeName =
    (if typeName = [] then Inr []
     else case map_of suiteKeyAlgorithms typeName of
       Some cands \<Rightarrow> Inr cands
     | None \<Rightarrow> (case AlgorithmForJOSE typeName of
         Some alg \<Rightarrow> Inr [alg]
       | None \<Rightarrow> (case Option.bind (parse_int64 typeName) AlgorithmForCOSE of
           Some alg \<Rightarrow> Inr [alg]
         | None \<Rightarrow> (case Option.bind (cut_suffix typeName suiteTypeSuffix) AlgorithmForJOSE of
             Some alg \<Rightarrow> Inr [alg]
           | None \<Rightarrow> Inl (Sentinel V_ErrKeyBinding)))))"

definition declaredAlgorithms :: "Method \<Rightarrow> verr + Algorithm list" where
  "declaredAlgorithms m =
    sbind (algorithmsForSuiteType (vm_Type m)) (\<lambda>cands.
      if vm_BlockchainAccountId m = [] then Inr cands
      else if length cands = 0 then Inr [AlgorithmES256K]
      else if \<not> containsAlgorithm cands AlgorithmES256K then Inl (Sentinel V_ErrKeyBinding)
      else Inr [AlgorithmES256K])"

section \<open>Raw key material\<close>

record keyCandidate =
  cand_alg :: Algorithm
  cand_key :: PublicKey

definition trustEd25519Pub :: "bytes \<Rightarrow> key_error + PublicKey" where
  "trustEd25519Pub raw = ed25519_NewPublicKey raw"

definition pointInRange :: "Curve \<Rightarrow> nat \<Rightarrow> nat \<Rightarrow> bool" where
  "pointInRange curve x y \<longleftrightarrow> x < curve_P curve \<and> y < curve_P curve"

definition curvePointBytes :: "Curve \<Rightarrow> bytes \<Rightarrow> nat \<Rightarrow> point option" where
  "curvePointBytes curve raw field =
    (let xy =
      (if length raw = 1 + 2 * field \<and> raw ! 0 = 0x04 then elliptic_Unmarshal curve raw
       else if length raw = 1 + field \<and> (raw ! 0 = 0x02 \<or> raw ! 0 = 0x03) then elliptic_UnmarshalCompressed curve raw
       else if length raw = 2 * field then
         (let x = be_val (take field raw); y = be_val (drop field raw)
          in if \<not> pointInRange curve x y \<or> \<not> IsOnCurve curve x y then None else Some (x, y))
       else None)
     in case xy of
          None \<Rightarrow> None
        | Some (x, y) \<Rightarrow> if \<not> pointInRange curve x y then None else Some (x, y))"

text \<open>The errors of the decoders of raw material are only tested for presence.\<close>

definition ecdsaKeyForPoint :: "Curve \<Rightarrow> HashAlg \<Rightarrow> bytes \<Rightarrow> PublicKey option" where
  "ecdsaKeyForPoint curve hash raw =
    (case curvePointBytes curve raw (curve_BitSize curve div 8) of
       None \<Rightarrow> None
     | Some (x, y) \<Rightarrow> sum_option (ecdsa_NewPublicKey (Some \<lparr>ec_curve = curve, ec_X = x, ec_Y = y\<rparr>) hash))"

definition secp256k1KeyForXY :: "clib \<Rightarrow> bytes \<Rightarrow> PublicKey option" where
  "secp256k1KeyForXY lib xy =
    (if length xy \<noteq> 64 then None
     else sum_option (secp256k1_NewPublicKey lib ((if even (unat (last xy)) then 0x02 else 0x03) # take 32 xy)))"

definition secp256k1KeyForUncompressed :: "clib \<Rightarrow> bytes \<Rightarrow> PublicKey option" where
  "secp256k1KeyForUncompressed lib point =
    (if length point \<noteq> 65 \<or> point ! 0 \<noteq> 0x04 then None else secp256k1KeyForXY lib (drop 1 point))"

definition add_candidate :: "Algorithm \<Rightarrow> PublicKey option \<Rightarrow> keyCandidate list" where
  "add_candidate alg key = (case key of None \<Rightarrow> [] | Some k \<Rightarrow> [\<lparr>cand_alg = alg, cand_key = k\<rparr>])"

definition candidatesForRawKey :: "clib \<Rightarrow> bytes \<Rightarrow> keyCandidate list option" where
  "candidatesForRawKey lib raw =
    (let n = length raw;
         cands =
           (if n = 32 then add_candidate AlgorithmEdDSA (sum_option (trustEd25519Pub raw))
            else if n = 33 then
              add_candidate AlgorithmES256K (sum_option (secp256k1_NewPublicKey lib raw)) @
              add_candidate AlgorithmES256 (ecdsaKeyForPoint P256 SHA256 raw)
            else if n = 64 then
              add_candidate AlgorithmES256K (secp256k1KeyForXY lib raw) @
              add_candidate AlgorithmES256 (ecdsaKeyForPoint P256 SHA256 raw)
            else if n = 65 then
              add_candidate AlgorithmES256K (secp256k1KeyForUncompressed lib raw) @
              add_candidate AlgorithmES256 (ecdsaKeyForPoint P256 SHA256 raw)
            else if n = 49 \<or> n = 96 \<or> n = 97 then add_candidate AlgorithmES384 (ecdsaKeyForPoint P384 SHA384 raw)
            else [])
     in if length cands = 0 then None else Some cands)"

definition selectCandidate :: "keyCandidate list \<Rightarrow> Algorithm list \<Rightarrow> verr + PublicKey" where
  "selectCandidate cands declared =
    (case filter (\<lambda>c. length declared = 0 \<or> containsAlgorithm declared (cand_alg c)) cands of
       [c] \<Rightarrow> Inr (cand_key c)
     | _ \<Rightarrow> Inl (Sentinel V_ErrKeyBinding))"

section \<open>JWK material\<close>

text \<open>A member that is absent or not a string reads as the empty string; for \<^verbatim>\<open>alg\<close> the code keeps whether it was one.\<close>

definition alg_member :: "members \<Rightarrow> string option" where
  "alg_member m = (case map_of m ''alg'' of Some (AnyString s) \<Rightarrow> Some s | _ \<Rightarrow> None)"

definition one_alg :: "members \<Rightarrow> Algorithm \<Rightarrow> verr + Algorithm list" where
  "one_alg member alg =
    (case alg_member member of
       Some name \<Rightarrow> if name \<noteq> JOSE alg then Inl (Sentinel V_ErrKeyBinding) else Inr [alg]
     | None \<Rightarrow> Inr [alg])"

definition algorithmsForJWK :: "members \<Rightarrow> verr + Algorithm list" where
  "algorithmsForJWK member =
    (let kty = optString member ''kty''; crv = optString member ''crv''
     in if kty = ''OKP'' then
          (if crv \<noteq> ''Ed25519'' then Inl (Sentinel V_ErrKeyBinding) else one_alg member AlgorithmEdDSA)
        else if kty = ''EC'' then
          (if crv = ''P-256'' then one_alg member AlgorithmES256
           else if crv = ''P-384'' then one_alg member AlgorithmES384
           else if crv = ''secp256k1'' then one_alg member AlgorithmES256K
           else Inl (Sentinel V_ErrKeyBinding))
        else if kty = ''RSA'' then
          (case alg_member member of
             None \<Rightarrow> Inr rsaKeyAlgorithms
           | Some name \<Rightarrow> (case AlgorithmForJOSE name of
               None \<Rightarrow> Inl (Sentinel V_ErrKeyBinding)
             | Some alg \<Rightarrow> if \<not> containsAlgorithm rsaKeyAlgorithms alg then Inl (Sentinel V_ErrKeyBinding) else Inr [alg]))
        else Inl (Sentinel V_ErrKeyBinding))"

definition jwkWithAlg :: "members \<Rightarrow> Algorithm \<Rightarrow> members" where
  "jwkWithAlg member alg =
    (case alg_member member of
       Some name \<Rightarrow> if name \<noteq> [] then member else AList.update ''alg'' (AnyString (JOSE alg)) member
     | None \<Rightarrow> AList.update ''alg'' (AnyString (JOSE alg)) member)"

definition jwk_key :: "clib \<Rightarrow> jwx \<Rightarrow> members \<Rightarrow> Algorithm \<Rightarrow> verr + PublicKey" where
  "jwk_key lib jx member alg =
    (case jwk_Unmarshal lib jx (Some (jwkWithAlg member alg)) of
       Inl JwkPanic \<Rightarrow> Inl RuntimePanic
     | Inl (JwkErr _) \<Rightarrow> Inl (Sentinel V_ErrStructural)
     | Inr key \<Rightarrow> if AlgorithmForPublicKey key \<noteq> Inr alg then Inl (Sentinel V_ErrKeyBinding) else Inr key)"

definition bindJWK :: "clib \<Rightarrow> jwx \<Rightarrow> members \<Rightarrow> Algorithm list \<Rightarrow> verr + PublicKey" where
  "bindJWK lib jx member declared =
    sbind (algorithmsForJWK member) (\<lambda>cands.
      let matches = intersectAlgorithms cands declared
      in if length matches = 0 then Inl (Sentinel V_ErrKeyBinding)
         else if length matches > 1 then Inl (Sentinel V_ErrKeyBinding)
         else jwk_key lib jx member (matches ! 0))"

section \<open>Binding\<close>

definition methodMatches :: "Method \<Rightarrow> string \<Rightarrow> string \<Rightarrow> bool" where
  "methodMatches m docID keyID \<longleftrightarrow> vm_ID m = keyID \<or> vm_ID m = docID @ ''#'' @ keyID"

definition hasKeyMaterial :: "Method \<Rightarrow> bool" where
  "hasKeyMaterial m \<longleftrightarrow> vm_PublicKeyMultibase m \<noteq> [] \<or> length (vm_PublicKeyJWK m) > 0"

definition bindMethod :: "clib \<Rightarrow> jwx \<Rightarrow> Method \<Rightarrow> verr + PublicKey" where
  "bindMethod lib jx m =
    sbind (declaredAlgorithms m) (\<lambda>declared.
      if vm_PublicKeyMultibase m \<noteq> [] then
        (case decodeMultibase (vm_PublicKeyMultibase m) of
           None \<Rightarrow> Inl (Sentinel V_ErrStructural)
         | Some raw \<Rightarrow> (case candidatesForRawKey lib raw of
             None \<Rightarrow> Inl (Sentinel V_ErrStructural)
           | Some cands \<Rightarrow> selectCandidate cands declared))
      else bindJWK lib jx (vm_PublicKeyJWK m) declared)"

fun bind_methods :: "clib \<Rightarrow> jwx \<Rightarrow> string \<Rightarrow> string \<Rightarrow> Method list \<Rightarrow> verr + PublicKey" where
  "bind_methods lib jx docID keyID [] = Inl PlainError"
| "bind_methods lib jx docID keyID (m # ms) =
    (if \<not> methodMatches m docID keyID \<or> \<not> hasKeyMaterial m then bind_methods lib jx docID keyID ms
     else bindMethod lib jx m)"

definition DocumentKeyBinder_Bind :: "clib \<Rightarrow> jwx \<Rightarrow> KeyBinder" where
  "DocumentKeyBinder_Bind lib jx keyID doc =
    (case doc of None \<Rightarrow> Inl PlainError | Some d \<Rightarrow> bind_methods lib jx (doc_ID d) keyID (doc_VerificationMethod d))"

section \<open>Base 58\<close>

text \<open>The value of a string of base 58 digits, and of a list of bytes with the least significant one first.\<close>

definition base58_val :: "string \<Rightarrow> nat" where
  "base58_val s = foldl (\<lambda>n c. n * 58 + the (index_byte base58Alphabet c)) 0 s"

definition is_base58 :: "char \<Rightarrow> bool" where
  "is_base58 c \<longleftrightarrow> index_byte base58Alphabet c \<noteq> None"

fun le_val :: "bytes \<Rightarrow> nat" where
  "le_val [] = 0"
| "le_val (b # bs) = unat b + 256 * le_val bs"

lemma be_val_rev: "be_val (rev bs) = le_val bs"
  by (induction bs) (simp add: be_val_def, simp add: be_val_snoc)

lemma le_val_carry_bytes: "le_val (carry_bytes n) = n"
proof (induction n rule: carry_bytes.induct)
  case (1 n)
  then show ?case by (subst carry_bytes.simps) (simp add: unat_of_nat)
qed

lemma le_val_base58_carry: "le_val (base58_carry c bs) = c + 58 * le_val bs"
proof (induction c bs rule: base58_carry.induct)
  case (2 c b bs)
  have "(c + 58 * unat b) mod 256 + 256 * ((c + 58 * unat b) div 256) = c + 58 * unat b" by simp
  with 2 show ?case by (simp add: unat_of_nat algebra_simps)
qed (simp add: le_val_carry_bytes)

lemma last_carry_bytes: "n \<noteq> 0 \<Longrightarrow> last (carry_bytes n) \<noteq> 0"
proof (induction n rule: carry_bytes.induct)
  case (1 n)
  have "carry_bytes (n div 256) = [] \<longleftrightarrow> n div 256 = 0"
    by (subst carry_bytes.simps) simp
  moreover have "n div 256 = 0 \<Longrightarrow> word_of_nat (n mod 256) \<noteq> (0 :: byte)"
    using 1(2) low_byte_nonzero by blast
  ultimately show ?case using 1 by (subst carry_bytes.simps) auto
qed

lemma carry_bytes_Nil: "carry_bytes n = [] \<longleftrightarrow> n = 0"
  by (subst carry_bytes.simps) simp

lemma base58_carry_Nil: "base58_carry c bs = [] \<longleftrightarrow> c = 0 \<and> bs = []"
  by (cases bs) (simp_all add: carry_bytes_Nil)

lemma last_base58_carry: "bs = [] \<or> last bs \<noteq> 0 \<Longrightarrow> base58_carry c bs = [] \<or> last (base58_carry c bs) \<noteq> 0"
proof (induction c bs rule: base58_carry.induct)
  case (1 c)
  then show ?case using last_carry_bytes by (cases "c = 0") (auto simp: carry_bytes_Nil)
next
  case (2 c b bs)
  show ?case
  proof (cases "bs = []")
    case True
    let ?v = "c + 58 * unat b"
    have "0 < ?v" using 2(2) True by (simp add: unat_gt_0)
    then have "?v div 256 = 0 \<Longrightarrow> word_of_nat (?v mod 256) \<noteq> (0 :: byte)"
      by (rule low_byte_nonzero)
    then show ?thesis using True last_carry_bytes [of "?v div 256"] by (auto simp: carry_bytes_Nil)
  next
    case False
    with 2 show ?thesis by (auto simp: base58_carry_Nil)
  qed
qed

lemma base58_digit_minimal: "minimal out \<Longrightarrow> minimal (base58_digit out n)"
  using last_base58_carry [of "rev out" n] by (auto simp: minimal_def base58_digit_def hd_rev last_rev)

lemma base58_digit_val: "be_val (base58_digit out n) = be_val out * 58 + n"
  using le_val_base58_carry [of n "rev out"] be_val_rev [of "rev out"] by (simp add: base58_digit_def be_val_rev)

lemma split_digit:
  fixes a b x y k :: nat
  assumes "a + k * x = b + k * y" and "a < k" and "b < k"
  shows "a = b" "x = y"
proof -
  have "(a + k * x) mod k = (b + k * y) mod k" "(a + k * x) div k = (b + k * y) div k" by (simp_all only: assms(1))
  then show "a = b" "x = y" using assms(2,3) by simp_all
qed

lemma base58_loop_exact:
  assumes "minimal out"
  shows "base58_loop s out = Some b \<longleftrightarrow>
    list_all is_base58 s \<and> minimal b \<and> be_val b = foldl (\<lambda>n c. n * 58 + the (index_byte base58Alphabet c)) (be_val out) s"
  using assms
proof (induction s arbitrary: out)
  case Nil
  then show ?case using minimal_unique by auto
next
  case (Cons c s)
  show ?case
  proof (cases "index_byte base58Alphabet c")
    case (Some n)
    then show ?thesis using Cons.IH [OF base58_digit_minimal [OF Cons.prems]] by (simp add: is_base58_def base58_digit_val)
  qed (simp add: is_base58_def)
qed

lemma decodeBase58BTC_iff:
  "decodeBase58BTC s = Some b \<longleftrightarrow> s \<noteq> [] \<and> list_all is_base58 s \<and>
    (\<exists>v. b = replicate (length (takeWhile ((=) CHR ''1'') s)) 0 @ v \<and> minimal v \<and> be_val v = base58_val s)"
  using base58_loop_exact [of "[]" s]
  by (auto simp: decodeBase58BTC_def minimal_def be_val_def base58_val_def)

lemma index_byte_nth: "index_byte al c = Some n \<Longrightarrow> n < length al \<and> al ! n = c"
  by (induction al c arbitrary: n rule: index_byte.induct) (auto split: if_splits)

definition digits58 :: "nat list \<Rightarrow> nat" where
  "digits58 ds = foldl (\<lambda>n d. n * 58 + d) 0 ds"

lemma digits58_snoc: "digits58 (ds @ [d]) = digits58 ds * 58 + d"
  by (simp add: digits58_def)

lemma digits58_pos: "ds \<noteq> [] \<Longrightarrow> hd ds \<noteq> 0 \<Longrightarrow> 0 < digits58 ds"
proof (induction ds rule: rev_induct)
  case (snoc d ds)
  then show ?case by (cases "ds = []") (simp_all add: digits58_snoc, simp add: digits58_def)
qed simp

lemma digits58_unique:
  assumes "digits58 as = digits58 bs" and "\<forall>d \<in> set as \<union> set bs. d < 58"
    and "as = [] \<or> hd as \<noteq> 0" and "bs = [] \<or> hd bs \<noteq> 0"
  shows "as = bs"
  using assms
proof (induction as arbitrary: bs rule: rev_induct)
  case Nil
  then show ?case using digits58_pos [of bs] by (auto simp: digits58_def)
next
  case (snoc a as)
  show ?case
  proof (cases bs rule: rev_cases)
    case Nil
    then show ?thesis using snoc.prems digits58_pos [of "as @ [a]"] by (auto simp: digits58_def)
  next
    case bs: (snoc bs' b)
    have "a < 58" "b < 58" using snoc.prems(2) bs by auto
    moreover have "a + 58 * digits58 as = b + 58 * digits58 bs'" using snoc.prems(1) bs by (simp add: digits58_snoc)
    ultimately have "a = b" "digits58 as = digits58 bs'" by (auto dest: split_digit)
    moreover have "as = [] \<or> hd as \<noteq> 0" "bs' = [] \<or> hd bs' \<noteq> 0"
      using snoc.prems(3,4) bs by (auto simp: hd_append split: if_splits)
    ultimately show ?thesis using snoc.IH [of bs'] snoc.prems(2) bs by simp
  qed
qed

text \<open>A string over the alphabet as its leading ones and the digits after them.\<close>

definition after_ones :: "string \<Rightarrow> nat list" where
  "after_ones s = map (\<lambda>c. the (index_byte base58Alphabet c)) (dropWhile ((=) CHR ''1'') s)"

lemma base58_index:
  assumes "is_base58 c"
  shows "the (index_byte base58Alphabet c) < 58" "base58Alphabet ! the (index_byte base58Alphabet c) = c"
proof -
  obtain n where "index_byte base58Alphabet c = Some n" using assms by (auto simp: is_base58_def)
  then show "the (index_byte base58Alphabet c) < 58" "base58Alphabet ! the (index_byte base58Alphabet c) = c"
    using index_byte_nth by (fastforce simp: base58Alphabet_def)+
qed

lemma base58_val_after_ones: "base58_val s = digits58 (after_ones s)"
proof -
  have "index_byte base58Alphabet CHR ''1'' = Some 0" by (simp add: base58Alphabet_def)
  then have "foldl (\<lambda>n c. n * 58 + the (index_byte base58Alphabet c)) 0 (takeWhile ((=) CHR ''1'') s) = 0"
    by (induction s) auto
  then have "base58_val s = foldl (\<lambda>n c. n * 58 + the (index_byte base58Alphabet c)) 0 (dropWhile ((=) CHR ''1'') s)"
    unfolding base58_val_def by (metis foldl_append takeWhile_dropWhile_id)
  then show ?thesis by (simp add: digits58_def after_ones_def foldl_map)
qed

lemma after_ones_digits:
  assumes "list_all is_base58 s"
  shows "\<forall>d \<in> set (after_ones s). d < 58" "after_ones s = [] \<or> hd (after_ones s) \<noteq> 0"
    "s = replicate (length (takeWhile ((=) CHR ''1'') s)) CHR ''1'' @ map ((!) base58Alphabet) (after_ones s)"
proof -
  let ?t = "dropWhile ((=) CHR ''1'') s"
  have t: "\<forall>c \<in> set ?t. is_base58 c" using assms by (auto simp: list_all_iff dest: set_dropWhileD)
  then show "\<forall>d \<in> set (after_ones s). d < 58" by (auto simp: after_ones_def base58_index)
  show "after_ones s = [] \<or> hd (after_ones s) \<noteq> 0"
  proof (cases ?t)
    case (Cons c cs)
    then have "CHR ''1'' \<noteq> c" by (metis hd_dropWhile list.discI list.sel(1))
    moreover have "base58Alphabet ! the (index_byte base58Alphabet c) = c" using t Cons by (simp add: base58_index)
    ultimately have "the (index_byte base58Alphabet c) \<noteq> 0"
      by (metis base58Alphabet_def nth_Cons_0)
    with Cons show ?thesis by (simp add: after_ones_def)
  qed (simp add: after_ones_def)
  have "map ((!) base58Alphabet) (after_ones s) = ?t"
    unfolding after_ones_def map_map using t by (intro map_idI) (simp add: base58_index)
  moreover have "takeWhile ((=) CHR ''1'') s = replicate (length (takeWhile ((=) CHR ''1'') s)) CHR ''1''"
    by (rule replicate_eqI) (auto dest: set_takeWhileD)
  ultimately show "s = replicate (length (takeWhile ((=) CHR ''1'') s)) CHR ''1'' @ map ((!) base58Alphabet) (after_ones s)"
    by (metis takeWhile_dropWhile_id)
qed

lemma leading_zeros: "minimal v \<Longrightarrow> takeWhile ((=) 0) (replicate n 0 @ v) = replicate n 0"
  by (induction n) (auto simp: minimal_def takeWhile_eq_Nil_iff)

text \<open>base 58 text is canonical: two strings that \<^verbatim>\<open>decodeBase58BTC\<close> decodes to the same bytes are the same string, so
  no key has two spellings under the multibase prefix z.\<close>

theorem decodeBase58BTC_injective:
  assumes "decodeBase58BTC s = Some b" and "decodeBase58BTC t = Some b"
  shows "s = t"
proof -
  let ?n = "\<lambda>s. length (takeWhile ((=) CHR ''1'') s)"
  obtain v w where s: "list_all is_base58 s" "b = replicate (?n s) 0 @ v" "minimal v" "be_val v = base58_val s"
    and t: "list_all is_base58 t" "b = replicate (?n t) 0 @ w" "minimal w" "be_val w = base58_val t"
    using assms unfolding decodeBase58BTC_iff by blast
  have n: "?n s = ?n t" using leading_zeros [OF s(3), of "?n s"] leading_zeros [OF t(3), of "?n t"] s(2) t(2)
    by (metis length_replicate)
  then have "v = w" using s(2) t(2) by simp
  then have "after_ones s = after_ones t"
    using s t after_ones_digits by (intro digits58_unique) (auto simp: base58_val_after_ones [symmetric])
  then show ?thesis using after_ones_digits(3) [OF s(1)] after_ones_digits(3) [OF t(1)] n by metis
qed

theorem decodeBase58BTC_injective_witness:
  "{s. decodeBase58BTC s = Some [0, 1, 2]} = {''15T''}"
proof -
  have "decodeBase58BTC ''15T'' = Some [0, 1, 2]"
    by (simp add: decodeBase58BTC_def base58Alphabet_def base58_digit_def carry_bytes.simps)
  then show ?thesis using decodeBase58BTC_injective by blast
qed

section \<open>What the binder returns\<close>

lemma bind_methods_find:
  "bind_methods lib jx docID keyID ms =
    (case List.find (\<lambda>m. methodMatches m docID keyID \<and> hasKeyMaterial m) ms of
       None \<Rightarrow> Inl PlainError | Some m \<Rightarrow> bindMethod lib jx m)"
  by (induction ms) auto

lemma in_add_candidate: "c \<in> set (add_candidate alg key) \<longleftrightarrow> key = Some (cand_key c) \<and> cand_alg c = alg"
  by (cases c) (auto simp: add_candidate_def split: option.splits)

lemma curvePointBytes_on_curve:
  assumes "curvePointBytes c raw n = Some (x, y)" and "c \<noteq> CurveOther"
  shows "IsOnCurve c x y"
  using assms UnmarshalCompressed_on_curve [of c raw x y]
  by (auto simp: curvePointBytes_def elliptic_Unmarshal_def Let_def split: if_splits option.splits)

text \<open>A key on the curve: an ECDSA key whose coordinates satisfy the equation of its curve, or a key of another kind.\<close>

definition on_curve :: "PublicKey \<Rightarrow> bool" where
  "on_curve key \<longleftrightarrow> (\<forall>k h. key = PubEcdsa (Some k) h \<longrightarrow> IsOnCurve (ec_curve k) (ec_X k) (ec_Y k))"

lemma ecdsaKeyForPoint_key:
  assumes "ecdsaKeyForPoint c h raw = Some key" and "c \<noteq> CurveOther"
  shows "on_curve key \<and> AlgorithmForPublicKey key = ecdsaAlgForCurve c"
  using assms curvePointBytes_on_curve [of c raw]
  by (auto simp: ecdsaKeyForPoint_def sum_option_Some ecdsa_NewPublicKey_def sbind_Inr_conv on_curve_def AlgorithmForPublicKey_def
      ecdsa_Curve_def split: option.splits)

definition is_secp256k1 :: "PublicKey \<Rightarrow> bool" where
  "is_secp256k1 key \<longleftrightarrow> (\<exists>p. key = PubSecp256k1 p)"

lemma secp256k1_key: "secp256k1_NewPublicKey lib b = Inr key \<Longrightarrow> is_secp256k1 key"
  by (auto simp: is_secp256k1_def secp256k1_NewPublicKey_def split: if_splits option.splits)

lemma secp256k1KeyForXY_key: "secp256k1KeyForXY lib b = Some key \<Longrightarrow> is_secp256k1 key"
  by (auto simp: secp256k1KeyForXY_def sum_option_Some dest: secp256k1_key split: if_splits)

lemma candidate_key:
  assumes "candidatesForRawKey lib raw = Some cands" and "c \<in> set cands"
  shows "AlgorithmForPublicKey (cand_key c) = Inr (cand_alg c) \<and> on_curve (cand_key c)"
proof -
  consider "sum_option (trustEd25519Pub raw) = Some (cand_key c)" "cand_alg c = AlgorithmEdDSA"
    | "is_secp256k1 (cand_key c)" "cand_alg c = AlgorithmES256K"
    | "ecdsaKeyForPoint P256 SHA256 raw = Some (cand_key c)" "cand_alg c = AlgorithmES256"
    | "ecdsaKeyForPoint P384 SHA384 raw = Some (cand_key c)" "cand_alg c = AlgorithmES384"
    using assms secp256k1_key [of lib raw "cand_key c"] secp256k1KeyForXY_key [of lib _ "cand_key c"]
    by (auto simp: candidatesForRawKey_def Let_def in_add_candidate secp256k1KeyForUncompressed_def sum_option_Some split: if_splits)
  then show ?thesis
  proof cases
    case 1
    then have "cand_key c = PubEd25519 raw" by (auto simp: sum_option_Some trustEd25519Pub_def ed25519_NewPublicKey_def split: if_splits)
    with 1 show ?thesis by (simp add: on_curve_def key_algorithms)
  next
    case 2
    then show ?thesis by (auto simp: is_secp256k1_def on_curve_def key_algorithms)
  next
    case 3
    then show ?thesis using ecdsaKeyForPoint_key [OF 3(1)] by (simp add: ecdsaAlgForCurve_def)
  next
    case 4
    then show ?thesis using ecdsaKeyForPoint_key [OF 4(1)] by (simp add: ecdsaAlgForCurve_def)
  qed
qed

lemma selectCandidate_Inr:
  assumes "selectCandidate cands declared = Inr key"
  obtains c where "c \<in> set cands" "key = cand_key c" "declared = [] \<or> cand_alg c \<in> set declared"
proof -
  obtain c where c: "filter (\<lambda>c. length declared = 0 \<or> containsAlgorithm declared (cand_alg c)) cands = [c]" "key = cand_key c"
    using assms by (auto simp: selectCandidate_def split: list.splits)
  then have "c \<in> set (filter (\<lambda>c. length declared = 0 \<or> containsAlgorithm declared (cand_alg c)) cands)" by simp
  with c(2) show thesis using that by (auto simp: containsAlgorithm_def list_ex_iff)
qed

lemma singleton_length: "length xs \<noteq> 0 \<Longrightarrow> \<not> length xs > 1 \<Longrightarrow> xs = [xs ! 0]"
  by (cases xs rule: remdups_adj.cases) auto

lemma bindJWK_cases:
  assumes "bindJWK lib jx member declared = r" and "r \<noteq> Inl (Sentinel V_ErrKeyBinding)"
  obtains cands a where "algorithmsForJWK member = Inr cands" "intersectAlgorithms cands declared = [a]" "jwk_key lib jx member a = r"
proof -
  have "algorithmsForJWK member = Inl e \<Longrightarrow> e = Sentinel V_ErrKeyBinding" for e
    by (auto simp: algorithmsForJWK_def Let_def one_alg_def split: option.splits if_splits)
  then obtain cands where "algorithmsForJWK member = Inr cands"
    using assms by (cases "algorithmsForJWK member") (auto simp: bindJWK_def)
  then show thesis
    using that assms singleton_length [of "intersectAlgorithms cands declared"] by (auto simp: bindJWK_def Let_def split: if_splits)
qed

lemma intersect_singleton: "intersectAlgorithms cands declared = [a] \<Longrightarrow> a \<in> set cands \<and> (declared = [] \<or> a \<in> set declared)"
proof -
  assume "intersectAlgorithms cands declared = [a]"
  then have "a \<in> set (intersectAlgorithms cands declared)" by simp
  then show ?thesis by (auto simp: intersectAlgorithms_def containsAlgorithm_def list_ex_iff)
qed

lemma bindJWK_Inr:
  assumes "bindJWK lib jx member declared = Inr key"
  obtains a where "AlgorithmForPublicKey key = Inr a" "declared = [] \<or> a \<in> set declared"
proof -
  obtain cands a where "intersectAlgorithms cands declared = [a]" "jwk_key lib jx member a = Inr key"
    using bindJWK_cases [OF assms] by blast
  moreover from this have "AlgorithmForPublicKey key = Inr a"
    by (auto simp: jwk_key_def split: sum.splits jwk_fault.splits if_splits)
  ultimately show thesis using that intersect_singleton by blast
qed


definition demo_method :: Method where
  "demo_method = \<lparr>vm_ID = ''did:example:a#k'', vm_Type = ''Ed25519VerificationKey2020'', vm_Controller = [],
    vm_BlockchainAccountId = [], vm_PublicKeyJWK = [], vm_PublicKeyMultibase = CHR ''f'' # hex_EncodeToString (replicate 32 7)\<rparr>"

definition demo_document :: "Method \<Rightarrow> Document" where
  "demo_document m = \<lparr>doc_ID = ''did:example:a'', doc_VerificationMethod = [m], doc_Service = []\<rparr>"

lemma hex_replicate_ne: "hex_EncodeToString (replicate (Suc n) b) \<noteq> []"
  by (simp add: hex_EncodeToString_def)


text \<open>of an uncompressed secp256k1 point only the abscissa and the parity of the ordinate are read: every ordinate
  of the same parity binds the same key, so a point that is not on the curve is accepted.\<close>

theorem secp256k1KeyForXY_ignores_y:
  assumes "length x = 32" and "length y = 32" and "length y' = 32" and "even (unat (last y)) = even (unat (last y'))"
  shows "secp256k1KeyForXY lib (x @ y) = secp256k1KeyForXY lib (x @ y') \<and>
    secp256k1KeyForUncompressed lib (4 # x @ y) = secp256k1KeyForUncompressed lib (4 # x @ y')"
proof -
  have "y \<noteq> []" "y' \<noteq> []" using assms(2,3) by auto
  then show ?thesis using assms by (simp add: secp256k1KeyForXY_def secp256k1KeyForUncompressed_def)
qed

theorem secp256k1KeyForXY_ignores_y_witness:
  "secp256k1KeyForXY demo_lib (replicate 32 1 @ replicate 32 1) = secp256k1KeyForXY demo_lib (replicate 32 1 @ replicate 32 3)"
  using secp256k1KeyForXY_ignores_y [of "replicate 32 1" "replicate 32 1" "replicate 32 3" demo_lib] by simp

section \<open>When the binder panics\<close>

lemma one_alg_Inr: "one_alg member alg = Inr cands \<longleftrightarrow> cands = [alg] \<and> alg_member member \<in> {None, Some (JOSE alg)}"
  by (auto simp: one_alg_def split: option.splits)

text \<open>A method that makes the binder panic: a JWK on secp256k1 with a point off the curve, no multibase key, and a declared
  algorithm that admits it.\<close>

definition off_curve_jwk :: "jwx \<Rightarrow> members \<Rightarrow> bool" where
  "off_curve_jwk jx member \<longleftrightarrow> alg_member member \<in> {None, Some ''ES256K''} \<and>
    (\<exists>x y. secp256k1_members member x y \<and> S256_bad jx x y)"

definition off_curve_method :: "jwx \<Rightarrow> Method \<Rightarrow> bool" where
  "off_curve_method jx m \<longleftrightarrow> vm_PublicKeyMultibase m = [] \<and> off_curve_jwk jx (vm_PublicKeyJWK m) \<and>
    (\<exists>ds. declaredAlgorithms m = Inr ds \<and> (ds = [] \<or> AlgorithmES256K \<in> set ds))"

lemma map_of_update_alg: "key \<noteq> ''alg'' \<Longrightarrow> map_of (jwkWithAlg member alg) key = map_of member key"
  by (simp add: jwkWithAlg_def update_conv' split: option.splits)

lemma optString_update_alg: "key \<noteq> ''alg'' \<Longrightarrow> optString (jwkWithAlg member alg) key = optString member key"
  by (simp add: optString_def map_of_update_alg)

lemma JOSE_ES256K: "JOSE AlgorithmES256K = ''ES256K''"
  by (simp add: JOSE_def algorithmTable_def AlgorithmES256K_def)

lemma alg_member_optString: "optString member ''alg'' = (case alg_member member of None \<Rightarrow> [] | Some s \<Rightarrow> s)"
  by (auto simp: optString_def alg_member_def split: option.splits goany.splits)

lemma jwkWithAlg_secp256k1:
  assumes "alg_member member \<in> {None, Some ''ES256K''}"
  shows "secp256k1_members (jwkWithAlg member AlgorithmES256K) x y \<longleftrightarrow> secp256k1_members member x y"
proof -
  have "optString (jwkWithAlg member AlgorithmES256K) ''alg'' = ''ES256K''"
    using assms by (auto simp: alg_member_optString jwkWithAlg_def JOSE_ES256K alg_member_def update_conv')
  moreover have "optString member ''alg'' \<in> {[], ''ES256K''}" using assms by (auto simp: alg_member_optString)
  ultimately show ?thesis by (simp add: secp256k1_members_def map_of_update_alg optString_update_alg)
qed

lemma algorithmsForJWK_secp256k1:
  assumes "secp256k1_members member x y"
  shows "algorithmsForJWK member = one_alg member AlgorithmES256K"
proof -
  have "optString member ''kty'' = ''EC''" "optString member ''crv'' = ''secp256k1''"
    using assms by (auto simp: secp256k1_members_def optString_def)
  then show ?thesis by (simp add: algorithmsForJWK_def)
qed

lemma bindJWK_panics:
  "bindJWK lib jx member ds = Inl RuntimePanic \<longleftrightarrow> off_curve_jwk jx member \<and> (ds = [] \<or> AlgorithmES256K \<in> set ds)"
proof
  assume "bindJWK lib jx member ds = Inl RuntimePanic"
  then obtain cands alg where c: "algorithmsForJWK member = Inr cands" and alg: "intersectAlgorithms cands ds = [alg]"
    "jwk_key lib jx member alg = Inl RuntimePanic"
    by (rule bindJWK_cases) simp_all
  then have "jwk_Unmarshal lib jx (Some (jwkWithAlg member alg)) = Inl JwkPanic"
    by (auto simp: jwk_key_def split: sum.splits jwk_fault.splits if_splits)
  then obtain x y where xy: "secp256k1_members (jwkWithAlg member alg) x y" "S256_bad jx x y"
    by (auto simp: Unmarshal_panics_iff)
  then have "optString member ''kty'' = ''EC''" "optString member ''crv'' = ''secp256k1''"
    by (auto simp: secp256k1_members_def optString_update_alg map_of_update_alg optString_def)
  then have "algorithmsForJWK member = one_alg member AlgorithmES256K" by (simp add: algorithmsForJWK_def)
  with c have one: "cands = [AlgorithmES256K]" "alg_member member \<in> {None, Some ''ES256K''}"
    by (auto simp: one_alg_Inr JOSE_ES256K)
  then have "alg = AlgorithmES256K" "ds = [] \<or> AlgorithmES256K \<in> set ds"
    using intersect_singleton [OF alg(1)] by auto
  with xy one jwkWithAlg_secp256k1 show "off_curve_jwk jx member \<and> (ds = [] \<or> AlgorithmES256K \<in> set ds)"
    by (auto simp: off_curve_jwk_def)
next
  assume r: "off_curve_jwk jx member \<and> (ds = [] \<or> AlgorithmES256K \<in> set ds)"
  then obtain x y where alg: "alg_member member \<in> {None, Some ''ES256K''}" and xy: "secp256k1_members member x y" "S256_bad jx x y"
    by (auto simp: off_curve_jwk_def)
  then have "jwk_Unmarshal lib jx (Some (jwkWithAlg member AlgorithmES256K)) = Inl JwkPanic"
    using jwkWithAlg_secp256k1 [OF alg] by (auto simp: Unmarshal_panics_iff)
  moreover have "algorithmsForJWK member = Inr [AlgorithmES256K]"
    using algorithmsForJWK_secp256k1 [OF xy(1)] alg by (simp add: one_alg_Inr JOSE_ES256K)
  moreover have "intersectAlgorithms [AlgorithmES256K] ds = [AlgorithmES256K]"
    using r by (auto simp: intersectAlgorithms_def containsAlgorithm_def list_ex_iff)
  ultimately show "bindJWK lib jx member ds = Inl RuntimePanic" by (simp add: bindJWK_def jwk_key_def)
qed

lemma bindMethod_panics: "bindMethod lib jx m = Inl RuntimePanic \<longleftrightarrow> off_curve_method jx m"
proof -
  have "declaredAlgorithms m \<noteq> Inl RuntimePanic"
    by (auto simp: declaredAlgorithms_def algorithmsForSuiteType_def sbind_Inl_conv split: option.splits)
  moreover have "selectCandidate cands ds \<noteq> Inl RuntimePanic" for cands ds
    by (auto simp: selectCandidate_def split: list.splits)
  ultimately show ?thesis
    by (auto simp: bindMethod_def sbind_Inl_conv off_curve_method_def bindJWK_panics split: option.splits)
qed

text \<open>the default binder panics exactly when the method it selects holds a secp256k1 JWK with a point off the curve
  and declares nothing that excludes it.\<close>

theorem DocumentKeyBinder_panics_exact:
  "DocumentKeyBinder_Bind lib jx keyID doc = Inl RuntimePanic \<longleftrightarrow>
    (\<exists>d m. doc = Some d \<and>
      List.find (\<lambda>m. methodMatches m (doc_ID d) keyID \<and> hasKeyMaterial m) (doc_VerificationMethod d) = Some m \<and>
      off_curve_method jx m)"
  by (auto simp: DocumentKeyBinder_Bind_def bind_methods_find bindMethod_panics split: option.splits)

text \<open>C25: an attestation that nobody signed can crash the verifier. When the attestation is malformed the signature is
  not checked, yet the key of the claimed issuer is bound: if the issuer's DID document holds a secp256k1 key off
  the curve, \<^verbatim>\<open>Verify\<close> with the default binder panics instead of returning a result.\<close>

theorem Verify_unauthenticated_panic:
  assumes "in_Attestation inp = Some att" and "in_SigningKey inp \<noteq> PubNil" and "in_Chain inp \<noteq> []"
    and "BuildProvenance inp = Inr prov" and "in_KeyVersions inp = []"
    and "attestation_Validate (Some att) = Inl err"
    and "in_IdentityResolver inp = Some resolver" and "did_Parse (att_Issuer att) = Inr d" and "resolver d = Inr (Some doc)"
    and "doc_VerificationMethod doc = [m]" and "methodMatches m (doc_ID doc) (att_SigningKeyID att)" and "off_curve_method jx m"
  shows "Verify lib wall (NewEngine now (DocumentKeyBinder_Bind lib jx) []) inp = Inl RuntimePanic"
proof -
  let ?e = "NewEngine now (DocumentKeyBinder_Bind lib jx) []" and ?run = "outcomes lib wall (NewEngine now (DocumentKeyBinder_Bind lib jx) []) inp prov"
  have "hasKeyMaterial m"
    using assms(12) by (auto simp: off_curve_method_def off_curve_jwk_def secp256k1_members_def hasKeyMaterial_def)
  then have "DocumentKeyBinder_Bind lib jx (att_SigningKeyID att) (Some doc) = Inl RuntimePanic"
    using assms(10-12) by (simp add: DocumentKeyBinder_Bind_def bindMethod_panics)
  then have "checkKeyBinding lib (context_of ?e inp prov) = Inl (- 1, RuntimePanic)"
    using assms(1,5,7-9)
    by (simp add: checkKeyBinding_def checkSigningKeyVersion_def bindKeyMatches_def context_of_def NewEngine_def fail_def)
  moreover have "check_fails ?run CheckStructural"
    using assms(1,6) by (simp add: check_fails.simps [of _ CheckStructural] outcomes_def checkStructural_def context_of_def fail_def)
  then have "\<not> check_fails ?run CheckSignature" by (simp add: check_fails.simps [of _ CheckSignature])
  ultimately have "binder_panics ?run" by (auto simp: binder_panics_def outcomes_def)
  then show ?thesis using Verify_report [OF _ assms(2-4)] assms(1) by simp
qed

definition demo_off_curve :: Method where
  "demo_off_curve = \<lparr>vm_ID = ''did:example:a#k'', vm_Type = ''JsonWebKey2020'', vm_Controller = [], vm_BlockchainAccountId = [],
    vm_PublicKeyJWK = [(''kty'', AnyString ''EC''), (''crv'', AnyString ''secp256k1''), (''x'', AnyString ''AQ''), (''y'', AnyString ''AQ'')],
    vm_PublicKeyMultibase = []\<rparr>"

lemma demo_off_curve_method: "off_curve_method demo_jwx demo_off_curve"
proof -
  have "url64_decode ''AQ'' = Some [1]" by (simp add: url64_decode_def url64_val_def less_eq_char_def)
  then have "secp256k1_members (vm_PublicKeyJWK demo_off_curve) 1 1"
    by (simp add: secp256k1_members_def demo_off_curve_def optString_def be_val_def)
  moreover have "S256_bad demo_jwx 1 1" by (simp add: S256_bad_def demo_jwx_def)
  ultimately have "off_curve_jwk demo_jwx (vm_PublicKeyJWK demo_off_curve)"
    unfolding off_curve_jwk_def by (auto simp: alg_member_def demo_off_curve_def)
  then show ?thesis
    by (simp add: off_curve_method_def declaredAlgorithms_def algorithmsForSuiteType_def suiteKeyAlgorithms_def demo_off_curve_def)
qed

theorem Verify_unauthenticated_panic_witness:
  "\<exists>inp att. in_Attestation inp = Some att \<and> attestation_Validate (Some att) = Inl ErrEmptyAuthorityRef \<and>
    Verify demo_lib (demo_instant 2) (NewEngine zero_time (DocumentKeyBinder_Bind demo_lib demo_jwx) []) inp = Inl RuntimePanic"
proof -
  let ?att = "demo_signed []"
  let ?inp = "demo_inputs [] []\<lparr>in_IdentityResolver := Some (\<lambda>_. Inr (Some (demo_document demo_off_curve)))\<rparr>"
  obtain prov where "BuildProvenance (demo_inputs [] []) = Inr prov" using demo_provenance by blast
  then obtain prov' where prov: "BuildProvenance ?inp = Inr prov'"
    by (auto simp: BuildProvenance_def sbind_Inr_conv demo_inputs_def split: if_splits)
  have err: "attestation_Validate (Some ?att) = Inl ErrEmptyAuthorityRef"
    by (simp add: attestation_Validate_def demo_signed_def demo_attestation_def)
  have iss: "att_Issuer ?att = ''did:example:a''" "att_SigningKeyID ?att = ''k''" by (simp_all add: demo_signed_def demo_attestation_def)
  have "did_syntax ''example'' ''a'' [] None None"
    by (simp add: did_syntax_def method_char_def id_char_def msid_char_def is_lower_def is_upper_def is_num_def less_eq_char_def)
  moreover have "did_unparse ''example'' ''a'' [] None None = ''did:example:a''"
    by (simp add: did_unparse_def did_tail_def query_part_def fragment_part_def)
  ultimately obtain d where d: "did_Parse ''did:example:a'' = Inr d" using did_parse_unparse did_Parse_def by metis
  have "Verify demo_lib (demo_instant 2) (NewEngine zero_time (DocumentKeyBinder_Bind demo_lib demo_jwx) []) ?inp = Inl RuntimePanic"
    by (rule Verify_unauthenticated_panic [OF _ _ _ prov _ err _ _ _ _ _ demo_off_curve_method, where doc = "demo_document demo_off_curve"
          and resolver = "\<lambda>_. Inr (Some (demo_document demo_off_curve))"])
      (simp_all add: demo_inputs_def iss d demo_document_def methodMatches_def demo_off_curve_def)
  moreover have "in_Attestation ?inp = Some ?att" by (simp add: demo_inputs_def)
  ultimately show ?thesis using err by blast
qed

end
