(* ===== verification/Ethereum.thy ===== *)
theory Ethereum
  imports Keys GoText
begin

text \<open>
  Ethereum addresses and recoverable signatures: \<^verbatim>\<open>src/crypto/secp256k1/recovery.go\<close>, \<^verbatim>\<open>address.go\<close>,
  \<^verbatim>\<open>src/chain/ethereum/address.go\<close> and \<^verbatim>\<open>src/crypto/hash/keccak256.go\<close>. Keccak-256 and the compact
  signatures are third-party functions, the fields \<open>ethlib\<close> adds to those of \<open>clib\<close>.
\<close>

section \<open>Third-party operations\<close>

text \<open>
  A compact signature is a header byte, \<open>r\<close> and \<open>s\<close>; recovery returns the point and whether the header
  asked for a compressed key.
\<close>

record ethlib = clib +
  eth_Keccak256 :: "bytes \<Rightarrow> bytes"
  eth_SignCompact :: "nat \<Rightarrow> bytes \<Rightarrow> bool \<Rightarrow> bytes"
  eth_RecoverCompact :: "bytes \<Rightarrow> bytes \<Rightarrow> (point \<times> bool) option"

datatype recovery_error =
    RErrInvalidSignature
  | RErrInvalidRecoveryID
  | RErrRecovery
  | RErrCompact
  | RErrNilKey
  | ErrInvalidAddress

definition Keccak256_Sum :: "ethlib \<Rightarrow> bytes \<Rightarrow> bytes" where
  "Keccak256_Sum lib data = eth_Keccak256 lib data"

section \<open>Recoverable signatures\<close>

definition RecoverPubKey :: "ethlib \<Rightarrow> bytes \<Rightarrow> bytes \<Rightarrow> byte \<Rightarrow> recovery_error + point" where
  "RecoverPubKey lib sig digest recID =
    (if length sig \<noteq> 64 then Inl RErrInvalidSignature
     else if length digest \<noteq> 32 then Inl RErrInvalidSignature
     else if recID > 3 then Inl RErrInvalidRecoveryID
     else (case eth_RecoverCompact lib ((27 + recID + 4) # sig) digest of
         None \<Rightarrow> Inl RErrRecovery
       | Some (pub, wasCompressed) \<Rightarrow> if \<not> wasCompressed then Inl RErrRecovery else Inr pub))"

definition SignRecoverable :: "ethlib \<Rightarrow> nat \<Rightarrow> bytes \<Rightarrow> recovery_error + (bytes \<times> byte)" where
  "SignRecoverable lib priv hash =
    (if length hash \<noteq> 32 then Inl RErrInvalidSignature
     else (let compact = eth_SignCompact lib priv hash True
           in if length compact \<noteq> 65 then Inl RErrCompact
              else (let recID = compact ! 0 - 27 - 4
                    in if recID > 3 then Inl RErrCompact else Inr (drop 1 compact, recID))))"

section \<open>Addresses\<close>

definition BytesUncompressed :: "point \<Rightarrow> bytes" where
  "BytesUncompressed p = 0x04 # be_bytes 32 (fst p) @ be_bytes 32 (snd p)"

text \<open>A nil public key is \<open>None\<close>.\<close>

definition FromPublicKey :: "ethlib \<Rightarrow> point option \<Rightarrow> recovery_error + bytes" where
  "FromPublicKey lib pub =
    (case pub of
       None \<Rightarrow> Inl RErrNilKey
     | Some p \<Rightarrow> Inr (drop 12 (Keccak256_Sum lib (drop 1 (BytesUncompressed p)))))"

definition to_upper :: "char \<Rightarrow> char" where
  "to_upper c = char_of ((of_char c :: nat) - 32)"

text \<open>\<^verbatim>\<open>Address.Hex\<close> reads the nibble of the hash from its hexadecimal text.\<close>

definition hex_letter :: "char \<Rightarrow> bool" where
  "hex_letter c \<longleftrightarrow> CHR ''a'' \<le> c \<and> c \<le> CHR ''f''"

definition Address_Hex :: "ethlib \<Rightarrow> bytes \<Rightarrow> string" where
  "Address_Hex lib a =
    (let hexAddr = hex_EncodeToString a;
         hashHex = hex_EncodeToString (Keccak256_Sum lib (string_bytes hexAddr))
     in ''0x'' @ map (\<lambda>i. let c = hexAddr ! i
                         in if hex_letter c \<and> hashHex ! i \<ge> CHR ''8'' then to_upper c else c) [0..<40])"

text \<open>\<^verbatim>\<open>checksumAddress\<close> of \<^verbatim>\<open>crypto/secp256k1\<close> shifts the nibble out of the hash.\<close>

definition checksumAddress :: "ethlib \<Rightarrow> bytes \<Rightarrow> string" where
  "checksumAddress lib addr =
    (let lower = hex_EncodeToString addr; h = Keccak256_Sum lib (string_bytes lower)
     in ''0x'' @ map (\<lambda>i. let c = lower ! i; b = h ! (i div 2);
                             nibble = (if i mod 2 = 0 then drop_bit 4 b else take_bit 4 b)
                         in if hex_letter c \<and> nibble \<ge> 8 then to_upper c else c) [0..<40])"

definition EVMAddress :: "ethlib \<Rightarrow> point option \<Rightarrow> recovery_error + string" where
  "EVMAddress lib pub =
    (case pub of
       None \<Rightarrow> Inl RErrNilKey
     | Some p \<Rightarrow> Inr (checksumAddress lib (drop 12 (Keccak256_Sum lib (drop 1 (BytesUncompressed p))))))"

definition trim_prefix :: "string \<Rightarrow> string \<Rightarrow> string" where
  "trim_prefix s pre = (if take (length pre) s = pre then drop (length pre) s else s)"

definition ChecksumAddress :: "ethlib \<Rightarrow> string \<Rightarrow> string" where
  "ChecksumAddress lib s =
    (let addr = trim_prefix (trim_prefix s ''0x'') ''0X''
     in case hex_DecodeString addr of
          None \<Rightarrow> ''0x'' @ addr
        | Some b \<Rightarrow> if length b \<noteq> 20 then ''0x'' @ addr else checksumAddress lib b)"

definition ParseAddress :: "ethlib \<Rightarrow> string \<Rightarrow> recovery_error + bytes" where
  "ParseAddress lib str =
    (let s = trim_prefix str ''0x''
     in if length s \<noteq> 40 then Inl ErrInvalidAddress
        else case hex_DecodeString s of
          None \<Rightarrow> Inl ErrInvalidAddress
        | Some addr \<Rightarrow>
            if length addr \<noteq> 20 then Inl ErrInvalidAddress
            else if list_ex (\<lambda>c. CHR ''A'' \<le> c \<and> c \<le> CHR ''F'') s \<and> list_ex hex_letter s \<and>
                    s \<noteq> trim_prefix (Address_Hex lib addr) ''0x''
            then Inl ErrInvalidAddress
            else Inr addr)"

section \<open>Hexadecimal text letter by letter\<close>

lemma hex_nth:
  "i < 2 * length b \<Longrightarrow> hex_EncodeToString b ! i = hex_char (if even i then unat (b ! (i div 2)) div 16 else unat (b ! (i div 2)) mod 16)"
proof (induction b arbitrary: i)
  case (Cons x b)
  show ?case
  proof (cases i rule: nat.exhaust [case_names 0 Suc])
    case (Suc j)
    then show ?thesis
    proof (cases j rule: nat.exhaust [case_names 0 Suc])
      case (Suc k)
      with \<open>i = Suc j\<close> Cons show ?thesis by (simp add: hex_EncodeToString_def)
    qed (simp add: hex_EncodeToString_def)
  qed (simp add: hex_EncodeToString_def)
qed simp

lemma byte_nibbles:
  fixes b :: byte
  shows "unat (drop_bit 4 b) = unat b div 16" "unat (take_bit 4 b) = unat b mod 16"
  by (simp_all add: drop_bit_eq_div take_bit_eq_mod unat_div unat_mod)

lemma hex_char_ge_8: "d < 16 \<Longrightarrow> hex_char d \<ge> CHR ''8'' \<longleftrightarrow> d \<ge> 8"
  by (auto simp: hex_char_def less_eq_char_def)

text \<open>the two implementations of the checksum, the one that shifts nibbles out of the hash and the one that reads them
  from its hexadecimal text, give the same string, so the address text of a key does not depend on the package.\<close>

theorem checksum_implementations_agree:
  assumes "\<And>m. length (eth_Keccak256 lib m) = 32" and "length a = 20"
  shows "checksumAddress lib a = Address_Hex lib a"
proof -
  let ?h = "eth_Keccak256 lib (string_bytes (hex_EncodeToString a))"
  have "hex_EncodeToString ?h ! i \<ge> CHR ''8'' \<longleftrightarrow> (if i mod 2 = 0 then drop_bit 4 (?h ! (i div 2)) else take_bit 4 (?h ! (i div 2))) \<ge> 8"
    if "i < 40" for i
  proof -
    have "unat (?h ! (i div 2)) < 256" by (rule unat_byte)
    then have "unat (?h ! (i div 2)) div 16 < 16" by (simp add: less_mult_imp_div_less)
    then show ?thesis
      using that assms(1) by (simp add: hex_nth hex_char_ge_8 word_le_nat_alt byte_nibbles even_iff_mod_2_eq_zero)
  qed
  then show ?thesis by (simp add: checksumAddress_def Address_Hex_def Keccak256_Sum_def Let_def)
qed

text \<open>A concrete library: a constant hash, signatures whose \<open>r\<close> starts with the given byte, recovery of the key 5.\<close>

definition demo_ethlib :: "byte \<Rightarrow> ethlib" where
  "demo_ethlib b = clib.extend demo_lib
    \<lparr>eth_Keccak256 = (\<lambda>_. replicate 32 7),
     eth_SignCompact = (\<lambda>_ _ _. 31 # b # replicate 31 1 @ replicate 32 1),
     eth_RecoverCompact = (\<lambda>_ _. Some ((5, 5), True))\<rparr>"

lemma demo_ethlib_simps [simp]:
  "eth_Keccak256 (demo_ethlib b) m = replicate 32 7"
  "eth_SignCompact (demo_ethlib b) k h c = 31 # b # replicate 31 1 @ replicate 32 1"
  "eth_RecoverCompact (demo_ethlib b) sig h = Some ((5, 5), True)"
  "lib_secp_PubKey (demo_ethlib b) k = (k, k)"
  by (simp_all add: demo_ethlib_def clib.defs demo_lib_def)

theorem checksum_implementations_agree_witness:
  "checksumAddress (demo_ethlib 1) (replicate 20 0xab) = Address_Hex (demo_ethlib 1) (replicate 20 0xab)"
  by (rule checksum_implementations_agree) simp_all

section \<open>The accepted spellings of an address\<close>

definition up :: "char \<Rightarrow> char" where
  "up c = (if hex_letter c then to_upper c else c)"

definition hex_capital :: "char \<Rightarrow> bool" where
  "hex_capital c \<longleftrightarrow> CHR ''A'' \<le> c \<and> c \<le> CHR ''F''"

text \<open>One character of a hexadecimal text against the lower-case one.\<close>

definition spells :: "char \<Rightarrow> char \<Rightarrow> bool" where
  "spells c d \<longleftrightarrow> c = d \<or> c = up d"

lemma of_hex_char: "of_char (hex_char d) = (if d < 10 then 48 + d else 87 + d :: nat)" if "d < 16"
  using that by (simp add: hex_char_def)

lemma of_up_hex_char: "of_char (up (hex_char d)) = (if d < 10 then 48 + d else 55 + d :: nat)" if "d < 16"
  using that by (auto simp: up_def to_upper_def hex_letter_def less_eq_char_def of_hex_char)

lemma hex_char_cases:
  assumes "d < 16"
  shows "from_hex (up (hex_char d)) = Some d" "\<not> hex_capital (hex_char d)" "\<not> hex_letter (up (hex_char d))"
  using assms
  by (auto simp: hex_letter_def hex_capital_def from_hex_def less_eq_char_def of_hex_char of_up_hex_char)

lemma from_hex_spells: "from_hex c = Some d \<Longrightarrow> d < 16 \<and> spells c (hex_char d)"
proof -
  assume c: "from_hex c = Some d"
  have "c = char_of (of_char c :: nat)" by simp
  moreover have "(of_char c :: nat) \<in> {48..57} \<union> {65..70} \<union> {97..102}"
    using c by (auto simp: from_hex_def less_eq_char_def split: if_splits)
  ultimately show ?thesis
    using c
    by (auto simp: from_hex_def spells_def up_def to_upper_def hex_letter_def hex_char_def less_eq_char_def split: if_splits)
qed

lemma nibbles: "l < 16 \<Longrightarrow> 16 * k + l = n \<longleftrightarrow> k = n div 16 \<and> l = n mod (16 :: nat)"
  by auto

lemma hex_Decode_spells:
  "hex_DecodeString s = Some b \<longleftrightarrow> list_all2 spells s (hex_EncodeToString b)"
proof (induction s arbitrary: b rule: hex_DecodeString.induct)
  case 1
  then show ?case by (cases b) (simp_all add: hex_EncodeToString_def)
next
  case (2 c)
  then show ?case by (cases b) (simp_all add: hex_EncodeToString_def)
next
  case (3 c d s)
  show ?case
  proof (cases b)
    case Nil
    then show ?thesis by (auto simp: hex_EncodeToString_def split: option.splits)
  next
    case (Cons x b')
    have x: "unat x < 256" by (rule unat_byte)
    then have n: "unat x div 16 < 16" "unat x mod 16 < 16" by (simp_all add: less_mult_imp_div_less)
    have hi: "spells e (hex_char k) \<longleftrightarrow> from_hex e = Some k" if "k < 16" for e k
      using that hex_char_cases(1) [OF that] from_hex_spells [of e k] by (auto simp: spells_def)
    have "hex_DecodeString (c # d # s) = Some b \<longleftrightarrow>
        from_hex c = Some (unat x div 16) \<and> from_hex d = Some (unat x mod 16) \<and> hex_DecodeString s = Some b'"
    proof -
      have "word_of_nat (16 * k + l) = x \<longleftrightarrow> k = unat x div 16 \<and> l = unat x mod 16" if "k < 16" "l < 16" for k l
      proof -
        have "16 * k + l < 256" using that by linarith
        then have "unat (word_of_nat (16 * k + l) :: byte) = 16 * k + l" by (rule unat_of_nat_byte)
        then have "word_of_nat (16 * k + l) = x \<longleftrightarrow> 16 * k + l = unat x" by (metis unat_word_inverse)
        then show ?thesis using nibbles [OF that(2)] by simp
      qed
      then show ?thesis using from_hex_spells [of c] from_hex_spells [of d] by (auto simp: Cons split: option.splits)
    qed
    then show ?thesis using 3 by (simp add: Cons hex_EncodeToString_def hi [OF n(1)] hi [OF n(2)])
  qed
qed

lemma hex_chars: "list_all (\<lambda>c. \<exists>d < 16. c = hex_char d) (hex_EncodeToString b)"
proof -
  have "unat x div 16 < 16" "unat x mod 16 < 16" for x :: byte using unat_byte [of x] by (simp_all add: less_mult_imp_div_less)
  then have "\<exists>d < 16. hex_char (unat x div 16) = hex_char d" "\<exists>d < 16. hex_char (unat x mod 16) = hex_char d" for x :: byte
    by blast+
  then show ?thesis by (induction b) (simp_all add: hex_EncodeToString_def)
qed

lemma hex_lower: "list_all (\<lambda>c. \<not> hex_capital c) (hex_EncodeToString b)"
  using hex_chars [of b] hex_char_cases(2) by (auto simp: list_all_iff)

lemma hex_upper: "list_all (\<lambda>c. \<not> hex_letter c) (map up (hex_EncodeToString b))"
  using hex_chars [of b] hex_char_cases(3) by (auto simp: list_all_iff)

lemma up_letter: "hex_letter c \<Longrightarrow> hex_capital (up c)"
proof -
  assume c: "hex_letter c"
  then have "97 \<le> (of_char c :: nat)" "(of_char c :: nat) \<le> 102" by (simp_all add: hex_letter_def less_eq_char_def)
  then have "65 \<le> (of_char c :: nat) - 32" "(of_char c :: nat) - 32 \<le> 70" by linarith+
  then show ?thesis using c by (simp add: up_def to_upper_def hex_capital_def less_eq_char_def)
qed

text \<open>Without capitals a spelling is the lower-case text, and without small letters the upper-case one.\<close>

lemma spells_lower: "list_all2 spells s t \<Longrightarrow> list_all (\<lambda>c. \<not> hex_capital c) s \<Longrightarrow> s = t"
proof (induction s t rule: list_all2_induct)
  case (Cons c s d t)
  then have "c = d" using up_letter [of d] by (cases "hex_letter d") (auto simp: spells_def up_def)
  with Cons show ?case by simp
qed simp

lemma spells_upper: "list_all2 spells s t \<Longrightarrow> list_all (\<lambda>c. \<not> hex_letter c) s \<Longrightarrow> s = map up t"
  by (induction s t rule: list_all2_induct) (auto simp: spells_def up_def)

lemma Address_Hex_spells: "length a = 20 \<Longrightarrow> list_all2 spells (drop 2 (Address_Hex lib a)) (hex_EncodeToString a)"
  by (auto simp: Address_Hex_def Let_def list_all2_conv_all_nth spells_def up_def)

lemma Address_Hex_prefix: "trim_prefix (Address_Hex lib a) ''0x'' = drop 2 (Address_Hex lib a)"
  by (simp add: Address_Hex_def trim_prefix_def Let_def)

text \<open>\<^verbatim>\<open>ParseAddress\<close> accepts exactly three spellings of an address, with or without the prefix 0x: all letters small, all
  letters capital, and the checksum spelling that \<^verbatim>\<open>Hex\<close> prints. In particular parsing inverts printing, and a mixed
  spelling with one letter in the wrong case is refused.\<close>

theorem ParseAddress_exact:
  "ParseAddress lib str = Inr a \<longleftrightarrow>
    length a = 20 \<and> trim_prefix str ''0x'' \<in> {hex_EncodeToString a, map up (hex_EncodeToString a), drop 2 (Address_Hex lib a)}"
proof -
  define t where "t = trim_prefix str ''0x''"
  define chk where "chk = drop 2 (Address_Hex lib a)"
  have mixed: "list_ex (\<lambda>c. CHR ''A'' \<le> c \<and> c \<le> CHR ''F'') t \<longleftrightarrow> \<not> list_all (\<lambda>c. \<not> hex_capital c) t"
    "list_ex hex_letter t \<longleftrightarrow> \<not> list_all (\<lambda>c. \<not> hex_letter c) t"
    by (auto simp: list_ex_iff list_all_iff hex_capital_def)
  have "ParseAddress lib str = Inr a \<longleftrightarrow> length t = 40 \<and> hex_DecodeString t = Some a \<and> length a = 20 \<and>
      \<not> (list_ex (\<lambda>c. CHR ''A'' \<le> c \<and> c \<le> CHR ''F'') t \<and> list_ex hex_letter t \<and> t \<noteq> chk)"
    unfolding ParseAddress_def Let_def t_def [symmetric] chk_def
    by (cases "hex_DecodeString t") (auto simp: Address_Hex_prefix)
  then have parse: "ParseAddress lib str = Inr a \<longleftrightarrow> length t = 40 \<and> list_all2 spells t (hex_EncodeToString a) \<and> length a = 20 \<and>
      (list_all (\<lambda>c. \<not> hex_capital c) t \<or> list_all (\<lambda>c. \<not> hex_letter c) t \<or> t = chk)"
    unfolding mixed hex_Decode_spells by blast
  show ?thesis
  proof (cases "length a = 20")
    case True
    have "list_all2 spells t (hex_EncodeToString a)"
      if "t \<in> {hex_EncodeToString a, map up (hex_EncodeToString a), chk}"
      using that Address_Hex_spells [OF True, of lib] by (auto simp: list_all2_conv_all_nth spells_def chk_def)
    moreover have "length t = 40" if "list_all2 spells t (hex_EncodeToString a)"
      using list_all2_lengthD [OF that] True by simp
    ultimately show ?thesis
      unfolding parse t_def [symmetric] chk_def [symmetric]
      using True spells_lower spells_upper hex_lower hex_upper by blast
  qed (simp add: parse)
qed

end
