(* ===== verification/Wallet.thy ===== *)
theory Wallet
  imports Ethereum Rlp
begin

text \<open>
  Transactions and the wallet, \<^verbatim>\<open>src/chain/wallet\<close>: the three transaction types with their signing hash and
  signed encoding (\<^verbatim>\<open>transaction.go\<close>), signing (\<^verbatim>\<open>sign.go\<close>, \<^verbatim>\<open>wallet.go\<close>), the decoder that recovers the sender
  (\<^verbatim>\<open>decode.go\<close>) and the validator (\<^verbatim>\<open>validate.go\<close>). A \<^verbatim>\<open>*big.Int\<close> is an optional integer, an address a list of
  20 bytes. A panic of the RLP decoder is an error value of its own.
\<close>

section \<open>Errors\<close>

datatype wallet_error =
    W_ErrEmptyInput
  | W_ErrInvalidType
  | W_ErrDecodeFailed
  | W_ErrInvalidField
  | W_ErrRecoverFailed
  | W_ErrInvalidRLP
  | W_ErrInvalidSignature
  | W_ErrChainIDMismatch
  | W_ErrHighS
  | W_ErrInvalidV
  | W_ErrFieldSanity
  | W_Plain
  | W_OfRecovery recovery_error
  | W_Panic

section \<open>Encoding of fields\<close>

definition encodeBig :: "int option \<Rightarrow> bytes" where
  "encodeBig n = (case n of None \<Rightarrow> EncodeBytes [] | Some i \<Rightarrow> if i = 0 then EncodeBytes [] else EncodeBytes (big_bytes (nat \<bar>i\<bar>)))"

definition encodeAddr :: "bytes option \<Rightarrow> bytes" where
  "encodeAddr addr = (case addr of None \<Rightarrow> EncodeBytes [] | Some a \<Rightarrow> EncodeBytes a)"

definition wallet_encodeBytes :: "bytes \<Rightarrow> bytes" where
  "wallet_encodeBytes b = EncodeBytes b"

definition wallet_keccak256 :: "ethlib \<Rightarrow> bytes \<Rightarrow> bytes" where
  "wallet_keccak256 lib data = Keccak256_Sum lib data"

record AccessListEntry =
  ale_Address :: bytes
  ale_StorageKeys :: "bytes list"

definition encodeAccessList :: "AccessListEntry list \<Rightarrow> bytes" where
  "encodeAccessList accessList =
    (if length accessList = 0 then EncodeList []
     else EncodeList (map (\<lambda>entry. EncodeList [EncodeBytes (ale_Address entry),
            EncodeList (map EncodeBytes (ale_StorageKeys entry))]) accessList))"

section \<open>Transactions\<close>

record LegacyTx =
  lt_ChainID :: "int option"
  lt_Nonce :: u64
  lt_GasPrice :: "int option"
  lt_GasLimit :: u64
  lt_To :: "bytes option"
  lt_Value :: "int option"
  lt_Data :: bytes

record EIP1559Tx =
  ft_ChainID :: "int option"
  ft_Nonce :: u64
  ft_MaxPriorityFeePerGas :: "int option"
  ft_MaxFeePerGas :: "int option"
  ft_GasLimit :: u64
  ft_To :: "bytes option"
  ft_Value :: "int option"
  ft_Data :: bytes
  ft_AccessList :: "AccessListEntry list"

record EIP2930Tx =
  at_ChainID :: "int option"
  at_Nonce :: u64
  at_GasPrice :: "int option"
  at_GasLimit :: u64
  at_To :: "bytes option"
  at_Value :: "int option"
  at_Data :: bytes
  at_AccessList :: "AccessListEntry list"

text \<open>The interface by dynamic type; a type of another package is given by its three methods.\<close>

datatype Transaction =
    TxLegacy LegacyTx
  | TxEIP2930 EIP2930Tx
  | TxEIP1559 EIP1559Tx
  | TxOther byte "wallet_error + bytes" "bytes \<Rightarrow> bytes \<Rightarrow> bytes \<Rightarrow> wallet_error + bytes"

definition no_chain :: "int option \<Rightarrow> bool" where
  "no_chain c \<longleftrightarrow> c = None \<or> c = Some 0"

definition Legacy_SigningHash :: "ethlib \<Rightarrow> LegacyTx \<Rightarrow> wallet_error + bytes" where
  "Legacy_SigningHash lib tx =
    (if no_chain (lt_ChainID tx) then Inl W_Plain
     else Inr (wallet_keccak256 lib (EncodeList
       [EncodeUint64 (lt_Nonce tx), encodeBig (lt_GasPrice tx), EncodeUint64 (lt_GasLimit tx), encodeAddr (lt_To tx),
        encodeBig (lt_Value tx), wallet_encodeBytes (lt_Data tx), encodeBig (lt_ChainID tx), EncodeUint64 0, EncodeUint64 0])))"

definition Legacy_EncodeSigned :: "LegacyTx \<Rightarrow> bytes \<Rightarrow> bytes \<Rightarrow> bytes \<Rightarrow> wallet_error + bytes" where
  "Legacy_EncodeSigned tx r s v =
    (if no_chain (lt_ChainID tx) then Inl W_Plain
     else Inr (EncodeList
       [EncodeUint64 (lt_Nonce tx), encodeBig (lt_GasPrice tx), EncodeUint64 (lt_GasLimit tx), encodeAddr (lt_To tx),
        encodeBig (lt_Value tx), wallet_encodeBytes (lt_Data tx), wallet_encodeBytes v, wallet_encodeBytes r,
        wallet_encodeBytes s]))"

definition EIP1559_SigningHash :: "ethlib \<Rightarrow> EIP1559Tx \<Rightarrow> wallet_error + bytes" where
  "EIP1559_SigningHash lib tx =
    (if no_chain (ft_ChainID tx) then Inl W_Plain
     else Inr (wallet_keccak256 lib (0x02 # EncodeList
       [encodeBig (ft_ChainID tx), EncodeUint64 (ft_Nonce tx), encodeBig (ft_MaxPriorityFeePerGas tx),
        encodeBig (ft_MaxFeePerGas tx), EncodeUint64 (ft_GasLimit tx), encodeAddr (ft_To tx), encodeBig (ft_Value tx),
        wallet_encodeBytes (ft_Data tx), encodeAccessList (ft_AccessList tx)])))"

definition EIP1559_EncodeSigned :: "EIP1559Tx \<Rightarrow> bytes \<Rightarrow> bytes \<Rightarrow> bytes \<Rightarrow> wallet_error + bytes" where
  "EIP1559_EncodeSigned tx r s v =
    (if no_chain (ft_ChainID tx) then Inl W_Plain
     else Inr (0x02 # EncodeList
       [encodeBig (ft_ChainID tx), EncodeUint64 (ft_Nonce tx), encodeBig (ft_MaxPriorityFeePerGas tx),
        encodeBig (ft_MaxFeePerGas tx), EncodeUint64 (ft_GasLimit tx), encodeAddr (ft_To tx), encodeBig (ft_Value tx),
        wallet_encodeBytes (ft_Data tx), encodeAccessList (ft_AccessList tx), encodeBig (Some (int (be_val v))),
        wallet_encodeBytes r, wallet_encodeBytes s]))"

definition EIP2930_SigningHash :: "ethlib \<Rightarrow> EIP2930Tx \<Rightarrow> wallet_error + bytes" where
  "EIP2930_SigningHash lib tx =
    (if no_chain (at_ChainID tx) then Inl W_Plain
     else Inr (wallet_keccak256 lib (0x01 # EncodeList
       [encodeBig (at_ChainID tx), EncodeUint64 (at_Nonce tx), encodeBig (at_GasPrice tx), EncodeUint64 (at_GasLimit tx),
        encodeAddr (at_To tx), encodeBig (at_Value tx), wallet_encodeBytes (at_Data tx), encodeAccessList (at_AccessList tx)])))"

definition EIP2930_EncodeSigned :: "EIP2930Tx \<Rightarrow> bytes \<Rightarrow> bytes \<Rightarrow> bytes \<Rightarrow> wallet_error + bytes" where
  "EIP2930_EncodeSigned tx r s v =
    (if no_chain (at_ChainID tx) then Inl W_Plain
     else Inr (0x01 # EncodeList
       [encodeBig (at_ChainID tx), EncodeUint64 (at_Nonce tx), encodeBig (at_GasPrice tx), EncodeUint64 (at_GasLimit tx),
        encodeAddr (at_To tx), encodeBig (at_Value tx), wallet_encodeBytes (at_Data tx), encodeAccessList (at_AccessList tx),
        encodeBig (Some (int (be_val v))), wallet_encodeBytes r, wallet_encodeBytes s]))"

fun tx_Type :: "Transaction \<Rightarrow> byte" where
  "tx_Type (TxLegacy _) = 0"
| "tx_Type (TxEIP2930 _) = 1"
| "tx_Type (TxEIP1559 _) = 2"
| "tx_Type (TxOther t _ _) = t"

fun tx_SigningHash :: "ethlib \<Rightarrow> Transaction \<Rightarrow> wallet_error + bytes" where
  "tx_SigningHash lib (TxLegacy tx) = Legacy_SigningHash lib tx"
| "tx_SigningHash lib (TxEIP2930 tx) = EIP2930_SigningHash lib tx"
| "tx_SigningHash lib (TxEIP1559 tx) = EIP1559_SigningHash lib tx"
| "tx_SigningHash lib (TxOther _ h _) = h"

fun tx_EncodeSigned :: "Transaction \<Rightarrow> bytes \<Rightarrow> bytes \<Rightarrow> bytes \<Rightarrow> wallet_error + bytes" where
  "tx_EncodeSigned (TxLegacy tx) r s v = Legacy_EncodeSigned tx r s v"
| "tx_EncodeSigned (TxEIP2930 tx) r s v = EIP2930_EncodeSigned tx r s v"
| "tx_EncodeSigned (TxEIP1559 tx) r s v = EIP1559_EncodeSigned tx r s v"
| "tx_EncodeSigned (TxOther _ _ enc) r s v = enc r s v"

section \<open>Signing\<close>

record Wallet =
  w_priv :: "nat option"

definition NewWallet :: "nat option \<Rightarrow> Wallet" where
  "NewWallet priv = \<lparr>w_priv = priv\<rparr>"

text \<open>The key of a wallet, when neither the wallet nor its key is nil.\<close>

definition wallet_key :: "Wallet option \<Rightarrow> nat option" where
  "wallet_key w = Option.bind w w_priv"

definition wallet_PublicKey :: "ethlib \<Rightarrow> Wallet option \<Rightarrow> point option" where
  "wallet_PublicKey lib w = map_option (lib_secp_PubKey lib) (wallet_key w)"

definition wallet_Address :: "ethlib \<Rightarrow> Wallet option \<Rightarrow> wallet_error + bytes" where
  "wallet_Address lib w =
    (case wallet_key w of
       None \<Rightarrow> Inl W_Plain
     | Some priv \<Rightarrow> lift_error W_OfRecovery (FromPublicKey lib (Some (lib_secp_PubKey lib priv))))"

definition assembleV :: "Transaction \<Rightarrow> byte \<Rightarrow> wallet_error + bytes" where
  "assembleV tx recID =
    (if tx_Type tx = 0 then
       (case tx of
          TxLegacy legacy \<Rightarrow>
            (case lt_ChainID legacy of
               None \<Rightarrow> Inl W_Plain
             | Some chainID \<Rightarrow>
                 if chainID = 0 then Inl W_Plain
                 else Inr (big_bytes (nat \<bar>chainID * 2 + (int (unat recID) + 35)\<bar>)))
        | _ \<Rightarrow> Inl W_Plain)
     else if tx_Type tx = 1 then Inr [recID]
     else if tx_Type tx = 2 then Inr [recID]
     else Inl W_Plain)"

text \<open>A nil transaction is \<open>None\<close>.\<close>

definition SignTx :: "ethlib \<Rightarrow> Wallet option \<Rightarrow> Transaction option \<Rightarrow> wallet_error + bytes" where
  "SignTx lib w tx =
    (case wallet_key w of
       None \<Rightarrow> Inl W_Plain
     | Some priv \<Rightarrow> (case tx of
         None \<Rightarrow> Inl W_Plain
       | Some t \<Rightarrow>
           sbind (tx_SigningHash lib t) (\<lambda>digest.
           sbind (lift_error W_OfRecovery (SignRecoverable lib priv digest)) (\<lambda>(sig, recID).
           sbind (assembleV t recID) (\<lambda>v.
             tx_EncodeSigned t (take 32 sig) (take 32 (drop 32 sig)) v)))))"

definition personalMessagePrefix :: "bytes \<Rightarrow> bytes" where
  "personalMessagePrefix msg =
    0x19 # string_bytes (''Ethereum Signed Message:'' @ [CHR 0x0A] @ nat_string (length msg))"

text \<open>The 65 bytes \<open>r\<close>, \<open>s\<close> and the recovery identifier plus 27.\<close>

definition signature_with_v :: "bytes \<times> byte \<Rightarrow> bytes" where
  "signature_with_v sr = take 64 (fst sr) @ [snd sr + 27]"

definition SignPersonalMessage :: "ethlib \<Rightarrow> Wallet option \<Rightarrow> bytes \<Rightarrow> wallet_error + bytes" where
  "SignPersonalMessage lib w msg =
    (case wallet_key w of
       None \<Rightarrow> Inl W_Plain
     | Some priv \<Rightarrow>
         sbind (lift_error W_OfRecovery (SignRecoverable lib priv (Keccak256_Sum lib (personalMessagePrefix msg @ msg))))
           (\<lambda>sr. Inr (signature_with_v sr)))"

definition SignDigest :: "ethlib \<Rightarrow> Wallet option \<Rightarrow> bytes \<Rightarrow> wallet_error + bytes" where
  "SignDigest lib w digest =
    (case wallet_key w of
       None \<Rightarrow> Inl W_Plain
     | Some priv \<Rightarrow>
         if length digest \<noteq> 32 then Inl W_Plain
         else sbind (lift_error W_OfRecovery (SignRecoverable lib priv digest)) (\<lambda>sr. Inr (signature_with_v sr)))"

definition recoverPublicKey :: "ethlib \<Rightarrow> bytes \<Rightarrow> bytes \<Rightarrow> wallet_error + point" where
  "recoverPublicKey lib sig digest =
    (if length sig \<noteq> 65 then Inl W_Plain
     else if length digest \<noteq> 32 then Inl W_Plain
     else (let recID = sig ! 64 - 27
           in if recID > 3 then Inl W_Plain else lift_error W_OfRecovery (RecoverPubKey lib (take 64 sig) digest recID)))"

section \<open>Decoding of fields\<close>

unbundle bit_operations_syntax

definition asBytes :: "rlp \<Rightarrow> wallet_error + bytes" where
  "asBytes v = (case v of RlpBytes b \<Rightarrow> Inr b | RlpList _ \<Rightarrow> Inl W_ErrInvalidField)"

definition asList :: "rlp \<Rightarrow> wallet_error + rlp list" where
  "asList v = (case v of RlpList l \<Rightarrow> Inr l | RlpBytes _ \<Rightarrow> Inl W_ErrInvalidField)"

definition checkIntegerField :: "bytes \<Rightarrow> wallet_error + unit" where
  "checkIntegerField b =
    (if length b > 0 \<and> b ! 0 = 0 then Inl W_ErrInvalidField
     else if length b > 32 then Inl W_ErrInvalidField
     else Inr ())"

definition asScalar :: "rlp \<Rightarrow> wallet_error + bytes" where
  "asScalar v =
    sbind (asBytes v) (\<lambda>b.
    sbind (checkIntegerField b) (\<lambda>_.
      if be_val b = 0 \<or> be_val b \<ge> secp256k1_N then Inl W_ErrInvalidField else Inr b))"

definition asUint64 :: "rlp \<Rightarrow> wallet_error + u64" where
  "asUint64 v =
    sbind (asBytes v) (\<lambda>b.
      if length b > 8 then Inl W_ErrInvalidField
      else sbind (checkIntegerField b) (\<lambda>_. Inr (foldl (\<lambda>n c. push_bit 8 n OR ucast c) 0 b)))"

definition asBigInt :: "rlp \<Rightarrow> wallet_error + int" where
  "asBigInt v = sbind (asBytes v) (\<lambda>b. sbind (checkIntegerField b) (\<lambda>_. Inr (int (be_val b))))"

definition asAddress :: "rlp \<Rightarrow> wallet_error + bytes option" where
  "asAddress v =
    sbind (asBytes v) (\<lambda>b.
      if length b = 0 then Inr None
      else if length b \<noteq> 20 then Inl W_ErrInvalidField
      else Inr (Some b))"

definition fixed_bytes_of :: "nat \<Rightarrow> rlp \<Rightarrow> wallet_error + bytes" where
  "fixed_bytes_of n v = sbind (asBytes v) (\<lambda>b. if length b \<noteq> n then Inl W_ErrInvalidField else Inr b)"

definition parse_entry :: "rlp \<Rightarrow> wallet_error + AccessListEntry" where
  "parse_entry e =
    sbind (asList e) (\<lambda>entry.
      if length entry \<noteq> 2 then Inl W_ErrInvalidField
      else sbind (fixed_bytes_of 20 (entry ! 0)) (\<lambda>addr.
           sbind (asList (entry ! 1)) (\<lambda>storageList.
           sbind (smap (fixed_bytes_of 32) storageList) (\<lambda>keys.
             Inr \<lparr>ale_Address = addr, ale_StorageKeys = keys\<rparr>))))"

definition parseAccessList :: "rlp \<Rightarrow> wallet_error + AccessListEntry list" where
  "parseAccessList v = sbind (asList v) (smap parse_entry)"

definition yParity :: "bytes \<Rightarrow> wallet_error + byte" where
  "yParity v =
    (if length v = 0 then Inr 0
     else if length v \<noteq> 1 then Inl W_ErrInvalidField
     else if v ! 0 = 0 then Inl W_ErrInvalidField
     else if v ! 0 > 1 then Inl W_ErrInvalidField
     else Inr (v ! 0))"

definition ecrecoverSender :: "ethlib \<Rightarrow> bytes \<Rightarrow> bytes \<Rightarrow> byte \<Rightarrow> bytes \<Rightarrow> wallet_error + bytes" where
  "ecrecoverSender lib r s recID digest =
    (if length r > 32 \<or> length s > 32 then Inl W_ErrInvalidField
     else (let sig = replicate (32 - length r) 0 @ r @ replicate (32 - length s) 0 @ s
           in case RecoverPubKey lib sig digest recID of
                Inl _ \<Rightarrow> Inl W_ErrRecoverFailed
              | Inr pub \<Rightarrow> (case FromPublicKey lib (Some pub) of
                  Inl _ \<Rightarrow> Inl W_ErrRecoverFailed | Inr addr \<Rightarrow> Inr addr)))"

section \<open>Decoding of transactions\<close>

record DecodedTx =
  dx_Type :: byte
  dx_ChainID :: "int option"
  dx_Nonce :: u64
  dx_GasPrice :: "int option"
  dx_MaxPriorityFeePerGas :: "int option"
  dx_MaxFeePerGas :: "int option"
  dx_GasLimit :: u64
  dx_To :: "bytes option"
  dx_Value :: "int option"
  dx_Data :: bytes
  dx_AccessList :: "AccessListEntry list"
  dx_V :: bytes
  dx_R :: bytes
  dx_S :: bytes
  dx_Sender :: bytes

definition decode_items :: "bytes \<Rightarrow> nat \<Rightarrow> wallet_error + rlp list" where
  "decode_items raw n =
    (case Decode raw of
       Inl RlpPanic \<Rightarrow> Inl W_Panic
     | Inl (RlpErr _) \<Rightarrow> Inl W_ErrDecodeFailed
     | Inr decoded \<Rightarrow> sbind (asList decoded) (\<lambda>items. if length items \<noteq> n then Inl W_ErrInvalidField else Inr items))"

definition with_sender :: "DecodedTx \<Rightarrow> wallet_error + bytes \<Rightarrow> wallet_error + DecodedTx" where
  "with_sender tx sender = sbind sender (\<lambda>a. Inr (tx\<lparr>dx_Sender := a\<rparr>))"

text \<open>The chain identifier, recovery identifier and signing hash of a legacy transaction, from its \<open>v\<close>.\<close>

definition legacy_recover :: "ethlib \<Rightarrow> DecodedTx \<Rightarrow> wallet_error + DecodedTx" where
  "legacy_recover lib tx =
    (let v = be_val (dx_V tx);
         preimage = [EncodeUint64 (dx_Nonce tx), encodeBig (dx_GasPrice tx), EncodeUint64 (dx_GasLimit tx), encodeAddr (dx_To tx),
           encodeBig (dx_Value tx), wallet_encodeBytes (dx_Data tx)]
     in if v = 27 \<or> v = 28
        then with_sender tx (ecrecoverSender lib (dx_R tx) (dx_S tx) (word_of_nat (v - 27)) (wallet_keccak256 lib (EncodeList preimage)))
        else (let chainID = Some (int ((v - 35) div 2))
              in with_sender (tx\<lparr>dx_ChainID := chainID\<rparr>)
                   (ecrecoverSender lib (dx_R tx) (dx_S tx) (word_of_nat ((v - 35) mod 2))
                     (wallet_keccak256 lib (EncodeList (preimage @ [encodeBig chainID, EncodeUint64 0, EncodeUint64 0]))))))"

definition decodeLegacy :: "ethlib \<Rightarrow> bytes \<Rightarrow> wallet_error + DecodedTx" where
  "decodeLegacy lib raw =
    sbind (decode_items raw 9) (\<lambda>items.
    sbind (asUint64 (items ! 0)) (\<lambda>nonce.
    sbind (asBigInt (items ! 1)) (\<lambda>gasPrice.
    sbind (asUint64 (items ! 2)) (\<lambda>gasLimit.
    sbind (asAddress (items ! 3)) (\<lambda>to.
    sbind (asBigInt (items ! 4)) (\<lambda>val.
    sbind (asBytes (items ! 5)) (\<lambda>data.
    sbind (asBytes (items ! 6)) (\<lambda>vBytes.
    sbind (checkIntegerField vBytes) (\<lambda>_.
    sbind (asScalar (items ! 7)) (\<lambda>rBytes.
    sbind (asScalar (items ! 8)) (\<lambda>sBytes.
      if be_val vBytes \<noteq> 27 \<and> be_val vBytes \<noteq> 28 \<and> be_val vBytes < 35 then Inl W_ErrInvalidField
      else legacy_recover lib
        \<lparr>dx_Type = 0, dx_ChainID = None, dx_Nonce = nonce, dx_GasPrice = Some gasPrice, dx_MaxPriorityFeePerGas = None,
         dx_MaxFeePerGas = None, dx_GasLimit = gasLimit, dx_To = to, dx_Value = Some val, dx_Data = data,
         dx_AccessList = [], dx_V = vBytes, dx_R = rBytes, dx_S = sBytes, dx_Sender = replicate 20 0\<rparr>)))))))))))"

text \<open>The tail of the two typed decoders: the recovery identifier is the parity, and the preimage has the type byte in front.\<close>

definition typed_recover :: "ethlib \<Rightarrow> bytes list \<Rightarrow> DecodedTx \<Rightarrow> wallet_error + DecodedTx" where
  "typed_recover lib preimage tx =
    (let digest = wallet_keccak256 lib (dx_Type tx # EncodeList preimage)
     in sbind (yParity (dx_V tx)) (\<lambda>recID. with_sender tx (ecrecoverSender lib (dx_R tx) (dx_S tx) recID digest)))"

definition decodeEIP2930 :: "ethlib \<Rightarrow> bytes \<Rightarrow> wallet_error + DecodedTx" where
  "decodeEIP2930 lib body =
    sbind (decode_items body 11) (\<lambda>items.
    sbind (asBigInt (items ! 0)) (\<lambda>chainID.
    sbind (asUint64 (items ! 1)) (\<lambda>nonce.
    sbind (asBigInt (items ! 2)) (\<lambda>gasPrice.
    sbind (asUint64 (items ! 3)) (\<lambda>gasLimit.
    sbind (asAddress (items ! 4)) (\<lambda>to.
    sbind (asBigInt (items ! 5)) (\<lambda>val.
    sbind (asBytes (items ! 6)) (\<lambda>data.
    sbind (parseAccessList (items ! 7)) (\<lambda>accessList.
    sbind (asBytes (items ! 8)) (\<lambda>vBytes.
    sbind (asScalar (items ! 9)) (\<lambda>rBytes.
    sbind (asScalar (items ! 10)) (\<lambda>sBytes.
      typed_recover lib
        [encodeBig (Some chainID), EncodeUint64 nonce, encodeBig (Some gasPrice), EncodeUint64 gasLimit, encodeAddr to,
         encodeBig (Some val), wallet_encodeBytes data, encodeAccessList accessList]
        \<lparr>dx_Type = 1, dx_ChainID = Some chainID, dx_Nonce = nonce, dx_GasPrice = Some gasPrice, dx_MaxPriorityFeePerGas = None,
         dx_MaxFeePerGas = None, dx_GasLimit = gasLimit, dx_To = to, dx_Value = Some val, dx_Data = data,
         dx_AccessList = accessList, dx_V = vBytes, dx_R = rBytes, dx_S = sBytes, dx_Sender = replicate 20 0\<rparr>))))))))))))"

definition decodeEIP1559 :: "ethlib \<Rightarrow> bytes \<Rightarrow> wallet_error + DecodedTx" where
  "decodeEIP1559 lib body =
    sbind (decode_items body 12) (\<lambda>items.
    sbind (asBigInt (items ! 0)) (\<lambda>chainID.
    sbind (asUint64 (items ! 1)) (\<lambda>nonce.
    sbind (asBigInt (items ! 2)) (\<lambda>maxPriorityFee.
    sbind (asBigInt (items ! 3)) (\<lambda>maxFee.
    sbind (asUint64 (items ! 4)) (\<lambda>gasLimit.
    sbind (asAddress (items ! 5)) (\<lambda>to.
    sbind (asBigInt (items ! 6)) (\<lambda>val.
    sbind (asBytes (items ! 7)) (\<lambda>data.
    sbind (parseAccessList (items ! 8)) (\<lambda>accessList.
    sbind (asBytes (items ! 9)) (\<lambda>vBytes.
    sbind (asScalar (items ! 10)) (\<lambda>rBytes.
    sbind (asScalar (items ! 11)) (\<lambda>sBytes.
      typed_recover lib
        [encodeBig (Some chainID), EncodeUint64 nonce, encodeBig (Some maxPriorityFee), encodeBig (Some maxFee),
         EncodeUint64 gasLimit, encodeAddr to, encodeBig (Some val), wallet_encodeBytes data, encodeAccessList accessList]
        \<lparr>dx_Type = 2, dx_ChainID = Some chainID, dx_Nonce = nonce, dx_GasPrice = None,
         dx_MaxPriorityFeePerGas = Some maxPriorityFee, dx_MaxFeePerGas = Some maxFee, dx_GasLimit = gasLimit, dx_To = to,
         dx_Value = Some val, dx_Data = data, dx_AccessList = accessList, dx_V = vBytes, dx_R = rBytes, dx_S = sBytes,
         dx_Sender = replicate 20 0\<rparr>)))))))))))))"

definition DecodeTransaction :: "ethlib \<Rightarrow> bytes \<Rightarrow> wallet_error + DecodedTx" where
  "DecodeTransaction lib raw =
    (if length raw = 0 then Inl W_ErrEmptyInput
     else if raw ! 0 \<ge> 0xc0 then decodeLegacy lib raw
     else if raw ! 0 = 0x01 then decodeEIP2930 lib (drop 1 raw)
     else if raw ! 0 = 0x02 then decodeEIP1559 lib (drop 1 raw)
     else Inl W_ErrInvalidType)"

section \<open>Validation\<close>

definition checkFieldSanity :: "DecodedTx \<Rightarrow> wallet_error + unit" where
  "checkFieldSanity d =
    (let neg = (\<lambda>n. case n of None \<Rightarrow> False | Some i \<Rightarrow> i < (0 :: int))
     in if neg (dx_Value d) then Inl W_ErrFieldSanity
        else if neg (dx_GasPrice d) then Inl W_ErrFieldSanity
        else if neg (dx_MaxPriorityFeePerGas d) then Inl W_ErrFieldSanity
        else if neg (dx_MaxFeePerGas d) then Inl W_ErrFieldSanity
        else if neg (dx_ChainID d) then Inl W_ErrFieldSanity
        else if (case dx_To d of None \<Rightarrow> False | Some a \<Rightarrow> length a \<noteq> 20) then Inl W_ErrFieldSanity
        else if length (dx_R d) = 0 \<or> length (dx_R d) > 32 then Inl W_ErrFieldSanity
        else if length (dx_S d) = 0 \<or> length (dx_S d) > 32 then Inl W_ErrFieldSanity
        else Inr ())"

definition checkChainID :: "DecodedTx \<Rightarrow> int option \<Rightarrow> wallet_error + unit" where
  "checkChainID d expected =
    (if dx_Type d = 0 \<and> (be_val (dx_V d) = 27 \<or> be_val (dx_V d) = 28) then Inr ()
     else (case dx_ChainID d of
         None \<Rightarrow> Inl W_ErrFieldSanity
       | Some c \<Rightarrow> (case expected of
           None \<Rightarrow> Inr ()
         | Some e \<Rightarrow> if c \<noteq> e then Inl W_ErrChainIDMismatch else Inr ())))"

definition checkV :: "DecodedTx \<Rightarrow> wallet_error + unit" where
  "checkV d =
    (let v = be_val (dx_V d)
     in if dx_Type d = 0 then
          (if v = 27 \<or> v = 28 then Inr () else if v < 35 then Inl W_ErrInvalidV else Inr ())
        else if dx_Type d = 1 \<or> dx_Type d = 2 then
          (if v \<noteq> 0 \<and> v \<noteq> 1 then Inl W_ErrInvalidV else Inr ())
        else Inl W_ErrInvalidType)"

definition secp256k1HalfN :: nat where
  "secp256k1HalfN = secp256k1_N div 2"

definition ValidateTransaction :: "ethlib \<Rightarrow> bytes \<Rightarrow> int option \<Rightarrow> wallet_error + unit" where
  "ValidateTransaction lib raw expectedChainID =
    (case DecodeTransaction lib raw of
       Inl e \<Rightarrow> if e = W_Panic then Inl W_Panic else if e = W_ErrInvalidType then Inl W_ErrInvalidType else Inl W_ErrInvalidRLP
     | Inr decoded \<Rightarrow>
         sbind (checkFieldSanity decoded) (\<lambda>_.
           if dx_Sender decoded = replicate 20 0 then Inl W_ErrInvalidSignature
           else sbind (checkChainID decoded expectedChainID) (\<lambda>_.
                sbind (checkV decoded) (\<lambda>_.
                  if be_val (dx_S decoded) > secp256k1HalfN then Inl W_ErrHighS else Inr ()))))"

section \<open>What each field decoder accepts\<close>

lemma asBytes_Inr: "asBytes v = Inr b \<longleftrightarrow> v = RlpBytes b"
  by (auto simp: asBytes_def split: rlp.splits)

lemma asList_Inr: "asList v = Inr l \<longleftrightarrow> v = RlpList l"
  by (auto simp: asList_def split: rlp.splits)

lemma checkIntegerField_Inr: "checkIntegerField b = Inr u \<longleftrightarrow> minimal b \<and> length b \<le> 32"
  by (cases b) (auto simp: checkIntegerField_def minimal_def)

lemma minimal_width: "minimal b \<Longrightarrow> length b \<le> k \<longleftrightarrow> be_val b < 256 ^ k"
proof
  assume "length b \<le> k"
  then have "(256 :: nat) ^ length b \<le> 256 ^ k" by (intro power_increasing) simp_all
  with be_val_bound [of b] show "be_val b < 256 ^ k" by (rule less_le_trans)
qed (rule length_minimal)

lemma minimal_uintToBytes: "minimal (uintToBytes n)"
  using uintToBytes_leading [of n] by (cases "n = 0") (auto simp: minimal_def uintToBytes_def)

lemma uintToBytes_unique: "minimal b \<Longrightarrow> length b \<le> 8 \<Longrightarrow> uintToBytes (word_of_nat (be_val b)) = b"
proof -
  assume b: "minimal b" "length b \<le> 8"
  then have "be_val b < 2 ^ 64" using minimal_width [of b 8] by simp
  then show ?thesis using b minimal_uintToBytes by (intro minimal_unique) (simp_all add: unat_of_nat)
qed

lemma asUint64_Inr: "asUint64 v = Inr n \<longleftrightarrow> v = RlpBytes (uintToBytes n)"
proof -
  have "asUint64 (RlpBytes b) = Inr n \<longleftrightarrow> b = uintToBytes n" for b
  proof -
    have "asUint64 (RlpBytes b) = Inr n \<longleftrightarrow> minimal b \<and> length b \<le> 8 \<and> word_of_nat (be_val b) = n"
      by (auto simp: asUint64_def asBytes_Inr sbind_Inr_conv checkIntegerField_Inr decodeLength_fold)
    then show ?thesis
      using uintToBytes_unique [of b] minimal_uintToBytes length_uintToBytes [of n] uintToBytes_val [of n] by auto
  qed
  then show ?thesis by (cases v) (auto simp: asUint64_def asBytes_def)
qed

lemma asBigInt_Inr: "asBigInt v = Inr i \<longleftrightarrow> v = RlpBytes (big_bytes (nat i)) \<and> 0 \<le> i \<and> i < 2 ^ 256"
proof -
  have "asBigInt (RlpBytes b) = Inr i \<longleftrightarrow> b = big_bytes (nat i) \<and> 0 \<le> i \<and> i < 2 ^ 256" for b
  proof -
    have "asBigInt (RlpBytes b) = Inr i \<longleftrightarrow> minimal b \<and> be_val b < 256 ^ 32 \<and> int (be_val b) = i"
      using minimal_width [of b 32] by (auto simp: asBigInt_def asBytes_Inr sbind_Inr_conv checkIntegerField_Inr)
    moreover have "nat i < 256 ^ 32 \<longleftrightarrow> i < 2 ^ 256" if "0 \<le> i" using that by (simp add: nat_less_iff)
    ultimately show ?thesis using big_bytes_be_val [of b] by (auto simp: minimal_big_bytes)
  qed
  then show ?thesis by (cases v) (auto simp: asBigInt_def asBytes_def)
qed

definition addr_bytes :: "bytes option \<Rightarrow> bytes" where
  "addr_bytes a = (case a of None \<Rightarrow> [] | Some b \<Rightarrow> b)"

definition wf_addr :: "bytes option \<Rightarrow> bool" where
  "wf_addr a \<longleftrightarrow> (case a of None \<Rightarrow> True | Some b \<Rightarrow> length b = 20)"

lemma asAddress_Inr: "asAddress v = Inr a \<longleftrightarrow> v = RlpBytes (addr_bytes a) \<and> wf_addr a"
  by (cases v; cases a) (auto simp: asAddress_def asBytes_def addr_bytes_def wf_addr_def)

definition wf_scalar :: "bytes \<Rightarrow> bool" where
  "wf_scalar b \<longleftrightarrow> minimal b \<and> 0 < be_val b \<and> be_val b < secp256k1_N"

lemma wf_scalar_length: "wf_scalar b \<Longrightarrow> 0 < length b \<and> length b \<le> 32"
proof -
  assume b: "wf_scalar b"
  then have "be_val b < 256 ^ 32" by (simp add: wf_scalar_def secp256k1_N_def)
  then show ?thesis using b minimal_width [of b 32] by (auto simp: wf_scalar_def)
qed

lemma asScalar_Inr: "asScalar v = Inr b \<longleftrightarrow> v = RlpBytes b \<and> wf_scalar b"
  using wf_scalar_length [of b]
  by (auto simp: asScalar_def asBytes_Inr sbind_Inr_conv checkIntegerField_Inr wf_scalar_def)

definition entry_rlp :: "AccessListEntry \<Rightarrow> rlp" where
  "entry_rlp e = RlpList [RlpBytes (ale_Address e), RlpList (map RlpBytes (ale_StorageKeys e))]"

definition wf_entry :: "AccessListEntry \<Rightarrow> bool" where
  "wf_entry e \<longleftrightarrow> length (ale_Address e) = 20 \<and> list_all (\<lambda>k. length k = 32) (ale_StorageKeys e)"

lemma fixed_bytes_of_Inr: "fixed_bytes_of n v = Inr b \<longleftrightarrow> v = RlpBytes b \<and> length b = n"
  by (auto simp: fixed_bytes_of_def sbind_Inr_conv asBytes_Inr)

lemma list_all2_graph: "list_all2 (\<lambda>x y. x = f y \<and> P y) xs ys \<longleftrightarrow> xs = map f ys \<and> list_all P ys"
  by (induction ys arbitrary: xs) (auto simp: list_all2_Cons2)

lemma parse_entry_Inr: "parse_entry v = Inr e \<longleftrightarrow> v = entry_rlp e \<and> wf_entry e"
proof
  assume "parse_entry v = Inr e"
  then show "v = entry_rlp e \<and> wf_entry e"
    by (auto simp: parse_entry_def sbind_Inr_conv asList_Inr fixed_bytes_of_Inr smap_Inr_conv list_all2_graph entry_rlp_def wf_entry_def
        length_Suc_conv numeral_2_eq_2 split: if_splits)
next
  assume "v = entry_rlp e \<and> wf_entry e"
  moreover from this have "smap (fixed_bytes_of 32) (map RlpBytes (ale_StorageKeys e)) = Inr (ale_StorageKeys e)"
    by (simp add: smap_Inr_conv fixed_bytes_of_Inr list_all2_graph wf_entry_def)
  ultimately show "parse_entry v = Inr e"
    by (simp add: parse_entry_def entry_rlp_def wf_entry_def asList_def fixed_bytes_of_def asBytes_def)
qed

lemma parseAccessList_Inr: "parseAccessList v = Inr al \<longleftrightarrow> v = RlpList (map entry_rlp al) \<and> list_all wf_entry al"
  by (auto simp: parseAccessList_def sbind_Inr_conv asList_Inr smap_Inr_conv parse_entry_Inr list_all2_graph)

lemma yParity_Inr: "yParity v = Inr p \<longleftrightarrow> p = 0 \<and> v = [] \<or> p = 1 \<and> v = [1]"
proof -
  have "x = 1" if "x \<noteq> 0" "\<not> 1 < x" for x :: byte
    using that word_less_1 [of x] by (cases x "1 :: byte" rule: linorder_cases) auto
  then show ?thesis by (cases v; cases "tl v") (auto simp: yParity_def)
qed

lemma decode_items_Inr:
  "decode_items raw n = Inr items \<longleftrightarrow>
    raw = rlp_encode (RlpList items) \<and> length items = n \<and> length raw \<le> MaxInputLen \<and> rlp_nesting (RlpList items) \<le> MaxNestingDepth"
proof -
  have "decode_items raw n = Inr items \<longleftrightarrow> Decode raw = Inr (RlpList items) \<and> length items = n"
    unfolding decode_items_def
    by (cases "Decode raw" rule: sum.exhaust) (auto simp: asList_def split: rlp_fault.splits rlp.splits)
  then show ?thesis unfolding Decode_Inr by blast
qed

lemmas field_Inr = asBytes_Inr asUint64_Inr asBigInt_Inr asAddress_Inr asScalar_Inr parseAccessList_Inr checkIntegerField_Inr

section \<open>The encoding of fields as RLP items\<close>

lemma rlp_fields:
  "EncodeUint64 n = EncodeBytes (uintToBytes n)"
  "encodeAddr a = EncodeBytes (addr_bytes a)"
  "wallet_encodeBytes b = EncodeBytes b"
  by (auto simp: EncodeUint64_def uintToBytes_def addr_bytes_def encodeAddr_def wallet_encodeBytes_def split: option.splits)

lemma rlp_access_list: "rlp_encode (RlpList (map entry_rlp al)) = encodeAccessList al"
  by (simp add: encodeAccessList_def entry_rlp_def comp_def)

lemma rlp_nesting_access_list: "rlp_nesting (RlpList (map entry_rlp al)) \<le> 3"
proof -
  have "foldr max (map (rlp_nesting \<circ> RlpBytes) bs) 0 = 0" for bs by (induction bs) simp_all
  then show ?thesis by (auto simp: foldr_max_le entry_rlp_def)
qed

section \<open>The specification of signed transactions\<close>

text \<open>The items of a transaction, its bytes, the text that is signed, and what the fields must satisfy.\<close>

definition big_item :: "int option \<Rightarrow> rlp" where
  "big_item n = RlpBytes (case n of None \<Rightarrow> [] | Some i \<Rightarrow> big_bytes (nat \<bar>i\<bar>))"

definition wf_big :: "int option \<Rightarrow> bool" where
  "wf_big n \<longleftrightarrow> (case n of None \<Rightarrow> False | Some i \<Rightarrow> 0 \<le> i \<and> i < 2 ^ 256)"

definition unsigned_items :: "DecodedTx \<Rightarrow> rlp list" where
  "unsigned_items d =
    (let call = [RlpBytes (uintToBytes (dx_GasLimit d)), RlpBytes (addr_bytes (dx_To d)), big_item (dx_Value d), RlpBytes (dx_Data d)];
         access = RlpList (map entry_rlp (dx_AccessList d)); nonce = RlpBytes (uintToBytes (dx_Nonce d))
     in if dx_Type d = 0 then [nonce, big_item (dx_GasPrice d)] @ call
        else if dx_Type d = 1 then [big_item (dx_ChainID d), nonce, big_item (dx_GasPrice d)] @ call @ [access]
        else [big_item (dx_ChainID d), nonce, big_item (dx_MaxPriorityFeePerGas d), big_item (dx_MaxFeePerGas d)] @ call @ [access])"

definition tx_items :: "DecodedTx \<Rightarrow> rlp list" where
  "tx_items d = unsigned_items d @ [RlpBytes (dx_V d), RlpBytes (dx_R d), RlpBytes (dx_S d)]"

definition tx_body :: "DecodedTx \<Rightarrow> bytes" where
  "tx_body d = rlp_encode (RlpList (tx_items d))"

definition tx_bytes :: "DecodedTx \<Rightarrow> bytes" where
  "tx_bytes d = (if dx_Type d = 0 then [] else [dx_Type d]) @ tx_body d"

definition tx_preimage :: "DecodedTx \<Rightarrow> bytes" where
  "tx_preimage d =
    (if dx_Type d = 0
     then rlp_encode (RlpList (unsigned_items d @
            (if dx_ChainID d = None then [] else [big_item (dx_ChainID d), RlpBytes [], RlpBytes []])))
     else dx_Type d # rlp_encode (RlpList (unsigned_items d)))"

definition tx_recID :: "DecodedTx \<Rightarrow> byte" where
  "tx_recID d =
    (if dx_Type d \<noteq> 0 then (if dx_V d = [] then 0 else 1)
     else if dx_ChainID d = None then word_of_nat (be_val (dx_V d) - 27)
     else word_of_nat ((be_val (dx_V d) - 35) mod 2))"

definition tx_sender :: "ethlib \<Rightarrow> DecodedTx \<Rightarrow> wallet_error + bytes" where
  "tx_sender lib d = ecrecoverSender lib (dx_R d) (dx_S d) (tx_recID d) (wallet_keccak256 lib (tx_preimage d))"

definition wf_v :: "DecodedTx \<Rightarrow> bool" where
  "wf_v d \<longleftrightarrow>
    (if dx_Type d = 0
     then minimal (dx_V d) \<and> be_val (dx_V d) < 2 ^ 256 \<and>
       (if be_val (dx_V d) = 27 \<or> be_val (dx_V d) = 28 then dx_ChainID d = None
        else 35 \<le> be_val (dx_V d) \<and> dx_ChainID d = Some (int ((be_val (dx_V d) - 35) div 2)))
     else wf_big (dx_ChainID d) \<and> (dx_V d = [] \<or> dx_V d = [1]))"

definition wf_fees :: "DecodedTx \<Rightarrow> bool" where
  "wf_fees d \<longleftrightarrow>
    (if dx_Type d = 2 then dx_GasPrice d = None \<and> wf_big (dx_MaxPriorityFeePerGas d) \<and> wf_big (dx_MaxFeePerGas d)
     else wf_big (dx_GasPrice d) \<and> dx_MaxPriorityFeePerGas d = None \<and> dx_MaxFeePerGas d = None)"

definition wf_tx :: "DecodedTx \<Rightarrow> bool" where
  "wf_tx d \<longleftrightarrow> dx_Type d \<in> {0, 1, 2} \<and> wf_fees d \<and> wf_v d \<and> wf_addr (dx_To d) \<and> wf_big (dx_Value d) \<and>
    list_all wf_entry (dx_AccessList d) \<and> (dx_Type d = 0 \<longrightarrow> dx_AccessList d = []) \<and> wf_scalar (dx_R d) \<and> wf_scalar (dx_S d)"

lemma wf_big_iff: "wf_big n \<longleftrightarrow> (\<exists>i. n = Some i \<and> 0 \<le> i \<and> i < 2 ^ 256)"
  by (cases n) (simp_all add: wf_big_def)

lemma rlp_big_item: "rlp_encode (big_item n) = encodeBig n"
  by (auto simp: big_item_def encodeBig_def big_bytes.simps [of 0] split: option.splits)

lemma asBigInt_item: "asBigInt v = Inr i \<longleftrightarrow> v = big_item (Some i) \<and> wf_big (Some i)"
  by (auto simp: asBigInt_Inr big_item_def wf_big_def)

lemmas tx_fields_Inr = asBytes_Inr asUint64_Inr asBigInt_item asAddress_Inr asScalar_Inr parseAccessList_Inr checkIntegerField_Inr

lemma with_sender_Inr: "with_sender tx r = Inr d \<longleftrightarrow> (\<exists>a. r = Inr a \<and> d = tx\<lparr>dx_Sender := a\<rparr>)"
  by (auto simp: with_sender_def sbind_Inr_conv)

text \<open>The three preimages of the decoders are the specified one.\<close>

lemmas encode_items = rlp_fields rlp_big_item rlp_access_list [unfolded rlp_encode.simps map_map]

lemma legacy_recover_eq:
  assumes "dx_Type tx = 0" and "dx_ChainID tx = None" and "be_val (dx_V tx) = 27 \<or> be_val (dx_V tx) = 28 \<or> 35 \<le> be_val (dx_V tx)"
  defines "c \<equiv> if be_val (dx_V tx) = 27 \<or> be_val (dx_V tx) = 28 then None else Some (int ((be_val (dx_V tx) - 35) div 2))"
  shows "legacy_recover lib tx = with_sender (tx\<lparr>dx_ChainID := c\<rparr>) (tx_sender lib (tx\<lparr>dx_ChainID := c\<rparr>))"
proof -
  have "uintToBytes 0 = []" by (simp add: uintToBytes_def)
  then show ?thesis
    using assms(1,2) unfolding c_def
    by (cases tx)
      (simp add: legacy_recover_def tx_sender_def tx_recID_def tx_preimage_def unsigned_items_def Let_def encode_items)
qed

lemma typed_recover_Inr:
  assumes "dx_Type tx \<noteq> 0" and "EncodeList preimage = rlp_encode (RlpList (unsigned_items tx))"
  shows "typed_recover lib preimage tx = Inr d \<longleftrightarrow>
    (dx_V tx = [] \<or> dx_V tx = [1]) \<and> with_sender tx (tx_sender lib tx) = Inr d"
  using assms
  by (auto simp: typed_recover_def sbind_Inr_conv yParity_Inr tx_sender_def tx_recID_def tx_preimage_def)

lemma nth_list:
  assumes "length xs = n" shows "xs = map ((!) xs) [0..<n]"
  using map_nth [of xs] assms by simp

lemma upt_items:
  "[0..<9] = [0, 1, 2, 3, 4, 5, 6, 7, 8]"
  "[0..<11] = [0, 1, 2, 3, 4, 5, 6, 7, 8, 9, 10]"
  "[0..<12] = [0, 1, 2, 3, 4, 5, 6, 7, 8, 9, 10, 11]"
  by code_simp+

lemma tx_items_nesting: "rlp_nesting (RlpList (tx_items d)) \<le> MaxNestingDepth"
proof -
  have "rlp_nesting v \<le> 3" if "v \<in> set (tx_items d)" for v
    using that rlp_nesting_access_list [of "dx_AccessList d"]
    by (auto simp: tx_items_def unsigned_items_def Let_def big_item_def split: if_splits)
  then show ?thesis by (fastforce simp: foldr_max_le MaxNestingDepth_def)
qed

definition decoded :: "ethlib \<Rightarrow> DecodedTx \<Rightarrow> bool" where
  "decoded lib d \<longleftrightarrow> wf_tx d \<and> length (tx_body d) \<le> MaxInputLen \<and> tx_sender lib d = Inr (dx_Sender d)"

lemma decode_items_tx:
  "length (tx_body d) \<le> MaxInputLen \<Longrightarrow> length (tx_items d) = n \<Longrightarrow> decode_items (tx_body d) n = Inr (tx_items d)"
  using tx_items_nesting [of d] by (simp add: decode_items_Inr tx_body_def)

lemma tx_sender_Sender [simp]: "tx_sender lib (tx\<lparr>dx_Sender := a\<rparr>) = tx_sender lib tx"
  by (simp add: tx_sender_def tx_recID_def tx_preimage_def unsigned_items_def Let_def)

lemma tx_body_Sender [simp]: "tx_body (tx\<lparr>dx_Sender := a\<rparr>) = tx_body tx"
  by (simp add: tx_body_def tx_items_def unsigned_items_def Let_def)

lemma wf_tx_Sender [simp]: "wf_tx (tx\<lparr>dx_Sender := a\<rparr>) = wf_tx tx"
  by (simp add: wf_tx_def wf_v_def wf_fees_def)

lemma recovered_sender:
  "with_sender tx (tx_sender lib tx) = Inr d \<Longrightarrow> d = tx\<lparr>dx_Sender := dx_Sender d\<rparr> \<and> tx_sender lib d = Inr (dx_Sender d)"
  by (auto simp: with_sender_Inr)

lemma decodeLegacy_sound: "decodeLegacy lib raw = Inr d \<Longrightarrow> dx_Type d = 0 \<and> raw = tx_body d \<and> decoded lib d"
proof -
  assume "decodeLegacy lib raw = Inr d"
  then obtain items nonce gasPrice gasLimit to val data v r s t where
    items: "raw = rlp_encode (RlpList items)" "length items = 9" "length raw \<le> MaxInputLen" and
    f: "items ! 0 = RlpBytes (uintToBytes nonce)" "items ! 1 = big_item (Some gasPrice)" "items ! 2 = RlpBytes (uintToBytes gasLimit)"
      "items ! 3 = RlpBytes (addr_bytes to)" "items ! 4 = big_item (Some val)" "items ! 5 = RlpBytes data" "items ! 6 = RlpBytes v"
      "items ! 7 = RlpBytes r" "items ! 8 = RlpBytes s" and
    wf: "wf_big (Some gasPrice)" "wf_addr to" "wf_big (Some val)" "minimal v" "length v \<le> 32" "wf_scalar r" "wf_scalar s"
      "be_val v = 27 \<or> be_val v = 28 \<or> 35 \<le> be_val v" and
    t: "t = \<lparr>dx_Type = 0, dx_ChainID = None, dx_Nonce = nonce, dx_GasPrice = Some gasPrice, dx_MaxPriorityFeePerGas = None,
         dx_MaxFeePerGas = None, dx_GasLimit = gasLimit, dx_To = to, dx_Value = Some val, dx_Data = data,
         dx_AccessList = [], dx_V = v, dx_R = r, dx_S = s, dx_Sender = replicate 20 0\<rparr>" and
    d: "legacy_recover lib t = Inr d"
    unfolding decodeLegacy_def sbind_Inr_conv tx_fields_Inr decode_items_Inr by (auto split: if_splits)
  define c where "c = (if be_val v = 27 \<or> be_val v = 28 then None else Some (int ((be_val v - 35) div 2)))"
  have "legacy_recover lib t = with_sender (t\<lparr>dx_ChainID := c\<rparr>) (tx_sender lib (t\<lparr>dx_ChainID := c\<rparr>))"
    using legacy_recover_eq [of t lib] wf(8) by (simp only: t c_def) simp
  with d have sender: "d = t\<lparr>dx_ChainID := c, dx_Sender := dx_Sender d\<rparr>" "tx_sender lib d = Inr (dx_Sender d)"
    using recovered_sender [of "t\<lparr>dx_ChainID := c\<rparr>" lib d] by simp_all
  have "items = map ((!) items) [0..<9]" using items(2) by (rule nth_list)
  also have "\<dots> = tx_items (t\<lparr>dx_ChainID := c, dx_Sender := dx_Sender d\<rparr>)"
    unfolding upt_items list.map f by (simp add: t tx_items_def unsigned_items_def)
  finally have "items = tx_items d" using sender(1) by simp
  then have "raw = tx_body d" using items(1) by (simp add: tx_body_def)
  moreover have "be_val v < 2 ^ 256" using wf(4,5) minimal_width [of v 32] by simp
  then have "wf_tx (t\<lparr>dx_ChainID := c, dx_Sender := dx_Sender d\<rparr>)"
    using wf by (auto simp: t c_def wf_tx_def wf_v_def wf_fees_def)
  then have "wf_tx d" using sender(1) by simp
  moreover have "dx_Type d = 0" by (subst sender(1)) (simp add: t)
  ultimately show ?thesis using sender(2) items(3) by (simp add: decoded_def)
qed

lemma typed_sound:
  assumes "dx_Type t \<noteq> 0" and "EncodeList preimage = rlp_encode (RlpList (unsigned_items t))"
    and "typed_recover lib preimage t = Inr d" and "length (tx_body t) \<le> MaxInputLen"
    and "dx_V t = [] \<or> dx_V t = [1] \<Longrightarrow> wf_tx t"
  shows "dx_Type d = dx_Type t \<and> tx_body t = tx_body d \<and> decoded lib d"
proof -
  have v: "dx_V t = [] \<or> dx_V t = [1]" and "with_sender t (tx_sender lib t) = Inr d"
    using typed_recover_Inr [OF assms(1,2)] assms(3) by blast+
  then obtain a where d: "tx_sender lib t = Inr a" "d = t\<lparr>dx_Sender := a\<rparr>" by (auto simp: with_sender_Inr)
  moreover have "wf_tx t" using assms(5) v by blast
  ultimately show ?thesis
    using assms(4)
    by (simp add: decoded_def)
qed

lemma decodeEIP2930_sound: "decodeEIP2930 lib raw = Inr d \<Longrightarrow> dx_Type d = 1 \<and> raw = tx_body d \<and> decoded lib d"
proof -
  assume "decodeEIP2930 lib raw = Inr d"
  then obtain items chainID nonce gasPrice gasLimit to val data al v r s t preimage where
    items: "raw = rlp_encode (RlpList items)" "length items = 11" "length raw \<le> MaxInputLen" and
    f: "items ! 0 = big_item (Some chainID)" "items ! 1 = RlpBytes (uintToBytes nonce)" "items ! 2 = big_item (Some gasPrice)"
      "items ! 3 = RlpBytes (uintToBytes gasLimit)" "items ! 4 = RlpBytes (addr_bytes to)" "items ! 5 = big_item (Some val)"
      "items ! 6 = RlpBytes data" "items ! 7 = RlpList (map entry_rlp al)" "items ! 8 = RlpBytes v"
      "items ! 9 = RlpBytes r" "items ! 10 = RlpBytes s" and
    wf: "wf_big (Some chainID)" "wf_big (Some gasPrice)" "wf_addr to" "wf_big (Some val)" "list_all wf_entry al"
      "wf_scalar r" "wf_scalar s" and
    t: "t = \<lparr>dx_Type = 1, dx_ChainID = Some chainID, dx_Nonce = nonce, dx_GasPrice = Some gasPrice, dx_MaxPriorityFeePerGas = None,
         dx_MaxFeePerGas = None, dx_GasLimit = gasLimit, dx_To = to, dx_Value = Some val, dx_Data = data,
         dx_AccessList = al, dx_V = v, dx_R = r, dx_S = s, dx_Sender = replicate 20 0\<rparr>" and
    pre: "preimage = [encodeBig (Some chainID), EncodeUint64 nonce, encodeBig (Some gasPrice), EncodeUint64 gasLimit, encodeAddr to,
         encodeBig (Some val), wallet_encodeBytes data, encodeAccessList al]" and
    d: "typed_recover lib preimage t = Inr d"
    unfolding decodeEIP2930_def sbind_Inr_conv tx_fields_Inr decode_items_Inr by (auto split: if_splits)
  have "EncodeList preimage = rlp_encode (RlpList (unsigned_items t))"
    by (simp add: pre t unsigned_items_def encode_items)
  moreover have "items = map ((!) items) [0..<11]" using items(2) by (rule nth_list)
  then have "items = tx_items t"
    unfolding upt_items list.map f by (simp add: t tx_items_def unsigned_items_def)
  then have "raw = tx_body t" using items(1) by (simp only: tx_body_def)
  moreover have "dx_V t = [] \<or> dx_V t = [1] \<Longrightarrow> wf_tx t" using wf by (auto simp: t wf_tx_def wf_v_def wf_fees_def)
  moreover have "dx_Type t = 1" by (simp add: t)
  ultimately show ?thesis using typed_sound [OF _ _ d] items(3) by simp
qed

lemma decodeEIP1559_sound: "decodeEIP1559 lib raw = Inr d \<Longrightarrow> dx_Type d = 2 \<and> raw = tx_body d \<and> decoded lib d"
proof -
  assume "decodeEIP1559 lib raw = Inr d"
  then obtain items chainID nonce tip cap gasLimit to val data al v r s t preimage where
    items: "raw = rlp_encode (RlpList items)" "length items = 12" "length raw \<le> MaxInputLen" and
    f: "items ! 0 = big_item (Some chainID)" "items ! 1 = RlpBytes (uintToBytes nonce)" "items ! 2 = big_item (Some tip)"
      "items ! 3 = big_item (Some cap)" "items ! 4 = RlpBytes (uintToBytes gasLimit)" "items ! 5 = RlpBytes (addr_bytes to)"
      "items ! 6 = big_item (Some val)" "items ! 7 = RlpBytes data" "items ! 8 = RlpList (map entry_rlp al)" "items ! 9 = RlpBytes v"
      "items ! 10 = RlpBytes r" "items ! 11 = RlpBytes s" and
    wf: "wf_big (Some chainID)" "wf_big (Some tip)" "wf_big (Some cap)" "wf_addr to" "wf_big (Some val)" "list_all wf_entry al"
      "wf_scalar r" "wf_scalar s" and
    t: "t = \<lparr>dx_Type = 2, dx_ChainID = Some chainID, dx_Nonce = nonce, dx_GasPrice = None, dx_MaxPriorityFeePerGas = Some tip,
         dx_MaxFeePerGas = Some cap, dx_GasLimit = gasLimit, dx_To = to, dx_Value = Some val, dx_Data = data,
         dx_AccessList = al, dx_V = v, dx_R = r, dx_S = s, dx_Sender = replicate 20 0\<rparr>" and
    pre: "preimage = [encodeBig (Some chainID), EncodeUint64 nonce, encodeBig (Some tip), encodeBig (Some cap), EncodeUint64 gasLimit,
         encodeAddr to, encodeBig (Some val), wallet_encodeBytes data, encodeAccessList al]" and
    d: "typed_recover lib preimage t = Inr d"
    unfolding decodeEIP1559_def sbind_Inr_conv tx_fields_Inr decode_items_Inr by (auto split: if_splits)
  have "EncodeList preimage = rlp_encode (RlpList (unsigned_items t))"
    by (simp add: pre t unsigned_items_def encode_items)
  moreover have "items = map ((!) items) [0..<12]" using items(2) by (rule nth_list)
  then have "items = tx_items t"
    unfolding upt_items list.map f by (simp add: t tx_items_def unsigned_items_def)
  then have "raw = tx_body t" using items(1) by (simp only: tx_body_def)
  moreover have "dx_V t = [] \<or> dx_V t = [1] \<Longrightarrow> wf_tx t" using wf by (auto simp: t wf_tx_def wf_v_def wf_fees_def)
  moreover have "dx_Type t = 2" by (simp add: t)
  ultimately show ?thesis using typed_sound [OF _ _ d] items(3) by simp
qed

lemma decode_field:
  "asBytes (RlpBytes b) = Inr b"
  "asUint64 (RlpBytes (uintToBytes n)) = Inr n"
  "wf_big (Some i) \<Longrightarrow> asBigInt (big_item (Some i)) = Inr i"
  "wf_addr a \<Longrightarrow> asAddress (RlpBytes (addr_bytes a)) = Inr a"
  "wf_scalar b \<Longrightarrow> asScalar (RlpBytes b) = Inr b"
  "list_all wf_entry al \<Longrightarrow> parseAccessList (RlpList (map entry_rlp al)) = Inr al"
  "minimal b \<Longrightarrow> length b \<le> 32 \<Longrightarrow> checkIntegerField b = Inr ()"
  by (simp_all add: tx_fields_Inr)

lemma decodeLegacy_complete:
  assumes "dx_Type d = 0" and "decoded lib d"
  shows "decodeLegacy lib (tx_body d) = Inr d"
proof -
  have wf: "wf_tx d" "length (tx_body d) \<le> MaxInputLen" "tx_sender lib d = Inr (dx_Sender d)" using assms(2) by (simp_all add: decoded_def)
  obtain g val where g: "dx_GasPrice d = Some g" "wf_big (Some g)" "dx_Value d = Some val" "wf_big (Some val)"
    using wf(1) assms(1) by (auto simp: wf_tx_def wf_fees_def wf_big_iff)
  have items: "tx_items d = [RlpBytes (uintToBytes (dx_Nonce d)), big_item (Some g), RlpBytes (uintToBytes (dx_GasLimit d)),
      RlpBytes (addr_bytes (dx_To d)), big_item (Some val), RlpBytes (dx_Data d), RlpBytes (dx_V d), RlpBytes (dx_R d), RlpBytes (dx_S d)]"
    using assms(1) g by (simp add: tx_items_def unsigned_items_def)
  have v: "minimal (dx_V d)" "length (dx_V d) \<le> 32" "be_val (dx_V d) = 27 \<or> be_val (dx_V d) = 28 \<or> 35 \<le> be_val (dx_V d)"
    using wf(1) assms(1) minimal_width [of "dx_V d" 32] by (auto simp: wf_tx_def wf_v_def split: if_splits)
  define t where "t = d\<lparr>dx_ChainID := None, dx_Sender := replicate 20 0\<rparr>"
  define c where "c = (if be_val (dx_V t) = 27 \<or> be_val (dx_V t) = 28 then None else Some (int ((be_val (dx_V t) - 35) div 2)))"
  have "legacy_recover lib t = with_sender (t\<lparr>dx_ChainID := c\<rparr>) (tx_sender lib (t\<lparr>dx_ChainID := c\<rparr>))"
    unfolding c_def using v(3) assms(1) by (intro legacy_recover_eq) (simp_all add: t_def)
  moreover have "dx_ChainID d = c" using wf(1) assms(1) by (auto simp: wf_tx_def wf_v_def c_def t_def)
  then have "t\<lparr>dx_ChainID := c\<rparr> = d\<lparr>dx_Sender := replicate 20 0\<rparr>" by (simp add: t_def)
  ultimately have "legacy_recover lib t = Inr d" using wf(3) by (simp add: with_sender_def)
  moreover have "t = \<lparr>dx_Type = 0, dx_ChainID = None, dx_Nonce = dx_Nonce d, dx_GasPrice = Some g, dx_MaxPriorityFeePerGas = None,
         dx_MaxFeePerGas = None, dx_GasLimit = dx_GasLimit d, dx_To = dx_To d, dx_Value = Some val, dx_Data = dx_Data d,
         dx_AccessList = [], dx_V = dx_V d, dx_R = dx_R d, dx_S = dx_S d, dx_Sender = replicate 20 0\<rparr>"
    using wf(1) assms(1) g by (simp add: t_def wf_tx_def wf_fees_def)
  moreover have "decode_items (tx_body d) 9 = Inr (tx_items d)" using wf(2) by (rule decode_items_tx) (simp add: items)
  ultimately show ?thesis
    using wf(1) v g(2,4) by (simp add: decodeLegacy_def items decode_field wf_tx_def not_less)
qed

text \<open>What the two typed decoders build from the items is the transaction, without its sender.\<close>

lemma typed_complete:
  assumes "decoded lib d" and "dx_Type d \<noteq> 0" and "t = d\<lparr>dx_Sender := replicate 20 0\<rparr>"
    and "EncodeList preimage = rlp_encode (RlpList (unsigned_items t))"
  shows "typed_recover lib preimage t = Inr d"
proof -
  have "dx_V t = [] \<or> dx_V t = [1]" using assms(1-3) by (auto simp: decoded_def wf_tx_def wf_v_def)
  moreover have "with_sender t (tx_sender lib t) = Inr d" using assms(1,3) by (simp add: decoded_def with_sender_def)
  moreover have "dx_Type t \<noteq> 0" using assms(2,3) by simp
  ultimately show ?thesis using typed_recover_Inr [OF _ assms(4)] by blast
qed

lemma decodeEIP2930_complete:
  assumes "dx_Type d = 1" and "decoded lib d"
  shows "decodeEIP2930 lib (tx_body d) = Inr d"
proof -
  have wf: "wf_tx d" "length (tx_body d) \<le> MaxInputLen" using assms(2) by (simp_all add: decoded_def)
  obtain c g val where g: "dx_ChainID d = Some c" "wf_big (Some c)" "dx_GasPrice d = Some g" "wf_big (Some g)"
      "dx_Value d = Some val" "wf_big (Some val)"
    using wf(1) assms(1) by (auto simp: wf_tx_def wf_fees_def wf_v_def wf_big_iff)
  have items: "tx_items d = [big_item (Some c), RlpBytes (uintToBytes (dx_Nonce d)), big_item (Some g),
      RlpBytes (uintToBytes (dx_GasLimit d)), RlpBytes (addr_bytes (dx_To d)), big_item (Some val), RlpBytes (dx_Data d),
      RlpList (map entry_rlp (dx_AccessList d)), RlpBytes (dx_V d), RlpBytes (dx_R d), RlpBytes (dx_S d)]"
    using assms(1) g by (simp add: tx_items_def unsigned_items_def)
  define t where "t = d\<lparr>dx_Sender := replicate 20 0\<rparr>"
  define pre where "pre = [encodeBig (Some c), EncodeUint64 (dx_Nonce d), encodeBig (Some g), EncodeUint64 (dx_GasLimit d),
      encodeAddr (dx_To d), encodeBig (Some val), wallet_encodeBytes (dx_Data d), encodeAccessList (dx_AccessList d)]"
  have "EncodeList pre = rlp_encode (RlpList (unsigned_items t))"
    using assms(1) g by (simp add: pre_def t_def unsigned_items_def encode_items)
  then have "typed_recover lib pre t = Inr d" using assms by (intro typed_complete) (simp_all add: t_def)
  moreover have "t = \<lparr>dx_Type = 1, dx_ChainID = Some c, dx_Nonce = dx_Nonce d, dx_GasPrice = Some g, dx_MaxPriorityFeePerGas = None,
         dx_MaxFeePerGas = None, dx_GasLimit = dx_GasLimit d, dx_To = dx_To d, dx_Value = Some val, dx_Data = dx_Data d,
         dx_AccessList = dx_AccessList d, dx_V = dx_V d, dx_R = dx_R d, dx_S = dx_S d, dx_Sender = replicate 20 0\<rparr>"
    using wf(1) assms(1) g by (simp add: t_def wf_tx_def wf_fees_def)
  moreover have "decode_items (tx_body d) 11 = Inr (tx_items d)" using wf(2) by (rule decode_items_tx) (simp add: items)
  ultimately show ?thesis
    using wf(1) g by (simp add: decodeEIP2930_def items decode_field wf_tx_def pre_def)
qed

lemma decodeEIP1559_complete:
  assumes "dx_Type d = 2" and "decoded lib d"
  shows "decodeEIP1559 lib (tx_body d) = Inr d"
proof -
  have wf: "wf_tx d" "length (tx_body d) \<le> MaxInputLen" using assms(2) by (simp_all add: decoded_def)
  obtain c g h val where g: "dx_ChainID d = Some c" "wf_big (Some c)" "dx_MaxPriorityFeePerGas d = Some g" "wf_big (Some g)"
      "dx_MaxFeePerGas d = Some h" "wf_big (Some h)" "dx_Value d = Some val" "wf_big (Some val)"
    using wf(1) assms(1) by (auto simp: wf_tx_def wf_fees_def wf_v_def wf_big_iff)
  have items: "tx_items d = [big_item (Some c), RlpBytes (uintToBytes (dx_Nonce d)), big_item (Some g), big_item (Some h),
      RlpBytes (uintToBytes (dx_GasLimit d)), RlpBytes (addr_bytes (dx_To d)), big_item (Some val), RlpBytes (dx_Data d),
      RlpList (map entry_rlp (dx_AccessList d)), RlpBytes (dx_V d), RlpBytes (dx_R d), RlpBytes (dx_S d)]"
    using assms(1) g by (simp add: tx_items_def unsigned_items_def)
  define t where "t = d\<lparr>dx_Sender := replicate 20 0\<rparr>"
  define pre where "pre = [encodeBig (Some c), EncodeUint64 (dx_Nonce d), encodeBig (Some g), encodeBig (Some h),
      EncodeUint64 (dx_GasLimit d), encodeAddr (dx_To d), encodeBig (Some val), wallet_encodeBytes (dx_Data d),
      encodeAccessList (dx_AccessList d)]"
  have "EncodeList pre = rlp_encode (RlpList (unsigned_items t))"
    using assms(1) g by (simp add: pre_def t_def unsigned_items_def encode_items)
  then have "typed_recover lib pre t = Inr d" using assms by (intro typed_complete) (simp_all add: t_def)
  moreover have "t = \<lparr>dx_Type = 2, dx_ChainID = Some c, dx_Nonce = dx_Nonce d, dx_GasPrice = None, dx_MaxPriorityFeePerGas = Some g,
         dx_MaxFeePerGas = Some h, dx_GasLimit = dx_GasLimit d, dx_To = dx_To d, dx_Value = Some val, dx_Data = dx_Data d,
         dx_AccessList = dx_AccessList d, dx_V = dx_V d, dx_R = dx_R d, dx_S = dx_S d, dx_Sender = replicate 20 0\<rparr>"
    using wf(1) assms(1) g by (simp add: t_def wf_tx_def wf_fees_def)
  moreover have "decode_items (tx_body d) 12 = Inr (tx_items d)" using wf(2) by (rule decode_items_tx) (simp add: items)
  ultimately show ?thesis
    using wf(1) g by (simp add: decodeEIP1559_def items decode_field wf_tx_def pre_def)
qed

lemma EncodeList_first: "length (EncodeList xs) < 2 ^ 63 \<Longrightarrow> 0xc0 \<le> EncodeList xs ! 0"
proof -
  assume len: "length (EncodeList xs) < 2 ^ 63"
  define n where "n = sum_list (map length xs)"
  define k where "k = length (uintToBytes (word_of_nat n))"
  have "k \<le> 8" by (simp add: k_def length_uintToBytes)
  then have "unat (word_of_nat (0xf7 + k) :: byte) = 0xf7 + k" by (intro unat_of_nat_byte) simp
  moreover have "unat (word_of_nat (0xc0 + n) :: byte) = 0xc0 + n" if "n \<le> 55" using that by (intro unat_of_nat_byte) simp
  ultimately show ?thesis
    by (auto simp: EncodeList_def Let_def n_def [symmetric] k_def [symmetric] word_le_nat_alt)
qed

lemma tx_body_first: "length (tx_body d) \<le> MaxInputLen \<Longrightarrow> tx_body d \<noteq> [] \<and> 0xc0 \<le> tx_body d ! 0"
  using EncodeList_first [of "map rlp_encode (tx_items d)"] MaxInputLen_small by (simp add: tx_body_def)

lemma DecodeTransaction_Inr: "DecodeTransaction lib raw = Inr d \<longleftrightarrow> decoded lib d \<and> raw = tx_bytes d"
proof
  assume "DecodeTransaction lib raw = Inr d"
  then have "raw \<noteq> []" "raw ! 0 \<ge> 0xc0 \<and> decodeLegacy lib raw = Inr d \<or> raw ! 0 = 1 \<and> decodeEIP2930 lib (drop 1 raw) = Inr d \<or>
      raw ! 0 = 2 \<and> decodeEIP1559 lib (drop 1 raw) = Inr d"
    by (auto simp: DecodeTransaction_def split: if_splits)
  then show "decoded lib d \<and> raw = tx_bytes d"
    using decodeLegacy_sound [of lib raw d] decodeEIP2930_sound [of lib "drop 1 raw" d] decodeEIP1559_sound [of lib "drop 1 raw" d]
    by (cases raw) (auto simp: tx_bytes_def)
next
  assume d: "decoded lib d \<and> raw = tx_bytes d"
  then have "length (tx_body d) \<le> MaxInputLen" and type: "dx_Type d = 0 \<or> dx_Type d = 1 \<or> dx_Type d = 2"
    by (auto simp: decoded_def wf_tx_def)
  then have "tx_body d \<noteq> []" "0xc0 \<le> tx_body d ! 0" using tx_body_first by blast+
  moreover have "\<not> (192 :: byte) \<le> 1" "\<not> (192 :: byte) \<le> 2" by (simp_all add: word_le_nat_alt)
  ultimately show "DecodeTransaction lib raw = Inr d"
    using d type decodeLegacy_complete [of d lib] decodeEIP2930_complete [of d lib] decodeEIP1559_complete [of d lib]
    by (auto simp: DecodeTransaction_def tx_bytes_def)
qed

lemma checkFieldSanity_wf: "wf_tx d \<Longrightarrow> checkFieldSanity d = Inr ()"
  using wf_scalar_length [of "dx_R d"] wf_scalar_length [of "dx_S d"]
  by (auto simp: wf_tx_def wf_fees_def wf_v_def wf_big_def wf_addr_def checkFieldSanity_def Let_def split: option.splits if_splits)

lemma checkV_wf: "wf_tx d \<Longrightarrow> checkV d = Inr ()"
  by (auto simp: wf_tx_def wf_v_def checkV_def Let_def be_val_def split: if_splits)

lemma checkChainID_wf:
  "wf_tx d \<Longrightarrow> checkChainID d expected =
    (if dx_ChainID d \<noteq> None \<and> expected \<noteq> None \<and> dx_ChainID d \<noteq> expected then Inl W_ErrChainIDMismatch else Inr ())"
  by (auto simp: wf_tx_def wf_v_def wf_big_def checkChainID_def split: option.splits if_splits)

section \<open>Properties\<close>

text \<open>C27: \<^verbatim>\<open>DecodeTransaction\<close> accepts exactly the canonical encodings: a result is a well-formed transaction whose bytes are the
  input, of at most 10 MiB, with the sender recovered from its signature over its signing text. So two inputs never
  decode to the same transaction, and every well-formed transaction with a recoverable sender is accepted.\<close>

theorem DecodeTransaction_exact:
  "DecodeTransaction lib raw = Inr d \<longleftrightarrow>
    wf_tx d \<and> raw = tx_bytes d \<and> length (tx_body d) \<le> MaxInputLen \<and> tx_sender lib d = Inr (dx_Sender d)"
  using DecodeTransaction_Inr [of lib raw d] by (auto simp: decoded_def)

text \<open>C28: \<^verbatim>\<open>ValidateTransaction\<close> accepts exactly the canonical transactions with a sender other than zero, the expected chain when
  the transaction names one and the caller asks for one, and an \<open>s\<close> in the lower half of the group.\<close>

theorem ValidateTransaction_exact:
  "ValidateTransaction lib raw expected = Inr () \<longleftrightarrow>
    (\<exists>d. wf_tx d \<and> raw = tx_bytes d \<and> length (tx_body d) \<le> MaxInputLen \<and> tx_sender lib d = Inr (dx_Sender d) \<and>
      dx_Sender d \<noteq> replicate 20 0 \<and> (dx_ChainID d = None \<or> expected = None \<or> dx_ChainID d = expected) \<and>
      2 * be_val (dx_S d) < secp256k1_N)"
proof (cases "DecodeTransaction lib raw")
  case (Inl e)
  then have "\<not> (decoded lib d \<and> raw = tx_bytes d)" for d using DecodeTransaction_Inr [of lib raw d] by simp
  then show ?thesis using Inl by (auto simp: ValidateTransaction_def decoded_def)
next
  case (Inr d)
  then have d: "decoded lib d" "raw = tx_bytes d" by (simp_all add: DecodeTransaction_Inr)
  have only: "d' = d" if "decoded lib d'" "raw = tx_bytes d'" for d'
    using that Inr DecodeTransaction_Inr [of lib raw d'] by simp
  have "secp256k1HalfN < be_val (dx_S d) \<longleftrightarrow> \<not> 2 * be_val (dx_S d) < secp256k1_N"
    by (simp add: secp256k1HalfN_def secp256k1_N_def) presburger
  then have "ValidateTransaction lib raw expected = Inr () \<longleftrightarrow> dx_Sender d \<noteq> replicate 20 0 \<and>
      (dx_ChainID d = None \<or> expected = None \<or> dx_ChainID d = expected) \<and> 2 * be_val (dx_S d) < secp256k1_N"
    using d(1) by (simp add: ValidateTransaction_def Inr decoded_def checkFieldSanity_wf checkV_wf checkChainID_wf)
  then show ?thesis using d only unfolding decoded_def by blast
qed

text \<open>the errors of \<^verbatim>\<open>ValidateTransaction\<close>. A signature from which no key can be recovered is reported as bad RLP, and the errors
  for field sanity and for \<open>v\<close> are never returned, because the decoder has checked those fields.\<close>

theorem ValidateTransaction_errors:
  assumes "ValidateTransaction lib raw expected = Inl e"
  shows "e \<in> {W_Panic, W_ErrInvalidType, W_ErrInvalidRLP, W_ErrInvalidSignature, W_ErrChainIDMismatch, W_ErrHighS} \<and>
    (DecodeTransaction lib raw = Inl W_ErrRecoverFailed \<longrightarrow> e = W_ErrInvalidRLP)"
proof (cases "DecodeTransaction lib raw")
  case (Inr d)
  then have "wf_tx d" by (simp add: DecodeTransaction_Inr decoded_def)
  then show ?thesis
    using assms
    by (auto simp: ValidateTransaction_def Inr checkFieldSanity_wf checkV_wf checkChainID_wf split: if_splits)
qed (use assms in \<open>auto simp: ValidateTransaction_def split: if_splits\<close>)

theorem ValidateTransaction_errors_witness:
  "ValidateTransaction (demo_ethlib 1) [0x03] (Some 1) = Inl W_ErrInvalidType \<and>
   W_ErrInvalidType \<in> {W_Panic, W_ErrInvalidType, W_ErrInvalidRLP, W_ErrInvalidSignature, W_ErrChainIDMismatch, W_ErrHighS}"
proof -
  have "ValidateTransaction (demo_ethlib 1) [0x03] (Some 1) = Inl W_ErrInvalidType"
    by (simp add: ValidateTransaction_def DecodeTransaction_def)
  then show ?thesis using ValidateTransaction_errors by blast
qed

text \<open>nine bytes are enough to stop the program: a list header with eight length bytes that announce at least
  \<open>2 ^ 64 - 9\<close> bytes panics in \<^verbatim>\<open>DecodeTransaction\<close> and in \<^verbatim>\<open>ValidateTransaction\<close>.\<close>

theorem ValidateTransaction_panics:
  assumes "length ls = 8" and "2 ^ 64 - 9 \<le> be_val ls" and "9 + length t \<le> MaxInputLen"
  shows "DecodeTransaction lib (0xff # ls @ t) = Inl W_Panic \<and> ValidateTransaction lib (0xff # ls @ t) expected = Inl W_Panic"
proof -
  have "long_payload (0xff # ls @ t) 8 = Inl RlpPanic" using assms by (rule long_payload_panics)
  then have "Decode (0xff # ls @ t) = Inl RlpPanic" using assms by (simp add: Decode_def decodeItem_number MaxNestingDepth_def)
  then have "DecodeTransaction lib (0xff # ls @ t) = Inl W_Panic"
    by (simp add: DecodeTransaction_def decodeLegacy_def decode_items_def word_le_nat_alt)
  then show ?thesis by (simp add: ValidateTransaction_def)
qed

theorem ValidateTransaction_panics_witness:
  "DecodeTransaction (demo_ethlib 1) (0xff # [0xff, 0xff, 0xff, 0xff, 0xff, 0xff, 0xff, 0xff] @ []) = Inl W_Panic \<and>
   ValidateTransaction (demo_ethlib 1) (0xff # [0xff, 0xff, 0xff, 0xff, 0xff, 0xff, 0xff, 0xff] @ []) (Some 1) = Inl W_Panic"
  by (rule ValidateTransaction_panics) (simp_all add: be_val_def MaxInputLen_def)

end
