(* ===== verification/Wallet_Roundtrip.thy ===== *)
theory Wallet_Roundtrip
  imports Wallet
begin

text \<open>
  Signing against decoding: what \<^verbatim>\<open>SignTx\<close> of \<^verbatim>\<open>src/chain/wallet/sign.go\<close> produces and what \<^verbatim>\<open>DecodeTransaction\<close> of
  \<^verbatim>\<open>decode.go\<close> makes of it. The model is that of \<^verbatim>\<open>Wallet.thy\<close>; this theory states which decoded transaction a signed
  one stands for.
\<close>

section \<open>The decoded form of a signed transaction\<close>

definition big_or_zero :: "int option \<Rightarrow> int" where
  "big_or_zero n = (case n of None \<Rightarrow> 0 | Some i \<Rightarrow> i)"

definition legacy_v :: "LegacyTx \<Rightarrow> byte \<Rightarrow> nat" where
  "legacy_v t recID = 2 * nat (big_or_zero (lt_ChainID t)) + unat recID + 35"

fun signed_tx :: "Transaction \<Rightarrow> bytes \<Rightarrow> bytes \<Rightarrow> byte \<Rightarrow> bytes \<Rightarrow> DecodedTx" where
  "signed_tx (TxLegacy t) r s recID sender =
    \<lparr>dx_Type = 0, dx_ChainID = lt_ChainID t, dx_Nonce = lt_Nonce t, dx_GasPrice = Some (big_or_zero (lt_GasPrice t)),
     dx_MaxPriorityFeePerGas = None, dx_MaxFeePerGas = None, dx_GasLimit = lt_GasLimit t, dx_To = lt_To t,
     dx_Value = Some (big_or_zero (lt_Value t)), dx_Data = lt_Data t, dx_AccessList = [],
     dx_V = big_bytes (legacy_v t recID), dx_R = r, dx_S = s, dx_Sender = sender\<rparr>"
| "signed_tx (TxEIP2930 t) r s recID sender =
    \<lparr>dx_Type = 1, dx_ChainID = at_ChainID t, dx_Nonce = at_Nonce t, dx_GasPrice = Some (big_or_zero (at_GasPrice t)),
     dx_MaxPriorityFeePerGas = None, dx_MaxFeePerGas = None, dx_GasLimit = at_GasLimit t, dx_To = at_To t,
     dx_Value = Some (big_or_zero (at_Value t)), dx_Data = at_Data t, dx_AccessList = at_AccessList t,
     dx_V = big_bytes (unat recID), dx_R = r, dx_S = s, dx_Sender = sender\<rparr>"
| "signed_tx (TxEIP1559 t) r s recID sender =
    \<lparr>dx_Type = 2, dx_ChainID = ft_ChainID t, dx_Nonce = ft_Nonce t, dx_GasPrice = None,
     dx_MaxPriorityFeePerGas = Some (big_or_zero (ft_MaxPriorityFeePerGas t)),
     dx_MaxFeePerGas = Some (big_or_zero (ft_MaxFeePerGas t)), dx_GasLimit = ft_GasLimit t, dx_To = ft_To t,
     dx_Value = Some (big_or_zero (ft_Value t)), dx_Data = ft_Data t, dx_AccessList = ft_AccessList t,
     dx_V = big_bytes (unat recID), dx_R = r, dx_S = s, dx_Sender = sender\<rparr>"
| "signed_tx (TxOther k _ _) r s recID sender =
    \<lparr>dx_Type = k, dx_ChainID = None, dx_Nonce = 0, dx_GasPrice = None, dx_MaxPriorityFeePerGas = None, dx_MaxFeePerGas = None,
     dx_GasLimit = 0, dx_To = None, dx_Value = None, dx_Data = [], dx_AccessList = [],
     dx_V = [], dx_R = r, dx_S = s, dx_Sender = sender\<rparr>"

text \<open>Fields a transaction can carry: amounts of 256 bits, a positive chain identifier whose \<open>v\<close> still has 256 bits.\<close>

definition in_256 :: "int option \<Rightarrow> bool" where
  "in_256 n \<longleftrightarrow> 0 \<le> big_or_zero n \<and> big_or_zero n < 2 ^ 256"

definition wf_chain :: "int option \<Rightarrow> bool" where
  "wf_chain c \<longleftrightarrow> 0 < big_or_zero c \<and> big_or_zero c < 2 ^ 254"

fun wf_unsigned :: "Transaction \<Rightarrow> bool" where
  "wf_unsigned (TxLegacy t) \<longleftrightarrow> wf_chain (lt_ChainID t) \<and> in_256 (lt_GasPrice t) \<and> in_256 (lt_Value t) \<and> wf_addr (lt_To t)"
| "wf_unsigned (TxEIP2930 t) \<longleftrightarrow> wf_chain (at_ChainID t) \<and> in_256 (at_GasPrice t) \<and> in_256 (at_Value t) \<and> wf_addr (at_To t) \<and>
    list_all wf_entry (at_AccessList t)"
| "wf_unsigned (TxEIP1559 t) \<longleftrightarrow> wf_chain (ft_ChainID t) \<and> in_256 (ft_MaxPriorityFeePerGas t) \<and> in_256 (ft_MaxFeePerGas t) \<and>
    in_256 (ft_Value t) \<and> wf_addr (ft_To t) \<and> list_all wf_entry (ft_AccessList t)"
| "wf_unsigned (TxOther _ _ _) \<longleftrightarrow> False"

lemma wf_chain_Some: "wf_chain c \<Longrightarrow> \<exists>i. c = Some i \<and> 0 < i \<and> i < 2 ^ 254"
  by (cases c) (auto simp: wf_chain_def big_or_zero_def)

lemma wf_chain_no_chain: "wf_chain c \<Longrightarrow> \<not> no_chain c"
  by (auto simp: no_chain_def dest: wf_chain_Some)

lemma encodeBig_or_zero: "encodeBig (Some (big_or_zero n)) = encodeBig n"
  by (cases n) (simp_all add: encodeBig_def big_or_zero_def)

lemma encodeBig_nat: "encodeBig (Some (int n)) = EncodeBytes (big_bytes n)"
  by (simp add: encodeBig_def big_bytes.simps [of 0])

lemma be_val_single [simp]: "be_val [x] = unat x"
  by (simp add: be_val_Cons)

lemma in_256_wf_big: "in_256 n \<Longrightarrow> wf_big (Some (big_or_zero n))"
  by (simp add: in_256_def wf_big_def)

lemmas signed_simps = encode_items encodeBig_or_zero encodeBig_nat wf_chain_no_chain unsigned_items_def Let_def

lemma assembleV_signed:
  assumes "wf_unsigned t" and "assembleV t recID = Inr v"
  shows "tx_EncodeSigned t r s v = Inr (tx_bytes (signed_tx t r s recID a))"
proof (cases t)
  case (TxLegacy x)
  then obtain c where c: "lt_ChainID x = Some c" "0 < c" using assms(1) wf_chain_Some by force
  then have u: "nat \<bar>c * 2 + (int u + 35)\<bar> = 2 * nat c + u + 35" for u by arith
  have "v = big_bytes (nat \<bar>c * 2 + (int (unat recID) + 35)\<bar>)" using assms(2) TxLegacy c by (simp add: assembleV_def)
  also have "\<dots> = big_bytes (legacy_v x recID)" unfolding u by (simp add: legacy_v_def c big_or_zero_def)
  finally show ?thesis
    using TxLegacy assms(1) by (auto simp: Legacy_EncodeSigned_def tx_bytes_def tx_body_def tx_items_def signed_simps)
next
  case (TxEIP2930 x)
  then show ?thesis
    using assms
    by (auto simp: assembleV_def EIP2930_EncodeSigned_def tx_bytes_def tx_body_def tx_items_def signed_simps)
next
  case (TxEIP1559 x)
  then show ?thesis
    using assms
    by (auto simp: assembleV_def EIP1559_EncodeSigned_def tx_bytes_def tx_body_def tx_items_def signed_simps)
qed (use assms in simp)

lemma SigningHash_signed:
  assumes "wf_unsigned t"
  shows "tx_SigningHash lib t = Inr (wallet_keccak256 lib (tx_preimage (signed_tx t r s recID a)))"
proof -
  have "uintToBytes 0 = []" by (simp add: uintToBytes_def)
  then show ?thesis
    using assms
    by (cases t)
      (auto simp: Legacy_SigningHash_def EIP2930_SigningHash_def EIP1559_SigningHash_def tx_preimage_def signed_simps
        dest: wf_chain_Some)
qed

lemma byte_le_1: "(x :: byte) \<le> 1 \<longleftrightarrow> x = 0 \<or> x = 1"
  using word_less_1 [of x] by (cases x "1 :: byte" rule: linorder_cases) auto

lemma typed_v: "recID \<le> 1 \<Longrightarrow> big_bytes (unat (recID :: byte)) = (if recID = 0 then [] else [1])"
  by (auto simp: byte_le_1 big_bytes.simps [of "Suc 0"] big_bytes.simps [of 0])

lemma legacy_v_recID: "recID \<le> 1 \<Longrightarrow> (legacy_v t recID - 35) mod 2 = unat recID \<and> (legacy_v t recID - 35) div 2 = nat (big_or_zero (lt_ChainID t))"
  by (auto simp: byte_le_1 legacy_v_def)

lemma recID_signed: "wf_unsigned t \<Longrightarrow> recID \<le> 1 \<Longrightarrow> tx_recID (signed_tx t r s recID a) = recID"
  by (cases t) (auto simp: tx_recID_def typed_v byte_le_1 legacy_v_recID dest: wf_chain_Some)

lemma wf_tx_signed:
  assumes "wf_unsigned t" and "recID \<le> 1" and "wf_scalar r" "wf_scalar s"
  shows "wf_tx (signed_tx t r s recID a)"
proof (cases t)
  case (TxLegacy x)
  then obtain c where c: "lt_ChainID x = Some c" "0 < c" "c < 2 ^ 254" using assms(1) wf_chain_Some by force
  have "unat recID \<le> 1" using assms(2) by (auto simp: byte_le_1)
  moreover have "nat c < 2 ^ 254" using c by (simp add: nat_less_iff)
  ultimately have "legacy_v x recID < 2 ^ 256" "37 \<le> legacy_v x recID" using c by (simp_all add: legacy_v_def big_or_zero_def)
  moreover have "int ((legacy_v x recID - 35) div 2) = c"
    using legacy_v_recID [OF assms(2), of x] c by (simp add: big_or_zero_def)
  ultimately show ?thesis
    using TxLegacy assms c by (simp add: wf_tx_def wf_fees_def wf_v_def in_256_wf_big)
next
  case (TxEIP2930 x)
  then obtain c where "at_ChainID x = Some c" "0 < c" "c < 2 ^ 254" using assms(1) wf_chain_Some by force
  then show ?thesis
    using TxEIP2930 assms by (simp add: wf_tx_def wf_fees_def wf_v_def in_256_wf_big typed_v) (simp add: wf_big_def)
next
  case (TxEIP1559 x)
  then obtain c where "ft_ChainID x = Some c" "0 < c" "c < 2 ^ 254" using assms(1) wf_chain_Some by force
  then show ?thesis
    using TxEIP1559 assms by (simp add: wf_tx_def wf_fees_def wf_v_def in_256_wf_big typed_v) (simp add: wf_big_def)
qed (use assms in simp)

section \<open>Signing and recovery\<close>

text \<open>
  The documented behaviour of the compact signatures for one key: 65 bytes, a header that encodes the recovery identifier
  for a compressed key, scalars in range, and recovery of the public key from the signature and the digest.
\<close>

definition signs_recoverably :: "ethlib \<Rightarrow> nat \<Rightarrow> bool" where
  "signs_recoverably lib priv \<longleftrightarrow>
    (\<forall>h. length h = 32 \<longrightarrow>
      (let c = eth_SignCompact lib priv h True
       in length c = 65 \<and> 31 \<le> c ! 0 \<and> c ! 0 \<le> 34 \<and>
          0 < be_val (take 32 (drop 1 c)) \<and> be_val (take 32 (drop 1 c)) < secp256k1_N \<and>
          0 < be_val (drop 33 c) \<and> be_val (drop 33 c) < secp256k1_N \<and>
          eth_RecoverCompact lib c h = Some (lib_secp_PubKey lib priv, True)))"

definition address_of :: "ethlib \<Rightarrow> nat \<Rightarrow> bytes" where
  "address_of lib priv = drop 12 (eth_Keccak256 lib (drop 1 (BytesUncompressed (lib_secp_PubKey lib priv))))"

text \<open>The three parts of the signature of a digest.\<close>

definition sig_r :: "ethlib \<Rightarrow> nat \<Rightarrow> bytes \<Rightarrow> bytes" where
  "sig_r lib priv h = take 32 (drop 1 (eth_SignCompact lib priv h True))"

definition sig_s :: "ethlib \<Rightarrow> nat \<Rightarrow> bytes \<Rightarrow> bytes" where
  "sig_s lib priv h = drop 33 (eth_SignCompact lib priv h True)"

definition sig_recID :: "ethlib \<Rightarrow> nat \<Rightarrow> bytes \<Rightarrow> byte" where
  "sig_recID lib priv h = eth_SignCompact lib priv h True ! 0 - 31"

lemma header_recID: "31 \<le> x \<Longrightarrow> x \<le> 34 \<Longrightarrow> x - 31 \<le> 3 \<and> 27 + (x - 31) + 4 = (x :: byte)"
proof -
  assume x: "31 \<le> x" "x \<le> 34"
  then have "unat (x - 31) = unat x - 31" by (simp add: unat_sub)
  then show ?thesis using x by (simp add: word_le_nat_alt)
qed

lemma SignRecoverable_ok:
  assumes "signs_recoverably lib priv" and "length h = 32"
  shows "SignRecoverable lib priv h = Inr (sig_r lib priv h @ sig_s lib priv h, sig_recID lib priv h)"
    and "length (sig_r lib priv h) = 32" "length (sig_s lib priv h) = 32"
    and "eth_SignCompact lib priv h True = (27 + sig_recID lib priv h + 4) # sig_r lib priv h @ sig_s lib priv h"
    and "sig_recID lib priv h \<le> 3"
proof -
  define c where "c = eth_SignCompact lib priv h True"
  have c: "length c = 65" "31 \<le> c ! 0" "c ! 0 \<le> 34"
    using assms by (simp_all add: signs_recoverably_def Let_def c_def)
  then obtain x b where b: "c = x # b" "length b = 64" by (cases c) auto
  then have x: "x - 31 \<le> 3" "27 + (x - 31) + 4 = x" using header_recID [of x] c by auto
  have "b = take 32 b @ drop 32 b" by simp
  then show "SignRecoverable lib priv h = Inr (sig_r lib priv h @ sig_s lib priv h, sig_recID lib priv h)"
    using b x assms(2) by (simp add: SignRecoverable_def c_def [symmetric] sig_r_def sig_s_def sig_recID_def Let_def)
  show "length (sig_r lib priv h) = 32" "length (sig_s lib priv h) = 32"
    using b by (simp_all add: sig_r_def sig_s_def c_def [symmetric])
  show "eth_SignCompact lib priv h True = (27 + sig_recID lib priv h + 4) # sig_r lib priv h @ sig_s lib priv h"
    and "sig_recID lib priv h \<le> 3"
    using b x by (simp_all add: sig_r_def sig_s_def sig_recID_def c_def [symmetric])
qed

lemma ecrecoverSender_signed:
  assumes "signs_recoverably lib priv" and "length h = 32"
  shows "ecrecoverSender lib (sig_r lib priv h) (sig_s lib priv h) (sig_recID lib priv h) h = Inr (address_of lib priv)"
proof -
  note sig = SignRecoverable_ok [OF assms]
  have "eth_RecoverCompact lib (eth_SignCompact lib priv h True) h = Some (lib_secp_PubKey lib priv, True)"
    using assms by (simp add: signs_recoverably_def Let_def)
  then show ?thesis
    using sig(2,3,5) assms(2) unfolding sig(4)
    by (simp add: ecrecoverSender_def RecoverPubKey_def FromPublicKey_def Keccak256_Sum_def address_of_def not_less)
qed

text \<open>What is signed does not depend on the signature.\<close>

lemma preimage_signed: "wf_unsigned t \<Longrightarrow> tx_preimage (signed_tx t r s i a) = tx_preimage (signed_tx t [] [] 0 [])"
  by (cases t) (simp_all add: tx_preimage_def unsigned_items_def Let_def)

definition tx_digest :: "ethlib \<Rightarrow> Transaction \<Rightarrow> bytes" where
  "tx_digest lib t = (case tx_SigningHash lib t of Inl _ \<Rightarrow> [] | Inr h \<Rightarrow> h)"

lemma SignTx_signed:
  assumes law: "signs_recoverably lib priv" and hash: "\<And>m. length (eth_Keccak256 lib m) = 32" and t: "wf_unsigned t"
  defines "h \<equiv> tx_digest lib t"
  shows "SignTx lib (Some (NewWallet (Some priv))) (Some t) =
    Inr (tx_bytes (signed_tx t (sig_r lib priv h) (sig_s lib priv h) (sig_recID lib priv h) a))"
proof -
  have H: "tx_SigningHash lib t = Inr h"
    using SigningHash_signed [OF t, of lib "[]" "[]" 0 "[]"] by (simp add: h_def tx_digest_def)
  then have "length h = 32"
    using SigningHash_signed [OF t, of lib "[]" "[]" 0 "[]"] hash by (auto simp: wallet_keccak256_def Keccak256_Sum_def)
  note sig = SignRecoverable_ok [OF law this]
  obtain v where v: "assembleV t (sig_recID lib priv h) = Inr v"
    using t wf_chain_Some by (cases t) (fastforce simp: assembleV_def)+
  show ?thesis
    using assembleV_signed [OF t v, of "sig_r lib priv h" "sig_s lib priv h" a] sig(2,3) v
    by (simp add: SignTx_def wallet_key_def NewWallet_def H sig(1) lift_error_def)
qed

section \<open>Scalars with a leading zero\<close>

lemma asScalar_bad: "\<not> wf_scalar b \<Longrightarrow> asScalar (RlpBytes b) = Inl W_ErrInvalidField"
  using wf_scalar_length [of b]
  by (cases b) (auto simp: asScalar_def asBytes_def checkIntegerField_def wf_scalar_def minimal_def)

lemma asScalar_cases: "\<not> (wf_scalar r \<and> wf_scalar s) \<Longrightarrow>
    sbind (asScalar (RlpBytes r)) (\<lambda>r'. sbind (asScalar (RlpBytes s)) (f r')) = Inl W_ErrInvalidField"
  using asScalar_bad [of r] asScalar_bad [of s] by (cases "wf_scalar r") (auto simp: decode_field)

lemma legacy_v_width: "wf_chain (lt_ChainID t) \<Longrightarrow> i \<le> 3 \<Longrightarrow> length (big_bytes (legacy_v t i)) \<le> 32"
proof (rule length_big_bytes)
  assume "wf_chain (lt_ChainID t)" "i \<le> 3"
  then have "nat (big_or_zero (lt_ChainID t)) < 2 ^ 254" "unat i \<le> 3" by (simp_all add: wf_chain_def word_le_nat_alt nat_less_iff)
  then show "legacy_v t i < 256 ^ 32" by (simp add: legacy_v_def)
qed

lemma decode_bad_scalar:
  fixes t r s i a
  defines "d \<equiv> signed_tx t r s i a"
  assumes t: "wf_unsigned t" and i: "i \<le> 3" and len: "length (tx_body d) \<le> MaxInputLen" and bad: "\<not> (wf_scalar r \<and> wf_scalar s)"
  shows "DecodeTransaction lib (tx_bytes d) = Inl W_ErrInvalidField"
proof -
  have first: "tx_body d \<noteq> []" "0xc0 \<le> tx_body d ! 0" "\<not> (192 :: byte) \<le> 1" "\<not> (192 :: byte) \<le> 2"
    using tx_body_first [OF len] by (simp_all add: word_le_nat_alt)
  show ?thesis
  proof (cases t)
    case (TxLegacy x)
    then have "decode_items (tx_body d) 9 = Inr (tx_items d)"
      using len by (intro decode_items_tx) (simp_all add: d_def tx_items_def unsigned_items_def)
    then have "decodeLegacy lib (tx_body d) = Inl W_ErrInvalidField"
      using t i bad TxLegacy
      by (simp add: decodeLegacy_def d_def tx_items_def unsigned_items_def decode_field in_256_wf_big legacy_v_width asScalar_cases)
    then show ?thesis using first TxLegacy by (simp add: DecodeTransaction_def tx_bytes_def d_def)
  next
    case (TxEIP2930 x)
    then obtain c where "at_ChainID x = Some c" "wf_big (Some c)" using t wf_chain_Some by (force simp: wf_big_def)
    moreover have "decode_items (tx_body d) 11 = Inr (tx_items d)"
      using TxEIP2930 len by (intro decode_items_tx) (simp_all add: d_def tx_items_def unsigned_items_def)
    ultimately have "decodeEIP2930 lib (tx_body d) = Inl W_ErrInvalidField"
      using t bad TxEIP2930
      by (simp add: decodeEIP2930_def d_def tx_items_def unsigned_items_def decode_field in_256_wf_big asScalar_cases)
    then show ?thesis using first TxEIP2930 by (simp add: DecodeTransaction_def tx_bytes_def d_def)
  next
    case (TxEIP1559 x)
    then obtain c where "ft_ChainID x = Some c" "wf_big (Some c)" using t wf_chain_Some by (force simp: wf_big_def)
    moreover have "decode_items (tx_body d) 12 = Inr (tx_items d)"
      using TxEIP1559 len by (intro decode_items_tx) (simp_all add: d_def tx_items_def unsigned_items_def)
    ultimately have "decodeEIP1559 lib (tx_body d) = Inl W_ErrInvalidField"
      using t bad TxEIP1559
      by (simp add: decodeEIP1559_def d_def tx_items_def unsigned_items_def decode_field in_256_wf_big asScalar_cases)
    then show ?thesis using first TxEIP1559 by (simp add: DecodeTransaction_def tx_bytes_def d_def)
  qed (use t in simp)
qed

section \<open>Properties\<close>

text \<open>C29: a transaction with fields in range that the wallet signs decodes to the same fields with the wallet's own address as
  sender, when neither scalar of the signature starts with a zero byte (and the recovery identifier is 0 or 1). When \<open>r\<close> or
  \<open>s\<close> starts with a zero byte, about one signature in 128, the wallet emits it with that byte, and the decoder refuses the
  transaction it has just signed.\<close>

theorem SignTx_decodes:
  assumes "signs_recoverably lib priv" and "\<And>m. length (eth_Keccak256 lib m) = 32" and "wf_unsigned t"
    and "SignTx lib (Some (NewWallet (Some priv))) (Some t) = Inr raw" and "length raw \<le> MaxInputLen"
  defines "r \<equiv> sig_r lib priv (tx_digest lib t)" and "s \<equiv> sig_s lib priv (tx_digest lib t)"
    and "i \<equiv> sig_recID lib priv (tx_digest lib t)"
  shows "(r ! 0 \<noteq> 0 \<and> s ! 0 \<noteq> 0 \<and> i \<le> 1 \<longrightarrow> DecodeTransaction lib raw = Inr (signed_tx t r s i (address_of lib priv))) \<and>
    (r ! 0 = 0 \<or> s ! 0 = 0 \<longrightarrow> DecodeTransaction lib raw = Inl W_ErrInvalidField)"
proof -
  define d where "d = signed_tx t r s i (address_of lib priv)"
  define h where "h = tx_digest lib t"
  have raw: "raw = tx_bytes d" using SignTx_signed [OF assms(1-3)] assms(4) by (simp add: d_def r_def s_def i_def)
  have h: "h = wallet_keccak256 lib (tx_preimage d)"
    using SigningHash_signed [OF assms(3), of lib r s i "address_of lib priv"] by (simp add: h_def tx_digest_def d_def)
  then have "length h = 32" using assms(2) by (simp add: wallet_keccak256_def Keccak256_Sum_def)
  note sig = SignRecoverable_ok [OF assms(1) this] and recover = ecrecoverSender_signed [OF assms(1) this]
  have "length r = 32" "length s = 32" "i \<le> 3" using sig by (simp_all add: r_def s_def i_def h_def)
  moreover from this have "minimal r \<longleftrightarrow> r ! 0 \<noteq> 0" "minimal s \<longleftrightarrow> s ! 0 \<noteq> 0"
    by (cases r, simp, cases s, simp_all add: minimal_def)+
  moreover have "0 < be_val r \<and> be_val r < secp256k1_N \<and> 0 < be_val s \<and> be_val s < secp256k1_N"
    using assms(1) \<open>length h = 32\<close> by (simp add: signs_recoverably_def Let_def r_def s_def sig_r_def sig_s_def h_def)
  ultimately have scalar: "wf_scalar r \<longleftrightarrow> r ! 0 \<noteq> 0" "wf_scalar s \<longleftrightarrow> s ! 0 \<noteq> 0" and "i \<le> 3" by (simp_all add: wf_scalar_def)
  have len: "length (tx_body d) \<le> MaxInputLen" using assms(5) raw by (auto simp: tx_bytes_def)
  have "DecodeTransaction lib raw = Inr d" if "r ! 0 \<noteq> 0" "s ! 0 \<noteq> 0" "i \<le> 1"
  proof -
    have "wf_tx d" using that scalar assms(3) by (simp add: d_def wf_tx_signed)
    moreover have "dx_R d = r" "dx_S d = s" "dx_Sender d = address_of lib priv" using assms(3) by (cases t; simp add: d_def)+
    then have "tx_sender lib d = Inr (dx_Sender d)"
      using recover recID_signed [OF assms(3) that(3)] h by (simp add: tx_sender_def d_def r_def s_def i_def h_def)
    ultimately show ?thesis using len raw by (simp add: DecodeTransaction_Inr decoded_def)
  qed
  moreover have "DecodeTransaction lib raw = Inl W_ErrInvalidField" if "r ! 0 = 0 \<or> s ! 0 = 0"
    using decode_bad_scalar [OF assms(3) \<open>i \<le> 3\<close>] that scalar len raw by (auto simp: d_def)
  ultimately show ?thesis by (simp add: d_def)
qed

definition demo_tx :: Transaction where
  "demo_tx = TxEIP1559 \<lparr>ft_ChainID = Some 1, ft_Nonce = 7, ft_MaxPriorityFeePerGas = Some 2, ft_MaxFeePerGas = None,
    ft_GasLimit = 21000, ft_To = Some (replicate 20 3), ft_Value = Some 1000, ft_Data = [],
    ft_AccessList = [\<lparr>ale_Address = replicate 20 4, ale_StorageKeys = [replicate 32 5]\<rparr>]\<rparr>"

lemma be_val_replicate_1: "0 < k \<Longrightarrow> 0 < be_val (replicate k 1) \<and> be_val (replicate k 1) < 256 ^ k"
  using be_val_bound [of "replicate k 1"] minimal_val_0 [of "replicate k 1"] by (cases k) (auto simp: minimal_def)

lemma demo_ethlib_signs: "b \<le> 1 \<Longrightarrow> signs_recoverably (demo_ethlib b) 5"
proof -
  have "be_val (replicate 32 1) = 256 ^ 31 + be_val (replicate 31 1)"
    using be_val_Cons [of 1 "replicate 31 1"] by (simp add: replicate_Suc [of 31, symmetric, simplified])
  then show "signs_recoverably (demo_ethlib b) 5" if "b \<le> 1"
    using be_val_replicate_1 [of 31] that [unfolded byte_le_1]
    by (auto simp: signs_recoverably_def Let_def be_val_Cons secp256k1_N_def word_le_nat_alt)
qed

lemma demo_tx_wf: "wf_unsigned demo_tx"
  by (simp add: demo_tx_def wf_chain_def in_256_def big_or_zero_def wf_addr_def wf_entry_def)

lemma demo_signed_short:
  "b \<le> 1 \<Longrightarrow> length (tx_bytes (signed_tx demo_tx (b # replicate 31 1) (replicate 32 1) 0 [])) \<le> MaxInputLen"
proof -
  have "length (tx_bytes (signed_tx demo_tx (0 # replicate 31 1) (replicate 32 1) 0 [])) \<le> 300"
    "length (tx_bytes (signed_tx demo_tx (1 # replicate 31 1) (replicate 32 1) 0 [])) \<le> 300"
    by code_simp+
  then show "b \<le> 1 \<Longrightarrow> ?thesis" by (auto simp: byte_le_1 MaxInputLen_def)
qed

theorem SignTx_decodes_witness:
  "\<exists>raw raw'. SignTx (demo_ethlib 1) (Some (NewWallet (Some 5))) (Some demo_tx) = Inr raw \<and>
     (\<exists>d. DecodeTransaction (demo_ethlib 1) raw = Inr d \<and> dx_Nonce d = 7) \<and>
     SignTx (demo_ethlib 0) (Some (NewWallet (Some 5))) (Some demo_tx) = Inr raw' \<and>
     DecodeTransaction (demo_ethlib 0) raw' = Inl W_ErrInvalidField"
proof -
  have sig: "sig_r (demo_ethlib b) 5 h = b # replicate 31 1" "sig_s (demo_ethlib b) 5 h = replicate 32 1"
    "sig_recID (demo_ethlib b) 5 h = 0" for b h by (simp_all add: sig_r_def sig_s_def sig_recID_def)
  have signed: "SignTx (demo_ethlib b) (Some (NewWallet (Some 5))) (Some demo_tx) =
      Inr (tx_bytes (signed_tx demo_tx (b # replicate 31 1) (replicate 32 1) 0 []))" if "b \<le> 1" for b
    using SignTx_signed [OF demo_ethlib_signs [OF that] _ demo_tx_wf, of "[]"] by (simp add: sig)
  note use_it = SignTx_decodes [OF demo_ethlib_signs _ demo_tx_wf signed demo_signed_short, unfolded sig]
  show ?thesis using signed [of 1] signed [of 0] use_it [of 1] use_it [of 0] by (auto simp: demo_tx_def)
qed

end
