(* ===== verification/Eip712.thy ===== *)
theory Eip712
  imports Wallet_Roundtrip
begin

text \<open>
  Typed-data hashing, \<^verbatim>\<open>src/chain/eip712/eip712.go\<close>: the domain separator of five fields, the struct hash, the digest, and
  signing and recovery through the wallet. A 32-byte array is a list of 32 bytes.
\<close>

section \<open>The operations\<close>

datatype eip712_error =
    ErrInvalidDomain
  | E7_NilWallet
  | E7_Signature
  | E7_Wallet wallet_error
  | E7_Recovery recovery_error

definition eip712_keccak256 :: "ethlib \<Rightarrow> bytes \<Rightarrow> bytes" where
  "eip712_keccak256 lib data = Keccak256_Sum lib data"

definition keccak256Concat :: "ethlib \<Rightarrow> bytes list \<Rightarrow> bytes" where
  "keccak256Concat lib parts = Keccak256_Sum lib (concat parts)"

record DomainSeparator =
  ds_Name :: string
  ds_Version :: string
  ds_ChainID :: "int option"
  ds_VerifyingContract :: bytes
  ds_Salt :: bytes

definition domain_Validate :: "DomainSeparator \<Rightarrow> eip712_error + unit" where
  "domain_Validate d =
    (case ds_ChainID d of
       None \<Rightarrow> Inl ErrInvalidDomain
     | Some c \<Rightarrow>
         if c < 0 then Inl ErrInvalidDomain
         else if 2 ^ 256 \<le> \<bar>c\<bar> then Inl ErrInvalidDomain
         else Inr ())"

definition domain_type :: string where
  "domain_type = ''EIP712Domain(string name,string version,uint256 chainId,address verifyingContract,bytes32 salt)''"

definition domainTypeHash :: "ethlib \<Rightarrow> bytes" where
  "domainTypeHash lib = eip712_keccak256 lib (string_bytes domain_type)"

definition eip712_encodeUint256 :: "int option \<Rightarrow> bytes" where
  "eip712_encodeUint256 n =
    (case n of
       None \<Rightarrow> replicate 32 0
     | Some i \<Rightarrow>
         if i \<le> 0 \<or> 2 ^ 256 \<le> \<bar>i\<bar> then replicate 32 0
         else (let b = big_bytes (nat \<bar>i\<bar>) in replicate (32 - length b) 0 @ b))"

definition eip712_encodeAddress :: "bytes \<Rightarrow> bytes" where
  "eip712_encodeAddress addr = replicate 12 0 @ addr"

definition domain_Hash :: "ethlib \<Rightarrow> DomainSeparator \<Rightarrow> eip712_error + bytes" where
  "domain_Hash lib d =
    sbind (domain_Validate d) (\<lambda>_.
      let nameHash = eip712_keccak256 lib (string_bytes (ds_Name d));
          versionHash = eip712_keccak256 lib (string_bytes (ds_Version d));
          encoded = nameHash @ versionHash @ eip712_encodeUint256 (ds_ChainID d) @ eip712_encodeAddress (ds_VerifyingContract d) @ ds_Salt d
      in Inr (keccak256Concat lib [domainTypeHash lib, encoded]))"

definition HashStruct :: "ethlib \<Rightarrow> bytes \<Rightarrow> bytes \<Rightarrow> bytes" where
  "HashStruct lib typeHash encodedFields = keccak256Concat lib [typeHash, encodedFields]"

definition eip712_Digest :: "ethlib \<Rightarrow> bytes \<Rightarrow> bytes \<Rightarrow> bytes" where
  "eip712_Digest lib domainSeparator structHash = keccak256Concat lib [[0x19, 0x01], domainSeparator, structHash]"

definition eip712_Sign :: "ethlib \<Rightarrow> Wallet option \<Rightarrow> bytes \<Rightarrow> bytes \<Rightarrow> eip712_error + bytes" where
  "eip712_Sign lib w domainSeparator structHash =
    (if w = None then Inl E7_NilWallet
     else lift_error E7_Wallet (SignDigest lib w (eip712_Digest lib domainSeparator structHash)))"

definition eip712_Recover :: "ethlib \<Rightarrow> bytes \<Rightarrow> bytes \<Rightarrow> bytes \<Rightarrow> eip712_error + bytes" where
  "eip712_Recover lib sig domainSeparator structHash =
    (if length sig \<noteq> 65 then Inl E7_Signature
     else (let digest = eip712_Digest lib domainSeparator structHash; recID = sig ! 64 - 27
           in if recID > 3 then Inl E7_Signature
              else sbind (lift_error E7_Recovery (RecoverPubKey lib (take 64 sig) digest recID)) (\<lambda>pub.
                   lift_error E7_Recovery (FromPublicKey lib (Some pub)))))"

section \<open>Signing and recovery\<close>

lemma recID_27: "(i :: byte) \<le> 3 \<Longrightarrow> i + 27 - 27 = i"
  by simp

lemma RecoverPubKey_signed:
  assumes "signs_recoverably lib priv" and "length h = 32"
  shows "RecoverPubKey lib (sig_r lib priv h @ sig_s lib priv h) h (sig_recID lib priv h) = Inr (lib_secp_PubKey lib priv)"
proof -
  note sig = SignRecoverable_ok [OF assms]
  have "eth_RecoverCompact lib (eth_SignCompact lib priv h True) h = Some (lib_secp_PubKey lib priv, True)"
    using assms by (simp add: signs_recoverably_def Let_def)
  then show ?thesis
    using sig(2,3,5) assms(2) unfolding sig(4) by (simp add: RecoverPubKey_def not_less)
qed

lemma eip712_Sign_ok:
  assumes "signs_recoverably lib priv" and "\<And>m. length (eth_Keccak256 lib m) = 32"
  defines "h \<equiv> \<lambda>ds sh. eip712_Digest lib ds sh"
  shows "eip712_Sign lib (Some (NewWallet (Some priv))) ds sh =
    Inr (sig_r lib priv (h ds sh) @ sig_s lib priv (h ds sh) @ [sig_recID lib priv (h ds sh) + 27])"
proof -
  have len: "length (h ds sh) = 32" by (simp add: h_def eip712_Digest_def keccak256Concat_def Keccak256_Sum_def assms(2))
  note sig = SignRecoverable_ok [OF assms(1) len]
  show ?thesis
    using sig(2,3) len
    by (simp add: eip712_Sign_def SignDigest_def wallet_key_def NewWallet_def h_def [symmetric] sig(1) lift_error_def signature_with_v_def)
qed

lemma eip712_roundtrip:
  assumes "signs_recoverably lib priv" and "\<And>m. length (eth_Keccak256 lib m) = 32"
    and "eip712_Sign lib (Some (NewWallet (Some priv))) ds sh = Inr sig"
  shows "length sig = 65 \<and> eip712_Recover lib sig ds sh = Inr (address_of lib priv)"
proof -
  define h where "h = eip712_Digest lib ds sh"
  have len: "length h = 32" by (simp add: h_def eip712_Digest_def keccak256Concat_def Keccak256_Sum_def assms(2))
  note parts = SignRecoverable_ok [OF assms(1) len]
  have sig: "sig = (sig_r lib priv h @ sig_s lib priv h) @ [sig_recID lib priv h + 27]"
    using eip712_Sign_ok [OF assms(1,2), of ds sh] assms(3) by (simp add: h_def)
  have "length sig = 65" "sig ! 64 - 27 = sig_recID lib priv h" "take 64 sig = sig_r lib priv h @ sig_s lib priv h"
    using parts(2,3) by (simp_all add: sig nth_append)
  then show ?thesis
    using RecoverPubKey_signed [OF assms(1) len] parts(5)
    by (simp add: eip712_Recover_def h_def [symmetric] FromPublicKey_def Keccak256_Sum_def address_of_def not_less lift_error_def Let_def)
qed

section \<open>What a domain hash determines\<close>

definition keccak_collides :: "ethlib \<Rightarrow> bytes \<Rightarrow> bytes \<Rightarrow> bool" where
  "keccak_collides lib x y \<longleftrightarrow> x \<noteq> y \<and> eth_Keccak256 lib x = eth_Keccak256 lib y"

definition domain_encoding :: "ethlib \<Rightarrow> DomainSeparator \<Rightarrow> bytes" where
  "domain_encoding lib d =
    domainTypeHash lib @ eth_Keccak256 lib (string_bytes (ds_Name d)) @ eth_Keccak256 lib (string_bytes (ds_Version d)) @
    eip712_encodeUint256 (ds_ChainID d) @ eip712_encodeAddress (ds_VerifyingContract d) @ ds_Salt d"

lemma eip712_encodeUint256_val:
  assumes "0 \<le> i" and "i < 2 ^ 256"
  shows "length (eip712_encodeUint256 (Some i)) = 32 \<and> be_val (eip712_encodeUint256 (Some i)) = nat i"
proof -
  have zeros: "be_val (replicate n 0 @ b) = be_val b" for n b by (induction n) (simp_all add: be_val_Cons)
  have "nat i < 256 ^ 32" using assms by (simp add: nat_less_iff)
  then have "length (big_bytes (nat i)) \<le> 32" by (rule length_big_bytes)
  then show ?thesis
    using assms zeros [of 32 "[]"] by (auto simp: eip712_encodeUint256_def Let_def zeros)
qed

lemma domain_Hash_Inr:
  "domain_Hash lib d = Inr h \<longleftrightarrow>
    (\<exists>c. ds_ChainID d = Some c \<and> 0 \<le> c \<and> c < 2 ^ 256) \<and> h = eth_Keccak256 lib (domain_encoding lib d)"
proof -
  have "domain_Validate d = Inr () \<longleftrightarrow> (\<exists>c. ds_ChainID d = Some c \<and> 0 \<le> c \<and> c < 2 ^ 256)"
    by (auto simp: domain_Validate_def split: option.splits)
  then show ?thesis
    by (auto simp: domain_Hash_def sbind_Inr_conv keccak256Concat_def Keccak256_Sum_def eip712_keccak256_def domain_encoding_def)
qed

lemma domain_encoding_inj:
  assumes "\<And>m. length (eth_Keccak256 lib m) = 32" and "domain_encoding lib d = domain_encoding lib d'"
    and "ds_ChainID d = Some c" "0 \<le> c" "c < 2 ^ 256" and "ds_ChainID d' = Some c'" "0 \<le> c'" "c' < 2 ^ 256"
    and "length (ds_VerifyingContract d) = 20" "length (ds_VerifyingContract d') = 20"
  shows "eth_Keccak256 lib (string_bytes (ds_Name d)) = eth_Keccak256 lib (string_bytes (ds_Name d'))"
    and "eth_Keccak256 lib (string_bytes (ds_Version d)) = eth_Keccak256 lib (string_bytes (ds_Version d'))"
    and "c = c'" and "ds_VerifyingContract d = ds_VerifyingContract d'" and "ds_Salt d = ds_Salt d'"
proof -
  note val = eip712_encodeUint256_val [OF assms(4,5)] eip712_encodeUint256_val [OF assms(7,8)]
  have eqs: "eth_Keccak256 lib (string_bytes (ds_Name d)) = eth_Keccak256 lib (string_bytes (ds_Name d')) \<and>
      eth_Keccak256 lib (string_bytes (ds_Version d)) = eth_Keccak256 lib (string_bytes (ds_Version d')) \<and>
      eip712_encodeUint256 (Some c) = eip712_encodeUint256 (Some c') \<and>
      ds_VerifyingContract d = ds_VerifyingContract d' \<and> ds_Salt d = ds_Salt d'"
    using assms(1,2,3,6,9,10) val by (auto simp: domain_encoding_def eip712_encodeAddress_def)
  then have "nat c = nat c'" using val by metis
  then show "c = c'" using assms(4,7) by simp
  show "eth_Keccak256 lib (string_bytes (ds_Name d)) = eth_Keccak256 lib (string_bytes (ds_Name d'))"
    "eth_Keccak256 lib (string_bytes (ds_Version d)) = eth_Keccak256 lib (string_bytes (ds_Version d'))"
    "ds_VerifyingContract d = ds_VerifyingContract d'" "ds_Salt d = ds_Salt d'"
    using eqs by blast+
qed

section \<open>Properties\<close>

text \<open>C34: a domain hash binds every field of the domain: two domains with the same hash are equal, or their names, their versions or
  their encodings are two different strings with the same Keccak-256 hash.\<close>

theorem domain_Hash_binding:
  assumes "\<And>m. length (eth_Keccak256 lib m) = 32" and "domain_Hash lib d = Inr h" and "domain_Hash lib d' = Inr h"
    and "length (ds_VerifyingContract d) = 20" "length (ds_VerifyingContract d') = 20"
  shows "d = d' \<or> keccak_collides lib (string_bytes (ds_Name d)) (string_bytes (ds_Name d')) \<or>
    keccak_collides lib (string_bytes (ds_Version d)) (string_bytes (ds_Version d')) \<or>
    keccak_collides lib (domain_encoding lib d) (domain_encoding lib d')"
proof (cases "domain_encoding lib d = domain_encoding lib d'")
  case False
  then show ?thesis using assms(2,3) by (simp add: domain_Hash_Inr keccak_collides_def)
next
  case True
  obtain c c' where c: "ds_ChainID d = Some c" "0 \<le> c" "c < 2 ^ 256" "ds_ChainID d' = Some c'" "0 \<le> c'" "c' < 2 ^ 256"
    using assms(2,3) unfolding domain_Hash_Inr by blast
  note parts = domain_encoding_inj [OF assms(1) True c assms(4,5)]
  show ?thesis
  proof (cases "ds_Name d = ds_Name d' \<and> ds_Version d = ds_Version d'")
    case True
    then show ?thesis using parts c by (cases d; cases d') simp
  next
    case False
    then show ?thesis using parts string_bytes_inj by (auto simp: keccak_collides_def)
  qed
qed

definition demo_domain :: "string \<Rightarrow> DomainSeparator" where
  "demo_domain name = \<lparr>ds_Name = name, ds_Version = ''1'', ds_ChainID = Some 1, ds_VerifyingContract = replicate 20 2, ds_Salt = replicate 32 0\<rparr>"

theorem domain_Hash_binding_witness:
  "demo_domain ''a'' = demo_domain ''b'' \<or> keccak_collides (demo_ethlib 1) (string_bytes ''a'') (string_bytes ''b'') \<or>
   keccak_collides (demo_ethlib 1) (string_bytes ''1'') (string_bytes ''1'') \<or>
   keccak_collides (demo_ethlib 1) (domain_encoding (demo_ethlib 1) (demo_domain ''a'')) (domain_encoding (demo_ethlib 1) (demo_domain ''b''))"
proof -
  have "domain_Hash (demo_ethlib 1) (demo_domain x) = Inr (replicate 32 7)" for x
    by (simp add: domain_Hash_Inr demo_domain_def)
  then show ?thesis
    using domain_Hash_binding [of "demo_ethlib 1" "demo_domain ''a''" _ "demo_domain ''b''"] by (simp add: demo_domain_def)
qed

text \<open>what a wallet signs over typed data recovers to the address of the wallet.\<close>

theorem eip712_Sign_recovers:
  assumes "signs_recoverably lib priv" and "\<And>m. length (eth_Keccak256 lib m) = 32"
    and "eip712_Sign lib (Some (NewWallet (Some priv))) ds sh = Inr sig"
  shows "length sig = 65 \<and> eip712_Recover lib sig ds sh = Inr (address_of lib priv)"
  using assms by (rule eip712_roundtrip)

theorem eip712_Sign_recovers_witness:
  "\<exists>sig. eip712_Sign (demo_ethlib 1) (Some (NewWallet (Some 5))) [] [] = Inr sig \<and> length sig = 65 \<and>
     eip712_Recover (demo_ethlib 1) sig [] [] = Inr (address_of (demo_ethlib 1) 5)"
proof -
  have law: "signs_recoverably (demo_ethlib 1) 5" by (rule demo_ethlib_signs) simp
  obtain sig where "eip712_Sign (demo_ethlib 1) (Some (NewWallet (Some 5))) [] [] = Inr sig"
    using eip712_Sign_ok [OF law] by auto
  then show ?thesis using eip712_Sign_recovers [OF law] by auto
qed

end
