(* ===== verification/Abi.thy ===== *)
theory Abi
  imports Ethereum Rlp
begin

text \<open>
  Contract ABI encoding, \<^verbatim>\<open>src/chain/abi\<close>: the type names and selectors of \<^verbatim>\<open>abi.go\<close>, the two-pass encoder of
  \<^verbatim>\<open>encode.go\<close> and the decoder of \<^verbatim>\<open>decode.go\<close>. A Go string is its bytes, a \<^verbatim>\<open>*big.Int\<close> an optional integer, and a value of
  another dynamic type than the eight the encoder knows is \<open>V_Other\<close>. Lengths that are compared with the length of a slice
  are natural numbers.
\<close>

section \<open>Types\<close>

datatype ABIType =
    ABITypeUint256
  | ABITypeAddress
  | ABITypeBytes32
  | ABITypeBool
  | ABITypeString
  | ABITypeBytes
  | ABITypeUint256Array
  | ABITypeAddressArray
  | ABITypeOther int

datatype abi_error =
    ErrUnknownABIType
  | ErrArgCountMismatch
  | ErrWrongValueType
  | ErrUint256Overflow
  | ErrShortData
  | ErrBadOffset
  | ErrBadLength
  | ErrNonZeroPadding
  | ErrBadBool

definition wordSize :: nat where
  "wordSize = 32"

definition ParseABIType :: "string \<Rightarrow> abi_error + ABIType" where
  "ParseABIType s =
    (if s = ''uint256'' then Inr ABITypeUint256
     else if s = ''address'' then Inr ABITypeAddress
     else if s = ''bytes32'' then Inr ABITypeBytes32
     else if s = ''bool'' then Inr ABITypeBool
     else if s = ''string'' then Inr ABITypeString
     else if s = ''bytes'' then Inr ABITypeBytes
     else if s = ''uint256[]'' then Inr ABITypeUint256Array
     else if s = ''address[]'' then Inr ABITypeAddressArray
     else Inl ErrUnknownABIType)"

fun ABIType_String :: "ABIType \<Rightarrow> string" where
  "ABIType_String ABITypeUint256 = ''uint256''"
| "ABIType_String ABITypeAddress = ''address''"
| "ABIType_String ABITypeBytes32 = ''bytes32''"
| "ABIType_String ABITypeBool = ''bool''"
| "ABIType_String ABITypeString = ''string''"
| "ABIType_String ABITypeBytes = ''bytes''"
| "ABIType_String ABITypeUint256Array = ''uint256[]''"
| "ABIType_String ABITypeAddressArray = ''address[]''"
| "ABIType_String (ABITypeOther n) =
    ''abi: unknown ABIType('' @ itoa n @ '')''"

fun isDynamic :: "ABIType \<Rightarrow> bool" where
  "isDynamic ABITypeString = True"
| "isDynamic ABITypeBytes = True"
| "isDynamic ABITypeUint256Array = True"
| "isDynamic ABITypeAddressArray = True"
| "isDynamic _ = False"

definition FunctionSelector :: "ethlib \<Rightarrow> string \<Rightarrow> bytes" where
  "FunctionSelector lib signature = take 4 (Keccak256_Sum lib (string_bytes signature))"

datatype abi_value =
    V_Big "int option"
  | V_Address bytes
  | V_Bytes32 bytes
  | V_Bool bool
  | V_String bytes
  | V_Bytes bytes
  | V_BigArray "int option list"
  | V_AddressArray "bytes list"
  | V_Other

section \<open>Encoding\<close>

definition maxUint256 :: int where
  "maxUint256 = 2 ^ 256 - 1"

definition encodeUint256 :: "int option \<Rightarrow> abi_error + bytes" where
  "encodeUint256 v =
    (case v of
       None \<Rightarrow> Inr (replicate 32 0)
     | Some i \<Rightarrow>
         if i < 0 \<or> i > maxUint256 then Inl ErrUint256Overflow
         else (let b = big_bytes (nat \<bar>i\<bar>)
               in if length b > wordSize then Inl ErrUint256Overflow else Inr (replicate (wordSize - length b) 0 @ b)))"

definition encodeUint256FromUint64 :: "u64 \<Rightarrow> bytes" where
  "encodeUint256FromUint64 v = replicate 24 0 @ rev (map (\<lambda>i. ucast (drop_bit (8 * i) v)) [0..<8])"

definition encodeAddress :: "bytes \<Rightarrow> bytes" where
  "encodeAddress v = replicate (wordSize - 20) 0 @ v"

definition encodeBool :: "bool \<Rightarrow> bytes" where
  "encodeBool v = replicate (wordSize - 1) 0 @ [if v then 1 else 0]"

definition paddedLen :: "nat \<Rightarrow> nat" where
  "paddedLen n =
    (if n = 0 then 0
     else (let r = n mod wordSize in if r = 0 then n else n + wordSize - r))"

definition encodeBytesPayload :: "bytes \<Rightarrow> bytes" where
  "encodeBytesPayload data =
    encodeUint256FromUint64 (word_of_nat (length data)) @ data @ replicate (paddedLen (length data) - length data) 0"

definition encodeUint256Array :: "int option list \<Rightarrow> abi_error + bytes" where
  "encodeUint256Array arr =
    sbind (smap encodeUint256 arr) (\<lambda>words. Inr (encodeUint256FromUint64 (word_of_nat (length arr)) @ concat words))"

definition encodeAddressArray :: "bytes list \<Rightarrow> bytes" where
  "encodeAddressArray arr = encodeUint256FromUint64 (word_of_nat (length arr)) @ concat (map encodeAddress arr)"

text \<open>The first pass: the head word of a static value, the tail of a dynamic one.\<close>

fun encode_arg :: "ABIType \<Rightarrow> abi_value \<Rightarrow> abi_error + (bytes \<times> bytes)" where
  "encode_arg ABITypeUint256 (V_Big v) = sbind (encodeUint256 v) (\<lambda>word. Inr (word, []))"
| "encode_arg ABITypeAddress (V_Address v) = Inr (encodeAddress v, [])"
| "encode_arg ABITypeBytes32 (V_Bytes32 v) = Inr (v, [])"
| "encode_arg ABITypeBool (V_Bool v) = Inr (encodeBool v, [])"
| "encode_arg ABITypeString (V_String v) = Inr (replicate 32 0, encodeBytesPayload v)"
| "encode_arg ABITypeBytes (V_Bytes v) = Inr (replicate 32 0, encodeBytesPayload v)"
| "encode_arg ABITypeUint256Array (V_BigArray v) = sbind (encodeUint256Array v) (\<lambda>tail. Inr (replicate 32 0, tail))"
| "encode_arg ABITypeAddressArray (V_AddressArray v) = Inr (replicate 32 0, encodeAddressArray v)"
| "encode_arg (ABITypeOther _) _ = Inl ErrUnknownABIType"
| "encode_arg _ _ = Inl ErrWrongValueType"

text \<open>The second pass writes the running offset of the tail into the head of a dynamic value.\<close>

fun assemble_heads :: "nat \<Rightarrow> ABIType list \<Rightarrow> (bytes \<times> bytes) list \<Rightarrow> bytes" where
  "assemble_heads tailOffset (t # types) ((head, tail) # encs) =
    (if isDynamic t
     then encodeUint256FromUint64 (word_of_nat tailOffset) @ assemble_heads (tailOffset + length tail) types encs
     else head @ assemble_heads tailOffset types encs)"
| "assemble_heads _ _ _ = []"

definition EncodeArgs :: "ABIType list \<Rightarrow> abi_value list \<Rightarrow> abi_error + bytes" where
  "EncodeArgs types values =
    (if length types \<noteq> length values then Inl ErrArgCountMismatch
     else sbind (smap (\<lambda>(t, v). encode_arg t v) (zip types values)) (\<lambda>encs.
       Inr (assemble_heads (length types * wordSize) types encs @ concat (map snd encs))))"

section \<open>Decoding\<close>

definition decodeUint256 :: "bytes \<Rightarrow> int option" where
  "decodeUint256 word = Some (int (be_val word))"

definition checkZeroPadding :: "bytes \<Rightarrow> abi_error + unit" where
  "checkZeroPadding b = (if list_ex (\<lambda>c. c \<noteq> 0) b then Inl ErrNonZeroPadding else Inr ())"

definition decodeAddress :: "bytes \<Rightarrow> abi_error + bytes" where
  "decodeAddress word =
    sbind (checkZeroPadding (take (wordSize - 20) word)) (\<lambda>_. Inr (drop (wordSize - 20) word))"

definition decodeBool :: "bytes \<Rightarrow> abi_error + bool" where
  "decodeBool word =
    sbind (checkZeroPadding (take (wordSize - 1) word)) (\<lambda>_.
      if word ! (wordSize - 1) = 0 then Inr False
      else if word ! (wordSize - 1) = 1 then Inr True
      else Inl ErrBadBool)"

text \<open>\<^verbatim>\<open>big.Int.IsInt64\<close> of a number that is not negative.\<close>

definition is_int64 :: "nat \<Rightarrow> bool" where
  "is_int64 n \<longleftrightarrow> n < 2 ^ 63"

definition resolveOffset :: "bytes \<Rightarrow> bytes \<Rightarrow> abi_error + bytes" where
  "resolveOffset data head =
    (let off = be_val head
     in if \<not> is_int64 off then Inl ErrBadOffset
        else if off mod wordSize \<noteq> 0 then Inl ErrBadOffset
        else if off > length data then Inl ErrBadOffset
        else Inr (drop off data))"

definition readLength :: "bytes \<Rightarrow> abi_error + (nat \<times> bytes)" where
  "readLength tail =
    (if length tail < wordSize then Inl ErrShortData
     else (let n = be_val (take wordSize tail); rest = drop wordSize tail
           in if \<not> is_int64 n then Inl ErrBadLength
              else if n > length rest then Inl ErrShortData
              else Inr (n, rest)))"

definition checkTailPadding :: "bytes \<Rightarrow> nat \<Rightarrow> abi_error + unit" where
  "checkTailPadding rest len =
    (if length rest < paddedLen len then Inl ErrShortData
     else checkZeroPadding (drop len (take (paddedLen len) rest)))"

definition abi_decodeBytes :: "bytes \<Rightarrow> bytes \<Rightarrow> abi_error + bytes" where
  "abi_decodeBytes data head =
    sbind (resolveOffset data head) (\<lambda>tail.
    sbind (readLength tail) (\<lambda>(len, rest).
    sbind (checkTailPadding rest len) (\<lambda>_. Inr (take len rest))))"

definition abi_decodeString :: "bytes \<Rightarrow> bytes \<Rightarrow> abi_error + bytes" where
  "abi_decodeString data head =
    sbind (resolveOffset data head) (\<lambda>tail.
    sbind (readLength tail) (\<lambda>(len, rest).
    sbind (checkTailPadding rest len) (\<lambda>_. Inr (take len rest))))"

text \<open>The words of an array.\<close>

definition array_words :: "bytes \<Rightarrow> nat \<Rightarrow> bytes list" where
  "array_words rest len = map (\<lambda>i. take wordSize (drop (i * wordSize) rest)) [0..<len]"

definition decodeUint256Array :: "bytes \<Rightarrow> bytes \<Rightarrow> abi_error + int option list" where
  "decodeUint256Array data head =
    sbind (resolveOffset data head) (\<lambda>tail.
    sbind (readLength tail) (\<lambda>(len, rest).
      if length rest < len * wordSize then Inl ErrShortData
      else Inr (map decodeUint256 (array_words rest len))))"

definition decodeAddressArray :: "bytes \<Rightarrow> bytes \<Rightarrow> abi_error + bytes list" where
  "decodeAddressArray data head =
    sbind (resolveOffset data head) (\<lambda>tail.
    sbind (readLength tail) (\<lambda>(len, rest).
      if length rest < len * wordSize then Inl ErrShortData
      else smap decodeAddress (array_words rest len)))"

fun decode_arg :: "bytes \<Rightarrow> ABIType \<Rightarrow> bytes \<Rightarrow> abi_error + abi_value" where
  "decode_arg data ABITypeUint256 head = Inr (V_Big (decodeUint256 head))"
| "decode_arg data ABITypeAddress head = sbind (decodeAddress head) (\<lambda>a. Inr (V_Address a))"
| "decode_arg data ABITypeBytes32 head = Inr (V_Bytes32 head)"
| "decode_arg data ABITypeBool head = sbind (decodeBool head) (\<lambda>b. Inr (V_Bool b))"
| "decode_arg data ABITypeString head = sbind (abi_decodeString data head) (\<lambda>s. Inr (V_String s))"
| "decode_arg data ABITypeBytes head = sbind (abi_decodeBytes data head) (\<lambda>b. Inr (V_Bytes b))"
| "decode_arg data ABITypeUint256Array head = sbind (decodeUint256Array data head) (\<lambda>arr. Inr (V_BigArray arr))"
| "decode_arg data ABITypeAddressArray head = sbind (decodeAddressArray data head) (\<lambda>arr. Inr (V_AddressArray arr))"
| "decode_arg data (ABITypeOther _) head = Inl ErrUnknownABIType"

definition DecodeArgs :: "ABIType list \<Rightarrow> bytes \<Rightarrow> abi_error + abi_value list" where
  "DecodeArgs types data =
    (if length data < length types * wordSize then Inl ErrShortData
     else smap (\<lambda>i. decode_arg data (types ! i) (take wordSize (drop (i * wordSize) data))) [0..<length types])"

section \<open>Words\<close>

lemma be_val_pad: "be_val (replicate n 0 @ b) = be_val b"
  by (induction n) (simp_all add: be_val_Cons)

lemma word_of_u64: "encodeUint256FromUint64 v = replicate 24 0 @ PutUint64 v"
  by (simp add: encodeUint256FromUint64_def PutUint64_def upt_rec)

lemma length_word_of_u64 [simp]: "length (encodeUint256FromUint64 v) = 32"
  by (simp add: encodeUint256FromUint64_def)

lemma be_val_word_of_u64 [simp]: "be_val (encodeUint256FromUint64 v) = unat v"
  by (simp add: word_of_u64 be_val_pad be_val_PutUint64)

lemma unat_length: "n < 2 ^ 63 \<Longrightarrow> unat (word_of_nat n :: u64) = n"
  by (simp add: unat_of_nat)

text \<open>A nil integer is zero.\<close>

definition norm_big :: "int option \<Rightarrow> int option" where
  "norm_big v = Some (case v of None \<Rightarrow> 0 | Some i \<Rightarrow> i)"

definition big_in_range :: "int option \<Rightarrow> bool" where
  "big_in_range v \<longleftrightarrow> (case v of None \<Rightarrow> True | Some i \<Rightarrow> 0 \<le> i \<and> i \<le> maxUint256)"

lemma encodeUint256_cases:
  "big_in_range v \<Longrightarrow> \<exists>w. encodeUint256 v = Inr w \<and> length w = 32 \<and> decodeUint256 w = norm_big v"
  "\<not> big_in_range v \<Longrightarrow> encodeUint256 v = Inl ErrUint256Overflow"
proof -
  show "\<not> big_in_range v \<Longrightarrow> encodeUint256 v = Inl ErrUint256Overflow"
    by (auto simp: big_in_range_def encodeUint256_def split: option.splits)
  assume v: "big_in_range v"
  show "\<exists>w. encodeUint256 v = Inr w \<and> length w = 32 \<and> decodeUint256 w = norm_big v"
  proof (cases v)
    case None
    then show ?thesis using be_val_pad [of 32 "[]"] by (simp add: encodeUint256_def decodeUint256_def norm_big_def)
  next
    case (Some i)
    then have i: "0 \<le> i" "i < 2 ^ 256" using v by (simp_all add: big_in_range_def maxUint256_def)
    then have "nat i < 256 ^ 32" by (simp add: nat_less_iff)
    then have "length (big_bytes (nat i)) \<le> 32" by (rule length_big_bytes)
    then show ?thesis
      using i Some by (simp add: encodeUint256_def decodeUint256_def norm_big_def maxUint256_def wordSize_def be_val_pad Let_def)
  qed
qed

lemma decodeAddress_encode: "length a = 20 \<Longrightarrow> decodeAddress (encodeAddress a) = Inr a"
  by (simp add: decodeAddress_def encodeAddress_def checkZeroPadding_def wordSize_def list_ex_iff)

lemma decodeBool_encode: "decodeBool (encodeBool b) = Inr b"
  by (simp add: decodeBool_def encodeBool_def checkZeroPadding_def wordSize_def list_ex_iff nth_append)

section \<open>Tails\<close>

lemma resolveOffset_word:
  assumes "n < 2 ^ 63" and "n mod 32 = 0" and "n \<le> length data"
  shows "resolveOffset data (encodeUint256FromUint64 (word_of_nat n)) = Inr (drop n data)"
  using assms by (simp add: resolveOffset_def Let_def unat_length is_int64_def wordSize_def)

lemma readLength_word:
  assumes "n < 2 ^ 63" and "n \<le> length rest"
  shows "readLength (encodeUint256FromUint64 (word_of_nat n) @ rest) = Inr (n, rest)"
  using assms by (simp add: readLength_def Let_def unat_length is_int64_def wordSize_def)

lemma paddedLen_ge: "n \<le> paddedLen n" and paddedLen_mod: "paddedLen n mod 32 = 0"
proof -
  show "n \<le> paddedLen n"
    using mod_less_divisor [of 32 n] by (auto simp: paddedLen_def wordSize_def Let_def)
  have "n + 32 - n mod 32 = 32 * (n div 32 + 1)"
    using minus_mod_eq_mult_div [of n 32] mod_less_divisor [of 32 n] by simp
  then show "paddedLen n mod 32 = 0" by (auto simp: paddedLen_def wordSize_def Let_def)
qed

lemma array_words_concat:
  "list_all (\<lambda>w. length w = 32) ws \<Longrightarrow> array_words (concat ws @ rest) (length ws) = ws"
proof (rule nth_equalityI)
  fix i assume ws: "list_all (\<lambda>w. length w = 32) ws" and "i < length (array_words (concat ws @ rest) (length ws))"
  then have i: "i < length ws" by (simp add: array_words_def)
  have "length (concat (take i ws)) = 32 * i"
    using ws i by (induction ws arbitrary: i) (auto simp: take_Cons' algebra_simps)
  moreover have "concat ws = concat (take i ws) @ ws ! i @ concat (drop (Suc i) ws)"
    using i by (metis id_take_nth_drop concat.simps(2) concat_append)
  moreover have "length (ws ! i) = 32" using ws i by (simp add: list_all_length)
  ultimately show "array_words (concat ws @ rest) (length ws) ! i = ws ! i"
    using i by (simp add: array_words_def wordSize_def mult.commute)
qed (simp add: array_words_def)

section \<open>Arguments\<close>

text \<open>The values a type takes, and the value the decoder returns for one.\<close>

definition arg_ok :: "ABIType \<Rightarrow> abi_value \<Rightarrow> bool" where
  "arg_ok t v \<longleftrightarrow>
    (case v of
       V_Big n \<Rightarrow> t = ABITypeUint256 \<and> big_in_range n
     | V_Address a \<Rightarrow> t = ABITypeAddress \<and> length a = 20
     | V_Bytes32 b \<Rightarrow> t = ABITypeBytes32 \<and> length b = 32
     | V_Bool b \<Rightarrow> t = ABITypeBool
     | V_String s \<Rightarrow> t = ABITypeString
     | V_Bytes b \<Rightarrow> t = ABITypeBytes
     | V_BigArray ns \<Rightarrow> t = ABITypeUint256Array \<and> list_all big_in_range ns
     | V_AddressArray as \<Rightarrow> t = ABITypeAddressArray \<and> list_all (\<lambda>a. length a = 20) as
     | V_Other \<Rightarrow> False)"

fun norm_value :: "abi_value \<Rightarrow> abi_value" where
  "norm_value (V_Big v) = V_Big (norm_big v)"
| "norm_value (V_BigArray vs) = V_BigArray (map norm_big vs)"
| "norm_value v = v"

text \<open>The array types of Go fix the length of an address and of a 32-byte value.\<close>

definition wf_value :: "abi_value \<Rightarrow> bool" where
  "wf_value v \<longleftrightarrow>
    (case v of V_Address a \<Rightarrow> length a = 20 | V_Bytes32 b \<Rightarrow> length b = 32 | V_AddressArray as \<Rightarrow> list_all (\<lambda>a. length a = 20) as
     | _ \<Rightarrow> True)"

lemma smap_encodeUint256:
  "list_all big_in_range ns \<Longrightarrow>
    \<exists>ws. smap encodeUint256 ns = Inr ws \<and> length ws = length ns \<and> list_all (\<lambda>w. length w = 32) ws \<and>
      map decodeUint256 ws = map norm_big ns"
  "\<not> list_all big_in_range ns \<Longrightarrow> smap encodeUint256 ns = Inl ErrUint256Overflow"
proof (induction ns)
  case (Cons n ns)
  { case 1 with Cons show ?case using encodeUint256_cases(1) [of n] by auto }
  { case 2
    show ?case
    proof (cases "big_in_range n")
      case True
      with 2 Cons show ?thesis using encodeUint256_cases(1) [of n] by auto
    qed (simp add: encodeUint256_cases(2)) }
qed simp_all

lemma encode_arg_error:
  "wf_value v \<Longrightarrow> \<not> arg_ok t v \<Longrightarrow>
    encode_arg t v \<in> Inl ` {ErrUnknownABIType, ErrWrongValueType, ErrUint256Overflow}"
  by (cases t; cases v)
    (auto simp: arg_ok_def wf_value_def encodeUint256_cases(2) encodeUint256Array_def smap_encodeUint256(2))

text \<open>What the encoder promises for one argument, and what the decoder makes of it in place.\<close>

lemma static_arg:
  assumes "arg_ok t v" and "\<not> isDynamic t"
  shows "\<exists>h. encode_arg t v = Inr (h, []) \<and> length h = 32 \<and> (\<forall>data. decode_arg data t h = Inr (norm_value v))"
proof (cases v)
  case (V_Big n)
  then show ?thesis using assms encodeUint256_cases(1) [of n] by (auto simp: arg_ok_def)
qed (use assms in \<open>auto simp: arg_ok_def decodeAddress_encode decodeBool_encode\<close>,
     simp_all add: encodeAddress_def encodeBool_def wordSize_def)

lemma dynamic_tail:
  assumes "drop off data = encodeUint256FromUint64 (word_of_nat n) @ rest" and "off mod 32 = 0" and "length data < 2 ^ 63"
    and "n \<le> length rest"
  shows "sbind (resolveOffset data (encodeUint256FromUint64 (word_of_nat off))) (\<lambda>tail. sbind (readLength tail) (\<lambda>(len, rest). f len rest)) =
    f n rest"
proof -
  have "length (drop off data) = 32 + length rest" by (simp add: assms(1))
  then have "off \<le> length data" "n < 2 ^ 63" "off < 2 ^ 63" using assms(3,4) by auto
  then show ?thesis using assms by (simp add: resolveOffset_word readLength_word)
qed

lemma dynamic_bytes:
  assumes "drop off data = encodeBytesPayload b @ rest" and "off mod 32 = 0" and "length data < 2 ^ 63"
  shows "abi_decodeBytes data (encodeUint256FromUint64 (word_of_nat off)) = Inr b"
    and "abi_decodeString data (encodeUint256FromUint64 (word_of_nat off)) = Inr b"
proof -
  define pad where "pad = replicate (paddedLen (length b) - length b) (0 :: byte)"
  have "drop off data = encodeUint256FromUint64 (word_of_nat (length b)) @ (b @ pad @ rest)"
    using assms(1) by (simp add: encodeBytesPayload_def pad_def)
  note tail = dynamic_tail [OF this assms(2,3)]
  have "checkTailPadding (b @ pad @ rest) (length b) = Inr ()"
    using paddedLen_ge [of "length b"] by (simp add: checkTailPadding_def checkZeroPadding_def pad_def list_ex_iff)
  then show "abi_decodeBytes data (encodeUint256FromUint64 (word_of_nat off)) = Inr b"
    "abi_decodeString data (encodeUint256FromUint64 (word_of_nat off)) = Inr b"
    by (simp_all add: abi_decodeBytes_def abi_decodeString_def tail)
qed

lemma length_concat_words: "list_all (\<lambda>w. length w = 32) ws \<Longrightarrow> length (concat ws) = length ws * 32"
  by (induction ws) auto

lemma dynamic_arg:
  assumes "arg_ok t v" and "isDynamic t"
  shows "\<exists>tail. encode_arg t v = Inr (replicate 32 0, tail) \<and> length tail mod 32 = 0 \<and>
    (\<forall>data off rest. drop off data = tail @ rest \<longrightarrow> off mod 32 = 0 \<longrightarrow> length data < 2 ^ 63 \<longrightarrow>
      decode_arg data t (encodeUint256FromUint64 (word_of_nat off)) = Inr (norm_value v))"
proof -
  have payload: "length (encodeBytesPayload b) mod 32 = 0" for b
  proof -
    have "length (encodeBytesPayload b) = 32 + paddedLen (length b)"
      using paddedLen_ge [of "length b"] by (simp add: encodeBytesPayload_def)
    then show ?thesis using paddedLen_mod [of "length b"] by simp
  qed
  have words: "length rest \<ge> length ws * wordSize" "array_words rest (length ws) = ws" "length ws \<le> length rest"
    if "list_all (\<lambda>w. length w = 32) ws" "rest = concat ws @ rest'" for ws rest rest'
    using that length_concat_words [of ws] array_words_concat [of ws rest'] by (simp_all add: wordSize_def)
  consider b where "v = V_String b" "t = ABITypeString" | b where "v = V_Bytes b" "t = ABITypeBytes"
    | ns where "v = V_BigArray ns" "t = ABITypeUint256Array" "list_all big_in_range ns"
    | as where "v = V_AddressArray as" "t = ABITypeAddressArray" "list_all (\<lambda>a. length a = 20) as"
    using assms by (cases v) (auto simp: arg_ok_def)
  then show ?thesis
  proof cases
    case (3 ns)
    then obtain ws where ws: "smap encodeUint256 ns = Inr ws" "length ws = length ns" "list_all (\<lambda>w. length w = 32) ws"
      "map decodeUint256 ws = map norm_big ns"
      using smap_encodeUint256(1) by blast
    have "decodeUint256Array data (encodeUint256FromUint64 (word_of_nat off)) = Inr (map norm_big ns)"
      if "drop off data = (encodeUint256FromUint64 (word_of_nat (length ns)) @ concat ws) @ rest" "off mod 32 = 0" "length data < 2 ^ 63"
      for data off rest
      unfolding decodeUint256Array_def
      by (subst dynamic_tail [of off data "length ns" "concat ws @ rest"])
        (use that words [OF ws(3) refl] ws(2,4) in \<open>simp_all add: not_less\<close>)
    then show ?thesis
      using 3 ws length_concat_words [OF ws(3)] by (auto simp: encodeUint256Array_def)
  next
    case (4 as)
    define ws where "ws = map encodeAddress as"
    have ws: "list_all (\<lambda>w. length w = 32) ws" "length ws = length as"
      using 4 by (simp_all add: ws_def list_all_iff encodeAddress_def wordSize_def)
    have "smap decodeAddress ws = Inr as"
      using 4 by (simp add: smap_Inr_conv ws_def list_all2_map1 list_all2_same list_all_iff decodeAddress_encode)
    then have "decodeAddressArray data (encodeUint256FromUint64 (word_of_nat off)) = Inr as"
      if "drop off data = (encodeUint256FromUint64 (word_of_nat (length as)) @ concat ws) @ rest" "off mod 32 = 0" "length data < 2 ^ 63"
      for data off rest
      unfolding decodeAddressArray_def
      by (subst dynamic_tail [of off data "length as" "concat ws @ rest"])
        (use that words [OF ws(1) refl] ws(2) in \<open>simp_all add: not_less\<close>)
    then show ?thesis
      using 4 ws length_concat_words [OF ws(1)] by (auto simp: encodeAddressArray_def ws_def [symmetric])
  qed (use payload dynamic_bytes in auto)
qed

section \<open>The layout of heads and tails\<close>

definition static_head :: "ABIType \<Rightarrow> bytes \<times> bytes \<Rightarrow> bool" where
  "static_head t e \<longleftrightarrow> isDynamic t \<or> length (fst e) = 32 \<and> snd e = []"

lemma length_heads: "list_all2 static_head types encs \<Longrightarrow> length (assemble_heads off types encs) = length types * 32"
proof (induction types encs arbitrary: off rule: list_all2_induct)
  case (Cons t types e encs)
  then show ?case by (cases e) (auto simp: static_head_def)
qed simp

lemma heads_nth:
  "list_all2 static_head types encs \<Longrightarrow> i < length types \<Longrightarrow>
    take 32 (drop (i * 32) (assemble_heads off types encs @ rest)) =
      (if isDynamic (types ! i) then encodeUint256FromUint64 (word_of_nat (off + length (concat (map snd (take i encs)))))
       else fst (encs ! i))"
proof (induction types encs arbitrary: off i rule: list_all2_induct)
  case (Cons t types e encs)
  obtain h tl where e: "e = (h, tl)" by (cases e)
  define w where "w = (if isDynamic t then encodeUint256FromUint64 (word_of_nat off) else h)"
  have w: "length w = 32" and tl: "\<not> isDynamic t \<Longrightarrow> tl = []" using Cons(1) by (auto simp: w_def static_head_def e)
  have heads: "assemble_heads off (t # types) (e # encs) = w @ assemble_heads (off + length tl) types encs"
    using tl by (auto simp: e w_def)
  show ?case
  proof (cases i)
    case 0
    then show ?thesis unfolding heads using w by (simp add: w_def e)
  next
    case (Suc j)
    then show ?thesis unfolding heads using w Cons(3) [of j "off + length tl"] Cons(4) by (simp add: e add.assoc)
  qed
qed simp

lemma concat_nth: "i < length xs \<Longrightarrow> concat xs = concat (take i xs) @ xs ! i @ concat (drop (Suc i) xs)"
  by (metis id_take_nth_drop concat.simps(2) concat_append)

lemma list_all2_encode:
  assumes "list_all wf_value values" and "length types = length values"
  shows "smap (\<lambda>(t, v). encode_arg t v) (zip types values) = Inr encs \<longleftrightarrow>
    list_all2 arg_ok types values \<and> list_all2 (\<lambda>(t, v) e. encode_arg t v = Inr e) (zip types values) encs"
proof -
  have "list_all2 arg_ok types values"
    if "list_all2 (\<lambda>(t, v) e. encode_arg t v = Inr e) (zip types values) encs"
    using assms(2) assms(1) that
    by (induction types "values" arbitrary: encs rule: list_induct2)
      (auto simp: list_all2_Cons1 dest: encode_arg_error)
  then show ?thesis by (auto simp: smap_Inr_conv case_prod_beta')
qed

lemma encs_props:
  assumes "list_all2 arg_ok types values" and "list_all2 (\<lambda>(t, v) e. encode_arg t v = Inr e) (zip types values) encs"
  shows "list_all2 static_head types encs" and "list_all (\<lambda>e. length (snd e) mod 32 = 0) encs"
proof -
  have one: "static_head t e \<and> length (snd e) mod 32 = 0" if "arg_ok t v" "encode_arg t v = Inr e" for t v e
    using that static_arg [of t v] dynamic_arg [of t v] by (cases "isDynamic t") (auto simp: static_head_def)
  have "list_all2 static_head types encs \<and> list_all (\<lambda>e. length (snd e) mod 32 = 0) encs"
    using assms
    by (induction types "values" arbitrary: encs rule: list_all2_induct) (auto simp: list_all2_Cons1 dest: one)
  then show "list_all2 static_head types encs" "list_all (\<lambda>e. length (snd e) mod 32 = 0) encs" by blast+
qed

lemma mod_length_concat: "list_all (\<lambda>e. length (snd e) mod 32 = 0) encs \<Longrightarrow> length (concat (map snd encs)) mod 32 = 0"
  by (induction encs) (auto simp: mod_add_eq [symmetric])

lemma decode_encoded:
  assumes ok: "list_all2 arg_ok types values"
    and enc: "list_all2 (\<lambda>(t, v) e. encode_arg t v = Inr e) (zip types values) encs"
    and data: "data = assemble_heads (length types * 32) types encs @ concat (map snd encs) @ extra" "length data < 2 ^ 63"
  shows "DecodeArgs types data = Inr (map norm_value values)"
proof -
  note props = encs_props [OF ok enc]
  have len: "length types = length values" "length encs = length types"
    using list_all2_lengthD [OF ok] list_all2_lengthD [OF enc] by simp_all
  have "decode_arg data (types ! i) (take 32 (drop (i * 32) data)) = Inr (norm_value (values ! i))" if i: "i < length types" for i
  proof -
    define off where "off = length types * 32 + length (concat (map snd (take i encs)))"
    have arg: "arg_ok (types ! i) (values ! i)" using ok i by (rule list_all2_nthD)
    have e: "encode_arg (types ! i) (values ! i) = Inr (encs ! i)"
      using list_all2_nthD [OF enc, of i] i len by simp
    have head: "take 32 (drop (i * 32) data) =
        (if isDynamic (types ! i) then encodeUint256FromUint64 (word_of_nat off) else fst (encs ! i))"
      unfolding data(1) off_def using heads_nth [OF props(1) i] by blast
    show ?thesis
    proof (cases "isDynamic (types ! i)")
      case False
      then show ?thesis using static_arg [OF arg] e head by auto
    next
      case True
      have "concat (map snd encs) = concat (map snd (take i encs)) @ snd (encs ! i) @ concat (map snd (drop (Suc i) encs))"
        using concat_nth [of i "map snd encs"] i len by (simp add: take_map drop_map)
      then have tail: "drop off data = snd (encs ! i) @ concat (map snd (drop (Suc i) encs)) @ extra"
        using length_heads [OF props(1)] by (simp add: data(1) off_def)
      have "list_all (\<lambda>e. length (snd e) mod 32 = 0) (take i encs)"
        using props(2) by (auto simp: list_all_iff dest: in_set_takeD)
      then have "off mod 32 = 0" using mod_length_concat by (simp add: off_def)
      then show ?thesis using dynamic_arg [OF arg True] e tail data(2) head True by auto
    qed
  qed
  moreover have "length types * 32 \<le> length data" using length_heads [OF props(1)] by (simp add: data(1))
  ultimately show ?thesis
    using len by (simp add: DecodeArgs_def wordSize_def not_less smap_Inr_conv list_all2_conv_all_nth)
qed

section \<open>What the decoder returns\<close>

lemma word_in_range: "length w = 32 \<Longrightarrow> big_in_range (decodeUint256 w) \<and> norm_big (decodeUint256 w) = decodeUint256 w"
proof -
  assume "length w = 32"
  then have "be_val w < 2 ^ 256" using be_val_bound [of w] by simp
  then have "int (be_val w) < 2 ^ 256" by (metis of_nat_less_iff of_nat_numeral of_nat_power)
  then show ?thesis by (simp add: decodeUint256_def big_in_range_def maxUint256_def norm_big_def)
qed

lemma decodeAddress_length: "length w = 32 \<Longrightarrow> decodeAddress w = Inr a \<Longrightarrow> length a = 20"
  by (auto simp: decodeAddress_def sbind_Inr_conv wordSize_def)

lemma array_words_length: "len * wordSize \<le> length rest \<Longrightarrow> list_all (\<lambda>w. length w = 32) (array_words rest len)"
proof -
  assume "len * wordSize \<le> length rest"
  moreover have "i * 32 + 32 \<le> len * 32" if "i < len" for i using that by linarith
  ultimately show ?thesis by (fastforce simp: array_words_def list_all_iff wordSize_def)
qed

lemma decode_arg_value:
  assumes "decode_arg data t head = Inr v" and "length head = 32"
  shows "arg_ok t v \<and> norm_value v = v \<and> wf_value v"
proof (cases t)
  case ABITypeUint256Array
  then obtain rest len where v: "v = V_BigArray (map decodeUint256 (array_words rest len))" "len * wordSize \<le> length rest"
    using assms(1) by (auto simp: decodeUint256Array_def sbind_Inr_conv split: if_splits prod.splits)
  then show ?thesis
    using array_words_length [OF v(2)] word_in_range ABITypeUint256Array
    by (auto simp: arg_ok_def wf_value_def list_all_iff)
next
  case ABITypeAddressArray
  then obtain rest len as where v: "v = V_AddressArray as" "smap decodeAddress (array_words rest len) = Inr as"
      "len * wordSize \<le> length rest"
    using assms(1) by (auto simp: decodeAddressArray_def sbind_Inr_conv split: if_splits prod.splits)
  have "list_all (\<lambda>a. length a = 20) as"
    using v(2) array_words_length [OF v(3)] decodeAddress_length
    unfolding smap_Inr_conv list_all_length list_all2_conv_all_nth by metis
  then show ?thesis using v(1) ABITypeAddressArray by (simp add: arg_ok_def wf_value_def)
qed (use assms word_in_range [of head] decodeAddress_length [of head] in \<open>auto simp: arg_ok_def wf_value_def sbind_Inr_conv\<close>)

lemma EncodeArgs_succeeds:
  assumes "list_all wf_value values"
  shows "(\<exists>data. EncodeArgs types values = Inr data) \<longleftrightarrow> list_all2 arg_ok types values"
proof (cases "length types = length values")
  case True
  have "\<exists>encs. list_all2 (\<lambda>(t, v) e. encode_arg t v = Inr e) (zip types values) encs" if "list_all2 arg_ok types values"
    using that
  proof (induction types "values" rule: list_all2_induct)
    case (Cons t types v vs)
    then obtain e encs where "encode_arg t v = Inr e" "list_all2 (\<lambda>(t, v) e. encode_arg t v = Inr e) (zip types vs) encs"
      using static_arg [of t v] dynamic_arg [of t v] by blast
    then show ?case by (intro exI [of _ "e # encs"]) simp
  qed simp
  then show ?thesis using list_all2_encode [OF assms True] True by (auto simp: EncodeArgs_def sbind_Inr_conv)
qed (auto simp: EncodeArgs_def dest: list_all2_lengthD)

lemma DecodeArgs_EncodeArgs_gen:
  assumes "EncodeArgs types values = Inr data" and "list_all wf_value values" and "length (data @ extra) < 2 ^ 63"
  shows "DecodeArgs types (data @ extra) = Inr (map norm_value values)"
proof -
  have len: "length types = length values" using assms(1) by (auto simp: EncodeArgs_def split: if_splits)
  then obtain encs where encs: "smap (\<lambda>(t, v). encode_arg t v) (zip types values) = Inr encs"
    "data = assemble_heads (length types * 32) types encs @ concat (map snd encs)"
    using assms(1) by (auto simp: EncodeArgs_def sbind_Inr_conv wordSize_def)
  show ?thesis
    using decode_encoded [of types "values" encs "data @ extra" extra] encs(1) [unfolded list_all2_encode [OF assms(2) len]] encs(2) assms(3)
    by simp
qed

section \<open>Properties\<close>

text \<open>C30: decoding inverts encoding. Whatever \<^verbatim>\<open>EncodeArgs\<close> returns, with any bytes after it, \<^verbatim>\<open>DecodeArgs\<close> gives the values back,
  a nil integer as zero; the offsets and lengths fit the 63 bits the decoder accepts.\<close>

theorem DecodeArgs_EncodeArgs:
  assumes "EncodeArgs types values = Inr data" and "list_all wf_value values" and "length (data @ extra) < 2 ^ 63"
  shows "DecodeArgs types (data @ extra) = Inr (map norm_value values)"
  using assms by (rule DecodeArgs_EncodeArgs_gen)

theorem DecodeArgs_EncodeArgs_witness:
  "DecodeArgs [ABITypeUint256, ABITypeBytes, ABITypeBool] (concat [replicate 32 0, replicate 31 0 @ [96], replicate 31 0 @ [1],
      replicate 31 0 @ [2], [7, 8], replicate 30 0] @ [9]) = Inr [V_Big (Some 0), V_Bytes [7, 8], V_Bool True]"
proof -
  have "EncodeArgs [ABITypeUint256, ABITypeBytes, ABITypeBool] [V_Big None, V_Bytes [7, 8], V_Bool True] =
      Inr (concat [replicate 32 0, replicate 31 0 @ [96], replicate 31 0 @ [1], replicate 31 0 @ [2], [7, 8], replicate 30 0])"
    by code_simp
  from DecodeArgs_EncodeArgs [OF this, of "[9]"] show ?thesis by (simp add: wf_value_def norm_big_def)
qed

text \<open>what the decoder returns is encodable. Every decoded list has one value of the right Go type and range for each
  requested type, \<^verbatim>\<open>EncodeArgs\<close> accepts it, and decoding that encoding gives the same values.\<close>

theorem DecodeArgs_reencodes:
  assumes "DecodeArgs types data = Inr vs"
  shows "list_all2 arg_ok types vs \<and>
    (\<exists>data'. EncodeArgs types vs = Inr data' \<and> (length data' < 2 ^ 63 \<longrightarrow> DecodeArgs types data' = Inr vs))"
proof -
  have long: "length types * 32 \<le> length data" and
    vs: "list_all2 (\<lambda>i v. decode_arg data (types ! i) (take 32 (drop (i * 32) data)) = Inr v) [0..<length types] vs"
    using assms by (auto simp: DecodeArgs_def wordSize_def smap_Inr_conv split: if_splits)
  then have len: "length vs = length types" by (auto dest: list_all2_lengthD)
  have "arg_ok (types ! i) (vs ! i) \<and> norm_value (vs ! i) = vs ! i \<and> wf_value (vs ! i)" if "i < length types" for i
  proof (rule decode_arg_value)
    show "decode_arg data (types ! i) (take 32 (drop (i * 32) data)) = Inr (vs ! i)"
      using list_all2_nthD [OF vs, of i] that by simp
    have "i * 32 + 32 \<le> length types * 32" using that by linarith
    then show "length (take 32 (drop (i * 32) data)) = 32" using long by simp
  qed
  then have ok: "list_all2 arg_ok types vs" "map norm_value vs = vs" "list_all wf_value vs"
    using len by (auto simp: list_all2_conv_all_nth list_all_length intro: nth_equalityI)
  then obtain data' where data': "EncodeArgs types vs = Inr data'" using EncodeArgs_succeeds by blast
  have "DecodeArgs types data' = Inr vs" if "length data' < 2 ^ 63"
    using DecodeArgs_EncodeArgs_gen [OF data' ok(3), of "[]"] that ok(2) by simp
  then show ?thesis using ok(1) data' by blast
qed

theorem DecodeArgs_reencodes_witness:
  "list_all2 arg_ok [ABITypeBool] [V_Bool True] \<and>
   (\<exists>data'. EncodeArgs [ABITypeBool] [V_Bool True] = Inr data' \<and>
     (length data' < 2 ^ 63 \<longrightarrow> DecodeArgs [ABITypeBool] data' = Inr [V_Bool True]))"
proof -
  have "DecodeArgs [ABITypeBool] (replicate 31 0 @ [1, 5]) = Inr [V_Bool True]" by code_simp
  then show ?thesis by (rule DecodeArgs_reencodes)
qed

lemma ParseABIType_String: "ParseABIType (ABIType_String t) = Inr t \<longleftrightarrow> (\<forall>n. t \<noteq> ABITypeOther n)"
  by (cases t) (simp_all add: ParseABIType_def)

text \<open>Type names are a canonical code of the eight types.\<close>

interpretation abi_type_codec: canonical_codec ABIType_String "\<lambda>s. sum_option (ParseABIType s)" "\<lambda>t. \<forall>n. t \<noteq> ABITypeOther n"
proof
  fix t assume "\<forall>n. t \<noteq> ABITypeOther n"
  then show "sum_option (ParseABIType (ABIType_String t)) = Some t" by (simp add: ParseABIType_String)
next
  fix s t assume "sum_option (ParseABIType s) = Some t"
  then show "ABIType_String t = s" by (auto simp: ParseABIType_def split: if_splits)
qed

end
