(* ===== verification/Broadcast.thy ===== *)
theory Broadcast
  imports Canonical
begin

text \<open>
  Quantities and the send-and-wait flow: \<^verbatim>\<open>src/chain/rpc/quantity.go\<close>, \<^verbatim>\<open>src/chain/broadcast/broadcast.go\<close> and
  \<^verbatim>\<open>fees.go\<close>. The RPC client is an interface; here it is a record of its answers. The polling loop runs against an
  environment that gives, for each round, the answer of the node and which branch of the \<^verbatim>\<open>select\<close> is taken. The loop may
  run forever, so it is a partial function.
\<close>

section \<open>Quantities\<close>

datatype quantity_error =
    ErrEmptyQuantity
  | ErrMissingPrefix
  | ErrNoDigits
  | ErrLeadingZeros
  | ErrInvalidHex
  | ErrBlockNumberOverflow

text \<open>\<^verbatim>\<open>big.Int.SetString\<close> in base 16: an optional sign, then one or more hexadecimal digits and nothing else.\<close>

definition hex_value :: "string \<Rightarrow> nat" where
  "hex_value ds = foldl (\<lambda>n c. 16 * n + the (from_hex c)) 0 ds"

definition hex_digits :: "string \<Rightarrow> bool" where
  "hex_digits ds \<longleftrightarrow> ds \<noteq> [] \<and> list_all (\<lambda>c. from_hex c \<noteq> None) ds"

definition split_sign :: "string \<Rightarrow> bool \<times> string" where
  "split_sign s =
    (case s of
       [] \<Rightarrow> (False, [])
     | c # rest \<Rightarrow> if c = CHR ''-'' then (True, rest) else if c = CHR ''+'' then (False, rest) else (False, s))"

definition big_SetString16 :: "string \<Rightarrow> int option" where
  "big_SetString16 s =
    (let (neg, ds) = split_sign s
     in if hex_digits ds then Some (if neg then - int (hex_value ds) else int (hex_value ds)) else None)"

text \<open>\<^verbatim>\<open>big.Int.Text\<close> in base 16, for a number other than zero.\<close>

fun hex_of_nat :: "nat \<Rightarrow> string" where
  "hex_of_nat n = (if n = 0 then [] else hex_of_nat (n div 16) @ [hex_char (n mod 16)])"

declare hex_of_nat.simps [simp del]

definition big_Text16 :: "int \<Rightarrow> string" where
  "big_Text16 n = (if n = 0 then ''0'' else (if n < 0 then ''-'' else []) @ hex_of_nat (nat \<bar>n\<bar>))"

definition has_0x :: "string \<Rightarrow> bool" where
  "has_0x s \<longleftrightarrow> take 2 s = ''0x''"

definition ParseQuantity :: "string \<Rightarrow> quantity_error + int" where
  "ParseQuantity hex =
    (if hex = '''' then Inl ErrEmptyQuantity
     else if \<not> has_0x hex then Inl ErrMissingPrefix
     else (let body = drop 2 hex
           in if body = '''' then Inl ErrNoDigits
              else if length body > 1 \<and> body ! 0 = CHR ''0'' then Inl ErrLeadingZeros
              else (case big_SetString16 body of None \<Rightarrow> Inl ErrInvalidHex | Some n \<Rightarrow> Inr n)))"

definition FormatQuantity :: "int option \<Rightarrow> string" where
  "FormatQuantity n =
    (case n of None \<Rightarrow> ''0x0'' | Some i \<Rightarrow> if i = 0 then ''0x0'' else ''0x'' @ big_Text16 i)"

text \<open>\<^verbatim>\<open>BitLen\<close> and \<^verbatim>\<open>Uint64\<close> of a \<^verbatim>\<open>big.Int\<close> read its magnitude.\<close>

definition ParseBlockNumber :: "string \<Rightarrow> quantity_error + u64" where
  "ParseBlockNumber hex =
    sbind (ParseQuantity hex) (\<lambda>n.
      if 2 ^ 64 \<le> nat \<bar>n\<bar> then Inl ErrBlockNumberOverflow else Inr (word_of_nat (nat \<bar>n\<bar>)))"

section \<open>Receipts\<close>

datatype broadcast_error =
    B_NilClient
  | B_Rpc string
  | B_Context string
  | ErrMalformedReceipt
  | ErrInvalidBlockTag
  | B_Quantity quantity_error
  | B_Panic

definition requiredReceiptFields :: "string list" where
  "requiredReceiptFields =
    [''status'', ''blockHash'', ''blockNumber'', ''transactionHash'', ''transactionIndex'', ''gasUsed'', ''contractAddress'', ''logs'']"

record Receipt =
  rc_Status :: u64
  rc_BlockHash :: string
  rc_BlockNumber :: u64
  rc_TransactionHash :: string
  rc_TransactionIndex :: u64
  rc_GasUsed :: u64
  rc_ContractAddress :: string
  rc_Logs :: "goany list"

definition receiptString :: "(string \<times> goany) list \<Rightarrow> string \<Rightarrow> broadcast_error + string" where
  "receiptString m key =
    (case map_of m key of
       Some (AnyString s) \<Rightarrow> if s = '''' then Inl ErrMalformedReceipt else Inr s
     | _ \<Rightarrow> Inl ErrMalformedReceipt)"

definition receipt_number :: "string \<Rightarrow> broadcast_error + u64" where
  "receipt_number s = (case ParseBlockNumber s of Inl _ \<Rightarrow> Inl ErrMalformedReceipt | Inr n \<Rightarrow> Inr n)"

definition receipt_contract :: "goany \<Rightarrow> broadcast_error + string" where
  "receipt_contract v =
    (case v of AnyNil \<Rightarrow> Inr '''' | AnyString s \<Rightarrow> Inr s | _ \<Rightarrow> Inl ErrMalformedReceipt)"

definition receipt_logs :: "goany option \<Rightarrow> broadcast_error + goany list" where
  "receipt_logs v = (case v of Some (AnySlice l) \<Rightarrow> Inr l | _ \<Rightarrow> Inl ErrMalformedReceipt)"

definition parse_fields :: "(string \<times> goany) list \<Rightarrow> broadcast_error + Receipt" where
  "parse_fields m =
    sbind (receiptString m ''status'') (\<lambda>st.
    sbind (receipt_number st) (\<lambda>status.
    sbind (receiptString m ''blockHash'') (\<lambda>bhash.
    sbind (receiptString m ''blockNumber'') (\<lambda>bn.
    sbind (receipt_number bn) (\<lambda>blockNumber.
    sbind (receiptString m ''transactionHash'') (\<lambda>txHash.
    sbind (receiptString m ''transactionIndex'') (\<lambda>ti.
    sbind (receipt_number ti) (\<lambda>txIndex.
    sbind (receiptString m ''gasUsed'') (\<lambda>gu.
    sbind (receipt_number gu) (\<lambda>gasUsed.
    sbind (receipt_contract (case map_of m ''contractAddress'' of None \<Rightarrow> AnyNil | Some v \<Rightarrow> v)) (\<lambda>contract.
    sbind (receipt_logs (map_of m ''logs'')) (\<lambda>logs.
      Inr \<lparr>rc_Status = status, rc_BlockHash = bhash, rc_BlockNumber = blockNumber, rc_TransactionHash = txHash,
           rc_TransactionIndex = txIndex, rc_GasUsed = gasUsed, rc_ContractAddress = contract, rc_Logs = logs\<rparr>))))))))))))"

definition parseReceipt :: "goany \<Rightarrow> broadcast_error + Receipt" where
  "parseReceipt raw =
    (case raw of
       AnyMap m \<Rightarrow>
         if list_ex (\<lambda>key. map_of m key = None) requiredReceiptFields then Inl ErrMalformedReceipt else parse_fields m
     | _ \<Rightarrow> Inl ErrMalformedReceipt)"

section \<open>Sending and waiting\<close>

text \<open>A duration is an integer of nanoseconds.\<close>

definition DefaultPollInterval :: int where
  "DefaultPollInterval = 2 * 1000000000"

record waitConfig =
  pollInterval :: int

definition WithPollInterval :: "int \<Rightarrow> waitConfig \<Rightarrow> waitConfig" where
  "WithPollInterval d c = (if d > 0 then c\<lparr>pollInterval := d\<rparr> else c)"

definition newWaitConfig :: "(waitConfig \<Rightarrow> waitConfig) list \<Rightarrow> waitConfig" where
  "newWaitConfig opts = foldl (\<lambda>c opt. opt c) \<lparr>pollInterval = DefaultPollInterval\<rparr> opts"

text \<open>The answers of the node; \<open>AnyNil\<close> is the nil interface.\<close>

record rpc_client =
  cl_SendRawTransaction :: "string \<Rightarrow> string + string"
  cl_GetTransactionCount :: "string \<Rightarrow> string \<Rightarrow> string + string"
  cl_EstimateGas :: "(string \<times> goany) list \<Rightarrow> string + string"
  cl_GasPrice :: "string + string"
  cl_MaxPriorityFeePerGas :: "string + string"

datatype selected = SelTick | SelDone

record wait_env =
  we_ctx :: "string option" \<comment> \<open>the error of a context that is cancelled at the start\<close>
  we_receipt :: "nat \<Rightarrow> string + goany" \<comment> \<open>the answer to the poll of each round\<close>
  we_select :: "nat \<Rightarrow> selected" \<comment> \<open>the branch of the select statement in each round\<close>
  we_done :: string \<comment> \<open>the error of the context when it is done\<close>

definition SendTx :: "rpc_client option \<Rightarrow> bytes \<Rightarrow> broadcast_error + string" where
  "SendTx client rawTx =
    (case client of
       None \<Rightarrow> Inl B_NilClient
     | Some c \<Rightarrow> lift_error B_Rpc (cl_SendRawTransaction c (''0x'' @ hex_EncodeToString rawTx)))"

partial_function (option) wait_loop :: "wait_env \<Rightarrow> nat \<Rightarrow> (broadcast_error + Receipt) option" where
  "wait_loop env k =
    (case we_receipt env k of
       Inl e \<Rightarrow> Some (Inl (B_Rpc e))
     | Inr raw \<Rightarrow>
         if raw \<noteq> AnyNil then Some (parseReceipt raw)
         else (case we_select env k of
             SelTick \<Rightarrow> wait_loop env (k + 1)
           | SelDone \<Rightarrow> Some (Inl (B_Context (we_done env)))))"

text \<open>\<^verbatim>\<open>time.NewTicker\<close> panics on an interval that is not positive.\<close>

definition WaitForReceipt ::
  "bool \<Rightarrow> wait_env \<Rightarrow> (waitConfig \<Rightarrow> waitConfig) list \<Rightarrow> (broadcast_error + Receipt) option" where
  "WaitForReceipt nil_client env opts =
    (if nil_client then Some (Inl B_NilClient)
     else (let cfg = newWaitConfig opts
           in case we_ctx env of
                Some e \<Rightarrow> Some (Inl (B_Context e))
              | None \<Rightarrow> if pollInterval cfg \<le> 0 then Some (Inl B_Panic) else wait_loop env 0))"

section \<open>Fees\<close>

definition validBlockTag :: "string \<Rightarrow> bool" where
  "validBlockTag tag \<longleftrightarrow>
    tag \<in> {''latest'', ''earliest'', ''pending'', ''safe'', ''finalized''} \<or>
    (case ParseQuantity tag of Inl _ \<Rightarrow> False | Inr _ \<Rightarrow> True)"

definition FetchNonce :: "rpc_client option \<Rightarrow> string \<Rightarrow> string \<Rightarrow> broadcast_error + u64" where
  "FetchNonce client address blockTag =
    (case client of
       None \<Rightarrow> Inl B_NilClient
     | Some c \<Rightarrow>
         if \<not> validBlockTag blockTag then Inl ErrInvalidBlockTag
         else sbind (lift_error B_Rpc (cl_GetTransactionCount c address blockTag)) (\<lambda>hex.
              lift_error B_Quantity (ParseBlockNumber hex)))"

definition EstimateGasLimit :: "rpc_client option \<Rightarrow> (string \<times> goany) list \<Rightarrow> broadcast_error + u64" where
  "EstimateGasLimit client call =
    (case client of
       None \<Rightarrow> Inl B_NilClient
     | Some c \<Rightarrow> sbind (lift_error B_Rpc (cl_EstimateGas c call)) (\<lambda>hex. lift_error B_Quantity (ParseBlockNumber hex)))"

definition FetchFees :: "rpc_client option \<Rightarrow> broadcast_error + (int \<times> int)" where
  "FetchFees client =
    (case client of
       None \<Rightarrow> Inl B_NilClient
     | Some c \<Rightarrow>
         sbind (lift_error B_Rpc (cl_MaxPriorityFeePerGas c)) (\<lambda>priorityHex.
         sbind (lift_error B_Quantity (ParseQuantity priorityHex)) (\<lambda>priorityFee.
         sbind (lift_error B_Rpc (cl_GasPrice c)) (\<lambda>gasHex.
         sbind (lift_error B_Quantity (ParseQuantity gasHex)) (\<lambda>gasPrice.
           Inr (gasPrice, priorityFee))))))"

section \<open>Digits\<close>

lemma from_hex_sign: "from_hex (CHR ''-'') = None" "from_hex (CHR ''+'') = None"
  by (simp_all add: from_hex_def less_eq_char_def)

lemma hex_value_append: "hex_value (ds @ [c]) = 16 * hex_value ds + the (from_hex c)"
  by (simp add: hex_value_def)

lemma hex_of_nat_value: "hex_value (hex_of_nat n) = n"
proof (induction n rule: hex_of_nat.induct)
  case (1 n)
  then show ?case
  proof (cases "n = 0")
    case False
    then show ?thesis using 1 by (subst hex_of_nat.simps) (simp add: hex_value_append)
  qed (simp add: hex_of_nat.simps hex_value_def)
qed

lemma hex_of_nat_digits: "list_all (\<lambda>c. from_hex c \<noteq> None) (hex_of_nat n)"
proof (induction n rule: hex_of_nat.induct)
  case (1 n)
  then show ?case by (subst hex_of_nat.simps) simp
qed

lemma hex_of_nat_leading: "0 < n \<Longrightarrow> hex_of_nat n \<noteq> [] \<and> hd (hex_of_nat n) \<noteq> CHR ''0''"
proof (induction n rule: hex_of_nat.induct)
  case (1 n)
  show ?case
  proof (cases "n div 16 = 0")
    case True
    then have "n < 16" "n mod 16 = n" by simp_all
    then have "from_hex (hex_char n) = Some n" by simp
    then have "hex_char n \<noteq> CHR ''0''" using \<open>0 < n\<close> by (auto simp: from_hex_def)
    moreover have "hex_of_nat n = [hex_char n]"
      using 1(2) True \<open>n mod 16 = n\<close> by (simp add: hex_of_nat.simps [of n] hex_of_nat.simps [of 0])
    ultimately show ?thesis by simp
  next
    case False
    then show ?thesis using 1 by (simp add: hex_of_nat.simps [of n])
  qed
qed

section \<open>Accepted quantities\<close>

definition canonical_digits :: "string \<Rightarrow> bool" where
  "canonical_digits ds \<longleftrightarrow> hex_digits ds \<and> (ds = ''0'' \<or> hd ds \<noteq> CHR ''0'')"

lemma big_SetString16_cases:
  "big_SetString16 s = Some n \<longleftrightarrow>
    (\<exists>ds. hex_digits ds \<and>
      (s = ds \<and> n = int (hex_value ds) \<or> s = CHR ''+'' # ds \<and> n = int (hex_value ds) \<or> s = CHR ''-'' # ds \<and> n = - int (hex_value ds)))"
proof (cases s)
  case (Cons c rest)
  have "\<not> hex_digits (CHR ''-'' # rest)" "\<not> hex_digits (CHR ''+'' # rest)" by (simp_all add: hex_digits_def from_hex_sign)
  then show ?thesis using Cons by (auto simp: big_SetString16_def split_sign_def)
qed (simp add: big_SetString16_def split_sign_def hex_digits_def)

lemma ParseQuantity_Inr:
  "ParseQuantity s = Inr n \<longleftrightarrow>
    (\<exists>ds. s = ''0x'' @ ds \<and> canonical_digits ds \<and> n = int (hex_value ds)) \<or>
    (\<exists>ds. s = ''0x+'' @ ds \<and> hex_digits ds \<and> n = int (hex_value ds)) \<or>
    (\<exists>ds. s = ''0x-'' @ ds \<and> hex_digits ds \<and> n = - int (hex_value ds))"
proof -
  have "ParseQuantity s = Inr n \<longleftrightarrow>
      (\<exists>body. s = ''0x'' @ body \<and> body \<noteq> [] \<and> (length body > 1 \<longrightarrow> body ! 0 \<noteq> CHR ''0'') \<and> big_SetString16 body = Some n)"
  proof (cases "has_0x s")
    case True
    then have "s = ''0x'' @ drop 2 s" by (metis append_take_drop_id has_0x_def)
    then show ?thesis
      using True by (auto simp: ParseQuantity_def Let_def split: option.splits)
  qed (auto simp: ParseQuantity_def has_0x_def)
  also have "\<dots> \<longleftrightarrow> (\<exists>body. s = ''0x'' @ body \<and>
      (canonical_digits body \<and> n = int (hex_value body) \<or>
       (\<exists>ds. hex_digits ds \<and> (body = CHR ''+'' # ds \<and> n = int (hex_value ds) \<or> body = CHR ''-'' # ds \<and> n = - int (hex_value ds)))))"
  proof -
    have "canonical_digits body \<longleftrightarrow> hex_digits body \<and> body \<noteq> [] \<and> (length body > 1 \<longrightarrow> body ! 0 \<noteq> CHR ''0'')" for body
      by (cases body; cases "tl body") (auto simp: canonical_digits_def hex_digits_def)
    then show ?thesis unfolding big_SetString16_cases by (fastforce simp: hex_digits_def)
  qed
  finally show ?thesis by auto
qed

lemma ParseBlockNumber_negative:
  "hex_digits ds \<Longrightarrow> hex_value ds < 2 ^ 64 \<Longrightarrow> ParseBlockNumber (''0x-'' @ ds) = Inr (word_of_nat (hex_value ds))"
proof -
  assume ds: "hex_digits ds" "hex_value ds < 2 ^ 64"
  then have "ParseQuantity (''0x-'' @ ds) = Inr (- int (hex_value ds))" unfolding ParseQuantity_Inr by blast
  then show ?thesis using ds(2) by (simp add: ParseBlockNumber_def)
qed

section \<open>The polling loop\<close>

text \<open>What a round decides, if it decides anything.\<close>

definition round_result :: "wait_env \<Rightarrow> nat \<Rightarrow> (broadcast_error + Receipt) option" where
  "round_result env k =
    (case we_receipt env k of
       Inl e \<Rightarrow> Some (Inl (B_Rpc e))
     | Inr raw \<Rightarrow>
         if raw \<noteq> AnyNil then Some (parseReceipt raw)
         else if we_select env k = SelDone then Some (Inl (B_Context (we_done env)))
         else None)"

lemma wait_loop_round:
  "wait_loop env k = (case round_result env k of Some r \<Rightarrow> Some r | None \<Rightarrow> wait_loop env (k + 1))"
  by (subst wait_loop.simps) (auto simp: round_result_def split: sum.splits selected.splits)

lemma wait_loop_first:
  assumes "\<forall>j<n. round_result env (k + j) = None"
  shows "wait_loop env k = wait_loop env (k + n)"
  using assms
proof (induction n)
  case (Suc n)
  then have "wait_loop env k = wait_loop env (k + n)" "round_result env (k + n) = None" by auto
  then show ?case using wait_loop_round [of env "k + n"] by simp
qed simp

lemma wait_loop_Some: "wait_loop env k = Some r \<Longrightarrow> \<exists>n. round_result env (k + n) \<noteq> None"
proof (rule wait_loop.raw_induct [where P = "\<lambda>env k r. \<exists>n. round_result env (k + n) \<noteq> None"])
  fix loop env k r
  assume IH: "\<And>env k r. loop env k = Some r \<Longrightarrow> \<exists>n. round_result env (k + n) \<noteq> None"
    and r: "(case we_receipt env k of Inl e \<Rightarrow> Some (Inl (B_Rpc e))
      | Inr raw \<Rightarrow> if raw \<noteq> AnyNil then Some (parseReceipt raw)
          else (case we_select env k of SelTick \<Rightarrow> loop env (k + 1) | SelDone \<Rightarrow> Some (Inl (B_Context (we_done env))))) = Some r"
  show "\<exists>n. round_result env (k + n) \<noteq> None"
  proof (cases "round_result env k")
    case None
    then have "loop env (k + 1) = Some r" using r by (auto simp: round_result_def split: sum.splits if_splits selected.splits)
    then obtain n where "round_result env (k + 1 + n) \<noteq> None" using IH by blast
    then show ?thesis by (metis add.assoc)
  next
    case (Some x)
    then show ?thesis by (intro exI [of _ 0]) simp
  qed
qed

lemma wait_loop_exact:
  "wait_loop env 0 = Some r \<longleftrightarrow> (\<exists>k. round_result env k = Some r \<and> (\<forall>j<k. round_result env j = None))"
proof -
  have first: "wait_loop env 0 = Some x" if "round_result env k = Some x" "\<forall>j<k. round_result env j = None" for k x
    using wait_loop_first [of k env 0] wait_loop_round [of env k] that by simp
  show ?thesis
  proof
    assume r: "wait_loop env 0 = Some r"
    then obtain n where "round_result env n \<noteq> None" using wait_loop_Some [of env 0 r] by auto
    then obtain k where k: "round_result env k \<noteq> None" "\<forall>j<k. round_result env j = None"
      using exists_least_iff [of "\<lambda>k. round_result env k \<noteq> None"] by auto
    then obtain x where "round_result env k = Some x" by auto
    with first k(2) r show "\<exists>k. round_result env k = Some r \<and> (\<forall>j<k. round_result env j = None)" by auto
  qed (use first in blast)
qed

lemma newWaitConfig_positive: "pollInterval (newWaitConfig (map WithPollInterval ds)) > 0"
proof -
  have "pollInterval (foldl (\<lambda>c opt. opt c) c (map WithPollInterval ds)) > 0" if "pollInterval c > 0" for c
    using that by (induction ds arbitrary: c) (simp_all add: WithPollInterval_def)
  then show ?thesis by (simp add: newWaitConfig_def DefaultPollInterval_def)
qed

section \<open>Properties\<close>

text \<open>what \<^verbatim>\<open>ParseQuantity\<close> accepts. Besides the canonical digits it takes any digits after a plus or a minus sign, with leading
  zeros and with a negative value.\<close>

theorem ParseQuantity_exact:
  "ParseQuantity s = Inr n \<longleftrightarrow>
    (\<exists>ds. s = ''0x'' @ ds \<and> canonical_digits ds \<and> n = int (hex_value ds)) \<or>
    (\<exists>ds. s = ''0x+'' @ ds \<and> hex_digits ds \<and> n = int (hex_value ds)) \<or>
    (\<exists>ds. s = ''0x-'' @ ds \<and> hex_digits ds \<and> n = - int (hex_value ds))"
  by (rule ParseQuantity_Inr)

text \<open>formatting and parsing. Every integer survives \<^verbatim>\<open>FormatQuantity\<close> and \<^verbatim>\<open>ParseQuantity\<close>, and for a number that is not
  negative the text is canonical.\<close>

theorem FormatQuantity_roundtrip:
  "ParseQuantity (FormatQuantity (Some n)) = Inr n \<and>
   (n < 0 \<or> (\<exists>ds. FormatQuantity (Some n) = ''0x'' @ ds \<and> canonical_digits ds))"
proof -
  have digits: "hex_digits (hex_of_nat m)" "canonical_digits (hex_of_nat m)" if "0 < m" for m
    using that hex_of_nat_digits [of m] hex_of_nat_leading [of m] by (simp_all add: hex_digits_def canonical_digits_def)
  have zero: "canonical_digits ''0''" "hex_value ''0'' = 0"
    by (simp_all add: canonical_digits_def hex_digits_def hex_value_def from_hex_def less_eq_char_def)
  consider "n = 0" | "0 < n" | "n < 0" by linarith
  then show ?thesis
  proof cases
    case 1
    then show ?thesis using zero ParseQuantity_Inr [of "''0x0''" 0] by (auto simp: FormatQuantity_def)
  next
    case 2
    then have "FormatQuantity (Some n) = ''0x'' @ hex_of_nat (nat n)" by (simp add: FormatQuantity_def big_Text16_def)
    then show ?thesis using 2 digits [of "nat n"] by (auto simp: ParseQuantity_Inr hex_of_nat_value)
  next
    case 3
    then have "FormatQuantity (Some n) = ''0x-'' @ hex_of_nat (nat (- n))" by (simp add: FormatQuantity_def big_Text16_def)
    then show ?thesis using 3 digits [of "nat (- n)"] by (auto simp: ParseQuantity_Inr hex_of_nat_value)
  qed
qed

text \<open>C32: a signed quantity passes as an unsigned one: \<^verbatim>\<open>ParseBlockNumber\<close> reads a negative number as its magnitude, and so do
  the nonce, the gas estimate and the numbers of a receipt.\<close>

theorem negative_quantity_accepted:
  assumes "hex_digits ds" and "hex_value ds < 2 ^ 64"
  shows "ParseBlockNumber (''0x-'' @ ds) = Inr (word_of_nat (hex_value ds)) \<and> receipt_number (''0x-'' @ ds) = Inr (word_of_nat (hex_value ds)) \<and>
    validBlockTag (''0x-'' @ ds) \<and>
    (cl_GetTransactionCount c address tag = Inr (''0x-'' @ ds) \<and> validBlockTag tag \<longrightarrow>
      FetchNonce (Some c) address tag = Inr (word_of_nat (hex_value ds)))"
proof -
  have "ParseQuantity (''0x-'' @ ds) = Inr (- int (hex_value ds))" unfolding ParseQuantity_Inr using assms(1) by blast
  then have "validBlockTag (''0x-'' @ ds)" by (simp add: validBlockTag_def)
  then show ?thesis
    using ParseBlockNumber_negative [OF assms] by (simp add: receipt_number_def FetchNonce_def lift_error_def)
qed

theorem negative_quantity_accepted_witness:
  "ParseBlockNumber (''0x-'' @ ''1'') = Inr (word_of_nat (hex_value ''1'')) \<and> hex_value ''1'' = 1"
  using negative_quantity_accepted [of "''1''"]
  by (simp add: hex_digits_def hex_value_def from_hex_def less_eq_char_def)


definition demo_wait :: wait_env where
  "demo_wait = \<lparr>we_ctx = None, we_receipt = (\<lambda>k. if k < 2 then Inr AnyNil else Inr (AnyString ''x'')),
     we_select = (\<lambda>_. SelTick), we_done = ''done''\<rparr>"


text \<open>Quantities are a code of the integers; by the theorem on signed quantities it is not a canonical one.\<close>

interpretation quantity_codec: codec "\<lambda>n. FormatQuantity (Some n)" "\<lambda>s. sum_option (ParseQuantity s)" "\<lambda>_. True"
  by unfold_locales (simp add: FormatQuantity_roundtrip)

end
