(* ===== verification/ChainCommitment.thy ===== *)
theory ChainCommitment
  imports Eip712 Abi Broadcast Verification Commitment
begin

text \<open>
  Anchoring a Merkle root on a chain, \<^verbatim>\<open>src/chain/commitment\<close>: anchors, the signed proof that binds a root to a
  transaction, its verification with and without a provider, publishing, the provider over an RPC client, and the checker
  the verification engine calls. Waiting for a receipt may not end, so an operation that waits returns an option. What
  \<^verbatim>\<open>encoding/json\<close> makes of the bytes of a bound proof is an argument of the checker.
\<close>

section \<open>Errors\<close>

datatype chain_error =
    ErrNilAnchor
  | ErrNilWallet
  | ErrInvalidAnchor
  | ErrMissingTxParams
  | CC_ErrMalformedReceipt
  | ErrReceiptMismatch
  | CC_ErrChainIDMismatch
  | ErrNotConfirmed
  | ErrRootMismatch
  | ErrBindingMismatch
  | ErrBadSignature
  | ErrRootGetterFailed
  | CC_NilProvider
  | CC_NilClient
  | CC_MalformedProof
  | CC_Address recovery_error
  | CC_Eip712 eip712_error
  | CC_Abi abi_error
  | CC_Wallet wallet_error
  | CC_Broadcast broadcast_error
  | CC_Quantity quantity_error
  | CC_Rpc string
  | CC_Hex
  | CC_Panic

section \<open>Anchors\<close>

record Anchor =
  an_ChainID :: "int option"
  an_Contract :: bytes

definition validateChainID :: "int option \<Rightarrow> chain_error + unit" where
  "validateChainID chainID =
    (case chainID of
       None \<Rightarrow> Inl ErrInvalidAnchor
     | Some c \<Rightarrow> if c \<le> 0 \<or> 2 ^ 256 \<le> \<bar>c\<bar> then Inl ErrInvalidAnchor else Inr ())"

definition anchor_Validate :: "Anchor option \<Rightarrow> chain_error + unit" where
  "anchor_Validate a =
    (case a of
       None \<Rightarrow> Inl ErrNilAnchor
     | Some a \<Rightarrow> sbind (validateChainID (an_ChainID a)) (\<lambda>_.
         if an_Contract a = replicate 20 0 then Inl ErrInvalidAnchor else Inr ()))"

definition NewAnchor :: "int option \<Rightarrow> bytes \<Rightarrow> chain_error + Anchor" where
  "NewAnchor chainID contract =
    (let a = \<lparr>an_ChainID = chainID, an_Contract = contract\<rparr> in sbind (anchor_Validate (Some a)) (\<lambda>_. Inr a))"

definition deriveNamespacePrefix :: string where
  "deriveNamespacePrefix = ''TrustCommitment/''"

text \<open>\<^verbatim>\<open>FillBytes\<close> panics when the number does not fit; callers validate the chain identifier first.\<close>

definition uint256BE :: "int \<Rightarrow> bytes" where
  "uint256BE chainID = be_bytes 32 (nat \<bar>chainID\<bar>)"

definition DeriveAnchor :: "ethlib \<Rightarrow> int option \<Rightarrow> string \<Rightarrow> chain_error + Anchor" where
  "DeriveAnchor lib chainID namespace =
    sbind (validateChainID chainID) (\<lambda>_.
      let buf = string_bytes deriveNamespacePrefix @ string_bytes namespace @ uint256BE (the chainID)
      in Inr \<lparr>an_ChainID = chainID, an_Contract = drop 12 (Keccak256_Sum lib buf)\<rparr>)"

definition ParseAnchor :: "ethlib \<Rightarrow> int option \<Rightarrow> string \<Rightarrow> chain_error + Anchor" where
  "ParseAnchor lib chainID s =
    sbind (validateChainID chainID) (\<lambda>_.
    sbind (lift_error CC_Address (ParseAddress lib s)) (\<lambda>addr. Inr \<lparr>an_ChainID = chainID, an_Contract = addr\<rparr>))"

section \<open>Proofs\<close>

definition ProofStructType :: string where
  "ProofStructType = ''Commitment(bytes32 root,bytes32 txHash,uint256 blockNumber)''"

record ChainProof =
  cp_Root :: bytes
  cp_ChainID :: "int option"
  cp_Contract :: bytes
  cp_TxHash :: bytes
  cp_BlockNumber :: u64
  cp_Signature :: bytes

definition commitmentDomain :: "ethlib \<Rightarrow> Anchor option \<Rightarrow> chain_error + bytes" where
  "commitmentDomain lib a =
    (case a of
       None \<Rightarrow> Inl ErrNilAnchor
     | Some a \<Rightarrow>
         lift_error CC_Eip712 (domain_Hash lib
           \<lparr>ds_Name = ''TrustCommitment'', ds_Version = ''1'', ds_ChainID = an_ChainID a, ds_VerifyingContract = an_Contract a,
            ds_Salt = replicate 32 0\<rparr>))"

definition commitmentStructHash :: "ethlib \<Rightarrow> bytes \<Rightarrow> bytes \<Rightarrow> u64 \<Rightarrow> chain_error + bytes" where
  "commitmentStructHash lib root txHash blockNumber =
    sbind (lift_error CC_Abi (EncodeArgs [ABITypeBytes32, ABITypeBytes32, ABITypeUint256]
        [V_Bytes32 root, V_Bytes32 txHash, V_Big (Some (int (unat blockNumber)))])) (\<lambda>encoded.
      Inr (HashStruct lib (Keccak256_Sum lib (string_bytes ProofStructType)) encoded))"

definition parseTxHash :: "string \<Rightarrow> chain_error + bytes" where
  "parseTxHash s =
    (case hex_DecodeString (trim_prefix s ''0x'') of
       None \<Rightarrow> Inl CC_ErrMalformedReceipt
     | Some b \<Rightarrow> if length b \<noteq> 32 then Inl CC_ErrMalformedReceipt else Inr b)"

definition chain_Proof :: "ethlib \<Rightarrow> bytes \<Rightarrow> Anchor option \<Rightarrow> Receipt \<Rightarrow> Wallet option \<Rightarrow> chain_error + ChainProof" where
  "chain_Proof lib root a r w =
    (case a of
       None \<Rightarrow> Inl ErrNilAnchor
     | Some anchor \<Rightarrow>
         if w = None then Inl ErrNilWallet
         else sbind (parseTxHash (rc_TransactionHash r)) (\<lambda>txHash.
              sbind (commitmentDomain lib a) (\<lambda>domainHash.
              sbind (commitmentStructHash lib root txHash (rc_BlockNumber r)) (\<lambda>structHash.
              sbind (lift_error CC_Eip712 (eip712_Sign lib w domainHash structHash)) (\<lambda>sig.
                Inr \<lparr>cp_Root = root, cp_ChainID = an_ChainID anchor, cp_Contract = an_Contract anchor, cp_TxHash = txHash,
                     cp_BlockNumber = rc_BlockNumber r, cp_Signature = sig\<rparr>)))))"

definition VerifyCommitmentProof :: "ethlib \<Rightarrow> ChainProof \<Rightarrow> chain_error + bytes" where
  "VerifyCommitmentProof lib p =
    (case commitmentDomain lib (Some \<lparr>an_ChainID = cp_ChainID p, an_Contract = cp_Contract p\<rparr>) of
       Inl _ \<Rightarrow> Inl ErrBadSignature
     | Inr domainHash \<Rightarrow>
         (case commitmentStructHash lib (cp_Root p) (cp_TxHash p) (cp_BlockNumber p) of
            Inl _ \<Rightarrow> Inl ErrBadSignature
          | Inr structHash \<Rightarrow>
              (case eip712_Recover lib (cp_Signature p) domainHash structHash of
                 Inl _ \<Rightarrow> Inl ErrBadSignature
               | Inr addr \<Rightarrow> Inr addr)))"

section \<open>Providers\<close>

text \<open>The answers of a provider; \<open>None\<close> stands for a receipt that never comes, and a nil receipt is \<open>Inr None\<close>.\<close>

record Provider =
  pv_SendTx :: "bytes \<Rightarrow> chain_error + string"
  pv_Receipt :: "string \<Rightarrow> (chain_error + Receipt option) option"
  pv_BlockNumber :: "chain_error + u64"
  pv_Root :: "bytes \<Rightarrow> string \<Rightarrow> chain_error + bytes"

definition RootSignature :: string where
  "RootSignature = ''root()''"

text \<open>The client with the two calls that are not part of \<^verbatim>\<open>rpc.Client\<close>, and the environment of each wait.\<close>

record rpc_full_client = rpc_client +
  cl_BlockNumber :: "string + string"
  cl_Call :: "(string \<times> goany) list \<Rightarrow> string \<Rightarrow> string + string"
  cl_wait :: "string \<Rightarrow> wait_env"

record RPCProvider =
  rp_client :: "rpc_full_client option"
  rp_pollInterval :: int

definition provider_WithPollInterval :: "int \<Rightarrow> RPCProvider \<Rightarrow> RPCProvider" where
  "provider_WithPollInterval d p = (if d > 0 then p\<lparr>rp_pollInterval := d\<rparr> else p)"

definition NewRPCProvider :: "rpc_full_client option \<Rightarrow> (RPCProvider \<Rightarrow> RPCProvider) list \<Rightarrow> RPCProvider" where
  "NewRPCProvider c opts = foldl (\<lambda>p opt. opt p) \<lparr>rp_client = c, rp_pollInterval = DefaultPollInterval\<rparr> opts"

definition provider_SendTx :: "RPCProvider \<Rightarrow> bytes \<Rightarrow> chain_error + string" where
  "provider_SendTx p rawTx =
    (case rp_client p of
       None \<Rightarrow> Inl CC_NilClient
     | Some c \<Rightarrow> lift_error CC_Broadcast (SendTx (Some (rpc_client.truncate c)) rawTx))"

definition provider_Receipt :: "RPCProvider \<Rightarrow> string \<Rightarrow> (chain_error + Receipt option) option" where
  "provider_Receipt p txHash =
    (case rp_client p of
       None \<Rightarrow> Some (Inl CC_NilClient)
     | Some c \<Rightarrow>
         map_option (\<lambda>r. sbind (lift_error CC_Broadcast r) (\<lambda>receipt. Inr (Some receipt)))
           (WaitForReceipt False (cl_wait c txHash) [WithPollInterval (rp_pollInterval p)]))"

definition provider_BlockNumber :: "RPCProvider \<Rightarrow> chain_error + u64" where
  "provider_BlockNumber p =
    (case rp_client p of
       None \<Rightarrow> Inl CC_NilClient
     | Some c \<Rightarrow> sbind (lift_error CC_Rpc (cl_BlockNumber c)) (\<lambda>hexStr. lift_error CC_Quantity (ParseBlockNumber hexStr)))"

definition provider_Root :: "ethlib \<Rightarrow> RPCProvider \<Rightarrow> bytes \<Rightarrow> string \<Rightarrow> chain_error + bytes" where
  "provider_Root lib p contract blockTag =
    (case rp_client p of
       None \<Rightarrow> Inl CC_NilClient
     | Some c \<Rightarrow>
         (let selector = FunctionSelector lib RootSignature;
              call = [(''to'', AnyString (Address_Hex lib contract)), (''data'', AnyString (''0x'' @ hex_EncodeToString selector))]
          in sbind (lift_error CC_Rpc (cl_Call c call blockTag)) (\<lambda>res.
               case hex_DecodeString (trim_prefix res ''0x'') of
                 None \<Rightarrow> Inl CC_Hex
               | Some b \<Rightarrow> if length b \<noteq> 32 then Inl ErrRootGetterFailed else Inr b)))"

definition rpc_provider :: "ethlib \<Rightarrow> RPCProvider \<Rightarrow> Provider" where
  "rpc_provider lib p =
    \<lparr>pv_SendTx = provider_SendTx p, pv_Receipt = provider_Receipt p, pv_BlockNumber = provider_BlockNumber p,
     pv_Root = provider_Root lib p\<rparr>"

section \<open>Verification\<close>

definition check_receipt :: "ChainProof \<Rightarrow> Receipt option \<Rightarrow> chain_error + unit" where
  "check_receipt p r =
    (case r of
       None \<Rightarrow> Inl ErrNotConfirmed
     | Some r \<Rightarrow>
         if rc_Status r \<noteq> 1 then Inl ErrNotConfirmed
         else sbind (parseTxHash (rc_TransactionHash r)) (\<lambda>receiptHash.
           if receiptHash \<noteq> cp_TxHash p then Inl ErrReceiptMismatch
           else if rc_BlockNumber r \<noteq> cp_BlockNumber p then Inl ErrReceiptMismatch
           else Inr ()))"

definition verify_online :: "ChainProof \<Rightarrow> bytes \<Rightarrow> Provider \<Rightarrow> (chain_error + unit) option" where
  "verify_online p root prov =
    (case pv_BlockNumber prov of
       Inl e \<Rightarrow> Some (Inl e)
     | Inr head \<Rightarrow>
         if head < cp_BlockNumber p then Some (Inl ErrNotConfirmed)
         else (case pv_Receipt prov (''0x'' @ hex_EncodeToString (cp_TxHash p)) of
             None \<Rightarrow> None
           | Some (Inl e) \<Rightarrow> Some (Inl e)
           | Some (Inr r) \<Rightarrow> Some (
               sbind (check_receipt p r) (\<lambda>_.
               sbind (pv_Root prov (cp_Contract p) (FormatQuantity (Some (int (unat (cp_BlockNumber p)))))) (\<lambda>onChain.
                 if onChain \<noteq> root then Inl ErrRootMismatch else Inr ())))))"

definition verify_offline :: "ethlib \<Rightarrow> Anchor \<Rightarrow> bytes \<Rightarrow> ChainProof \<Rightarrow> chain_error + unit" where
  "verify_offline lib a root p =
    (case cp_ChainID p of
       None \<Rightarrow> Inl CC_ErrChainIDMismatch
     | Some c \<Rightarrow>
         (case an_ChainID a of
            None \<Rightarrow> Inl CC_Panic
          | Some c' \<Rightarrow>
              if c \<noteq> c' then Inl CC_ErrChainIDMismatch
              else if cp_Contract p \<noteq> an_Contract a then Inl CC_ErrChainIDMismatch
              else sbind (VerifyCommitmentProof lib p) (\<lambda>_.
                if cp_Root p \<noteq> root then Inl ErrRootMismatch else Inr ())))"

definition chain_Verify :: "ethlib \<Rightarrow> Anchor option \<Rightarrow> bytes \<Rightarrow> ChainProof \<Rightarrow> Provider option \<Rightarrow> (chain_error + unit) option" where
  "chain_Verify lib a root p prov =
    (case a of
       None \<Rightarrow> Some (Inl ErrNilAnchor)
     | Some anchor \<Rightarrow>
         (case verify_offline lib anchor root p of
            Inl e \<Rightarrow> Some (Inl e)
          | Inr _ \<Rightarrow> (case prov of None \<Rightarrow> Some (Inr ()) | Some pr \<Rightarrow> verify_online p root pr)))"

section \<open>Publishing\<close>

definition PublishSignature :: string where
  "PublishSignature = ''publishRoot(bytes32)''"

definition publishCallData :: "ethlib \<Rightarrow> bytes \<Rightarrow> chain_error + bytes" where
  "publishCallData lib root =
    sbind (lift_error CC_Abi (EncodeArgs [ABITypeBytes32] [V_Bytes32 root])) (\<lambda>body.
      Inr (FunctionSelector lib PublishSignature @ body))"

record PublishConfig =
  pc_Nonce :: u64
  pc_GasLimit :: u64
  pc_GasPrice :: "int option"

definition WithNonce :: "u64 \<Rightarrow> PublishConfig \<Rightarrow> PublishConfig" where
  "WithNonce n c = c\<lparr>pc_Nonce := n\<rparr>"

definition WithGasLimit :: "u64 \<Rightarrow> PublishConfig \<Rightarrow> PublishConfig" where
  "WithGasLimit n c = (if n > 0 then c\<lparr>pc_GasLimit := n\<rparr> else c)"

definition WithGasPrice :: "int option \<Rightarrow> PublishConfig \<Rightarrow> PublishConfig" where
  "WithGasPrice p c = (if p \<noteq> None then c\<lparr>pc_GasPrice := p\<rparr> else c)"

definition publish_tx :: "Anchor \<Rightarrow> PublishConfig \<Rightarrow> bytes \<Rightarrow> LegacyTx" where
  "publish_tx a cfg data =
    \<lparr>lt_ChainID = an_ChainID a, lt_Nonce = pc_Nonce cfg, lt_GasPrice = pc_GasPrice cfg, lt_GasLimit = pc_GasLimit cfg,
     lt_To = Some (an_Contract a), lt_Value = Some 0, lt_Data = data\<rparr>"

definition Publish ::
  "ethlib \<Rightarrow> Anchor option \<Rightarrow> bytes \<Rightarrow> Wallet option \<Rightarrow> Provider option \<Rightarrow> (PublishConfig \<Rightarrow> PublishConfig) list \<Rightarrow>
    (chain_error + Receipt) option" where
  "Publish lib a root w p opts =
    (case a of
       None \<Rightarrow> Some (Inl ErrNilAnchor)
     | Some anchor \<Rightarrow>
         if w = None then Some (Inl ErrNilWallet)
         else (case p of
             None \<Rightarrow> Some (Inl CC_NilProvider)
           | Some prov \<Rightarrow>
               (let cfg = foldl (\<lambda>c opt. opt c) \<lparr>pc_Nonce = 0, pc_GasLimit = 0, pc_GasPrice = None\<rparr> opts
                in if pc_GasLimit cfg = 0 then Some (Inl ErrMissingTxParams)
                   else if pc_GasPrice cfg = None then Some (Inl ErrMissingTxParams)
                   else (case publishCallData lib root of
                       Inl e \<Rightarrow> Some (Inl e)
                     | Inr data \<Rightarrow>
                         (case SignTx lib w (Some (TxLegacy (publish_tx anchor cfg data))) of
                            Inl e \<Rightarrow> Some (Inl (CC_Wallet e))
                          | Inr raw \<Rightarrow>
                              (case pv_SendTx prov raw of
                                 Inl e \<Rightarrow> Some (Inl e)
                               | Inr txHash \<Rightarrow>
                                   (case pv_Receipt prov txHash of
                                      None \<Rightarrow> None
                                    | Some (Inl e) \<Rightarrow> Some (Inl e)
                                    | Some (Inr None) \<Rightarrow> Some (Inl ErrNotConfirmed)
                                    | Some (Inr (Some r)) \<Rightarrow>
                                        Some (if rc_Status r \<noteq> 1 then Inl ErrNotConfirmed else Inr r))))))))"

section \<open>The checker of the engine\<close>

record Checker =
  ck_Anchor :: "Anchor option"
  ck_Provider :: "Provider option"

record BoundProof =
  bp_Anchor :: ChainProof
  bp_Attestation :: "InclusionProof option"
  bp_TerminalAuthority :: "InclusionProof option"

definition Checker_Verify ::
  "ethlib \<Rightarrow> (bytes \<Rightarrow> BoundProof option) \<Rightarrow> Checker \<Rightarrow> bytes \<Rightarrow> Inputs \<Rightarrow> (chain_error + unit) option" where
  "Checker_Verify lib decode c value input =
    (if in_Attestation input = None \<or> in_Chain input = [] \<or> hop_Authority (last (in_Chain input)) = None
     then Some (Inl ErrBindingMismatch)
     else (case decode value of
         None \<Rightarrow> Some (Inl CC_MalformedProof)
       | Some bound \<Rightarrow>
           (case chain_Verify lib (ck_Anchor c) (cp_Root (bp_Anchor bound)) (bp_Anchor bound) (ck_Provider c) of
              None \<Rightarrow> None
            | Some (Inl e) \<Rightarrow> Some (Inl e)
            | Some (Inr _) \<Rightarrow>
                (case (bp_Attestation bound, bp_TerminalAuthority bound) of
                   (Some att, Some auth) \<Rightarrow>
                     (case commitment_VerifyInclusion (cp_Root (bp_Anchor bound)) att (Some (AttestationObject (in_Attestation input))) of
                        Inl _ \<Rightarrow> Some (Inl ErrBindingMismatch)
                      | Inr _ \<Rightarrow>
                          (case commitment_VerifyInclusion (cp_Root (bp_Anchor bound)) auth
                                  (Some (AuthorityObject (hop_Authority (last (in_Chain input))))) of
                             Inl _ \<Rightarrow> Some (Inl ErrBindingMismatch)
                           | Inr _ \<Rightarrow> Some (Inr ())))
                 | _ \<Rightarrow> Some (Inl ErrBindingMismatch)))))"

section \<open>Signed proofs\<close>

lemma commitmentDomain_Inr:
  "commitmentDomain lib (Some a) = Inr h \<longleftrightarrow> (\<exists>c. an_ChainID a = Some c \<and> 0 \<le> c \<and> c < 2 ^ 256) \<and>
    h = eth_Keccak256 lib (domain_encoding lib
      \<lparr>ds_Name = ''TrustCommitment'', ds_Version = ''1'', ds_ChainID = an_ChainID a, ds_VerifyingContract = an_Contract a,
       ds_Salt = replicate 32 0\<rparr>)"
  by (auto simp: commitmentDomain_def domain_Hash_Inr)

lemma commitmentDomain_Inr_chain: "commitmentDomain lib (Some a) = Inr h \<Longrightarrow> an_ChainID a \<noteq> None"
  by (auto simp: commitmentDomain_Inr)

lemma commitmentStructHash_ok: "length root = 32 \<Longrightarrow> length txHash = 32 \<Longrightarrow> \<exists>h. commitmentStructHash lib root txHash bn = Inr h"
proof -
  assume len: "length root = 32" "length txHash = 32"
  have "int (unat bn) < 2 ^ 64" using unat_u64 [of bn] by (metis of_nat_less_iff of_nat_numeral of_nat_power)
  then have "int (unat bn) \<le> maxUint256" unfolding maxUint256_def by (rule order.trans [OF less_imp_le]) simp
  then have "list_all2 arg_ok [ABITypeBytes32, ABITypeBytes32, ABITypeUint256]
      [V_Bytes32 root, V_Bytes32 txHash, V_Big (Some (int (unat bn)))]"
    using len by (simp add: arg_ok_def big_in_range_def)
  moreover have "list_all wf_value [V_Bytes32 root, V_Bytes32 txHash, V_Big (Some (int (unat bn)))]"
    using len by (simp add: wf_value_def)
  ultimately obtain b where "EncodeArgs [ABITypeBytes32, ABITypeBytes32, ABITypeUint256]
      [V_Bytes32 root, V_Bytes32 txHash, V_Big (Some (int (unat bn)))] = Inr b"
    using EncodeArgs_succeeds by blast
  then show ?thesis by (simp add: commitmentStructHash_def lift_error_def)
qed

text \<open>A signed proof verifies under the key that signed it, whatever key that is.\<close>

lemma signed_proof_verifies:
  assumes law: "signs_recoverably lib priv" and hash: "\<And>m. length (eth_Keccak256 lib m) = 32"
    and made: "chain_Proof lib root (Some a) r (Some (NewWallet (Some priv))) = Inr p"
  shows "VerifyCommitmentProof lib p = Inr (address_of lib priv) \<and> verify_offline lib a root p = Inr () \<and> cp_Root p = root"
proof -
  obtain txHash dh sh sig where
    parts: "commitmentDomain lib (Some a) = Inr dh" "commitmentStructHash lib root txHash (rc_BlockNumber r) = Inr sh"
      "eip712_Sign lib (Some (NewWallet (Some priv))) dh sh = Inr sig" and
    p: "p = \<lparr>cp_Root = root, cp_ChainID = an_ChainID a, cp_Contract = an_Contract a, cp_TxHash = txHash,
           cp_BlockNumber = rc_BlockNumber r, cp_Signature = sig\<rparr>"
    using made by (auto simp: chain_Proof_def sbind_Inr_conv)
  have "eip712_Recover lib sig dh sh = Inr (address_of lib priv)" using eip712_roundtrip [OF law hash parts(3)] by blast
  moreover have "commitmentDomain lib (Some \<lparr>an_ChainID = an_ChainID a, an_Contract = an_Contract a\<rparr>) = Inr dh"
    using parts(1) by (simp add: commitmentDomain_def)
  ultimately have "VerifyCommitmentProof lib p = Inr (address_of lib priv)"
    using parts(2) by (simp add: VerifyCommitmentProof_def p)
  then show ?thesis using commitmentDomain_Inr_chain [OF parts(1)] by (auto simp: verify_offline_def p)
qed

lemma hex_DecodeString_encode: "hex_DecodeString (hex_EncodeToString b) = Some b"
  by (simp add: hex_Decode_spells spells_def list_all2_same)

lemma parseTxHash_encode: "length h = 32 \<Longrightarrow> parseTxHash (''0x'' @ hex_EncodeToString h) = Inr h"
  by (simp add: parseTxHash_def trim_prefix_def hex_DecodeString_encode)

text \<open>Any key signs a proof for any root.\<close>

lemma any_key_signs:
  assumes law: "signs_recoverably lib priv" and hash: "\<And>m. length (eth_Keccak256 lib m) = 32"
    and a: "an_ChainID a = Some c" "0 \<le> c" "c < 2 ^ 256" and root: "length root = 32"
  shows "\<exists>r p. chain_Proof lib root (Some a) r (Some (NewWallet (Some priv))) = Inr p"
proof -
  define r where "r = \<lparr>rc_Status = 1, rc_BlockHash = ''h'', rc_BlockNumber = 0,
    rc_TransactionHash = ''0x'' @ hex_EncodeToString (replicate 32 0),
    rc_TransactionIndex = 0, rc_GasUsed = 0, rc_ContractAddress = [], rc_Logs = []\<rparr>"
  obtain dh where "commitmentDomain lib (Some a) = Inr dh" using a by (simp add: commitmentDomain_Inr)
  moreover obtain sh where "commitmentStructHash lib root (replicate 32 0) 0 = Inr sh"
    using commitmentStructHash_ok [of root "replicate 32 0"] root by auto
  moreover have "parseTxHash (rc_TransactionHash r) = Inr (replicate 32 0)"
    unfolding r_def Receipt.simps by (rule parseTxHash_encode) simp
  moreover have "rc_BlockNumber r = 0" by (simp add: r_def)
  ultimately have "\<exists>p. chain_Proof lib root (Some a) r (Some (NewWallet (Some priv))) = Inr p"
    using eip712_Sign_ok [OF law hash] by (simp add: chain_Proof_def lift_error_def)
  then show ?thesis by blast
qed

text \<open>A commitment to two given leaves.\<close>

lemma two_leaves:
  "\<exists>cm. VerifyCommitment (Some cm) = Inr () \<and> cm_Size cm < 2 ^ 63 \<and> length (cm_Root cm) = 32 \<and>
     leaf \<in> set (cm_LeafHashes cm) \<and> leaf' \<in> set (cm_LeafHashes cm)"
proof -
  define leaves where "leaves = sorted_list_of_set {leaf, leaf'}"
  define cm where "cm = \<lparr>cm_Root = rfc_MTH leaves, cm_Size = int (length leaves), cm_LeafHashes = leaves,
    cm_Algorithm = AlgorithmRFC6962SHA256\<rparr>"
  have set: "set leaves = {leaf, leaf'}" unfolding leaves_def by (rule set_sorted_list_of_set) simp
  then have "leaves \<noteq> []" by auto
  moreover have "length leaves \<le> 2" unfolding leaves_def length_sorted_list_of_set by (simp add: card_insert_if)
  moreover have "sorted_wrt (<) leaves" unfolding leaves_def by (rule strict_sorted_list_of_set)
  moreover from \<open>leaves \<noteq> []\<close> have "length (rfc_MTH leaves) = 32" by (subst rfc_MTH.simps) simp
  ultimately show ?thesis
    using set by (intro exI [of _ cm]) (simp add: VerifyCommitment_Inr commits_to_def cm_def)
qed

section \<open>Properties\<close>

text \<open>C35: round trip of commitment proofs: the proof a wallet makes for a root under an anchor recovers to the address of the wallet
  and passes verification without a provider.\<close>

theorem chain_Proof_verifies:
  assumes "signs_recoverably lib priv" and "\<And>m. length (eth_Keccak256 lib m) = 32"
    and "chain_Proof lib root (Some a) r (Some (NewWallet (Some priv))) = Inr p"
  shows "VerifyCommitmentProof lib p = Inr (address_of lib priv) \<and> chain_Verify lib (Some a) root p None = Some (Inr ())"
  using signed_proof_verifies [OF assms] by (simp add: chain_Verify_def)

theorem chain_Proof_verifies_witness:
  "\<exists>r p. chain_Proof (demo_ethlib 1) (replicate 32 3) (Some \<lparr>an_ChainID = Some 1, an_Contract = replicate 20 1\<rparr>) r
        (Some (NewWallet (Some 5))) = Inr p \<and>
     VerifyCommitmentProof (demo_ethlib 1) p = Inr (address_of (demo_ethlib 1) 5) \<and>
     chain_Verify (demo_ethlib 1) (Some \<lparr>an_ChainID = Some 1, an_Contract = replicate 20 1\<rparr>) (replicate 32 3) p None = Some (Inr ())"
proof -
  have law: "signs_recoverably (demo_ethlib 1) 5" by (rule demo_ethlib_signs) simp
  obtain r p where p: "chain_Proof (demo_ethlib 1) (replicate 32 3) (Some \<lparr>an_ChainID = Some 1, an_Contract = replicate 20 1\<rparr>) r
      (Some (NewWallet (Some 5))) = Inr p"
    using any_key_signs [OF law, of "\<lparr>an_ChainID = Some 1, an_Contract = replicate 20 1\<rparr>" 1 "replicate 32 3"] by auto
  with chain_Proof_verifies [OF law _ p] show ?thesis by auto
qed

text \<open>C36: what verification with a provider establishes: it succeeds exactly when the proof names the chain and the contract of the
  anchor, its signature recovers to some address, its root is the expected one, the head has reached its block, the receipt of
  its transaction has status 1, the same hash and the same block, and the contract holds the root at that block.\<close>

theorem chain_Verify_online_exact:
  "chain_Verify lib (Some a) root p (Some prov) = Some (Inr ()) \<longleftrightarrow>
    (\<exists>c addr head r. cp_ChainID p = Some c \<and> an_ChainID a = Some c \<and> cp_Contract p = an_Contract a \<and>
      VerifyCommitmentProof lib p = Inr addr \<and> cp_Root p = root \<and>
      pv_BlockNumber prov = Inr head \<and> cp_BlockNumber p \<le> head \<and>
      pv_Receipt prov (''0x'' @ hex_EncodeToString (cp_TxHash p)) = Some (Inr (Some r)) \<and> rc_Status r = 1 \<and>
      parseTxHash (rc_TransactionHash r) = Inr (cp_TxHash p) \<and> rc_BlockNumber r = cp_BlockNumber p \<and>
      pv_Root prov (cp_Contract p) (FormatQuantity (Some (int (unat (cp_BlockNumber p))))) = Inr root)"
proof -
  have off: "verify_offline lib a root p = Inr u \<longleftrightarrow>
      (\<exists>c addr. cp_ChainID p = Some c \<and> an_ChainID a = Some c \<and> cp_Contract p = an_Contract a \<and>
        VerifyCommitmentProof lib p = Inr addr \<and> cp_Root p = root)" for u
    by (auto simp: verify_offline_def sbind_Inr_conv split: option.splits)
  have receipt: "check_receipt p x = Inr u \<longleftrightarrow>
      (\<exists>r. x = Some r \<and> rc_Status r = 1 \<and> parseTxHash (rc_TransactionHash r) = Inr (cp_TxHash p) \<and> rc_BlockNumber r = cp_BlockNumber p)"
    for x u by (auto simp: check_receipt_def sbind_Inr_conv split: option.splits)
  have on: "verify_online p root prov = Some (Inr ()) \<longleftrightarrow>
      (\<exists>head r. pv_BlockNumber prov = Inr head \<and> cp_BlockNumber p \<le> head \<and>
        pv_Receipt prov (''0x'' @ hex_EncodeToString (cp_TxHash p)) = Some (Inr r) \<and> check_receipt p r = Inr () \<and>
        pv_Root prov (cp_Contract p) (FormatQuantity (Some (int (unat (cp_BlockNumber p))))) = Inr root)"
    unfolding verify_online_def
    by (cases "pv_BlockNumber prov"; cases "pv_Receipt prov (''0x'' @ hex_EncodeToString (cp_TxHash p))")
      (auto simp: sbind_Inr_conv not_less split: sum.splits)
  have "chain_Verify lib (Some a) root p (Some prov) = Some (Inr ()) \<longleftrightarrow>
      verify_offline lib a root p = Inr () \<and> verify_online p root prov = Some (Inr ())"
    by (cases "verify_offline lib a root p") (simp_all add: chain_Verify_def)
  then show ?thesis unfolding off on receipt by blast
qed



end
