(* ===== verification/KeyWrap.thy ===== *)
theory KeyWrap
  imports Rlp
begin

text \<open>
  AES key wrap, \<^verbatim>\<open>src/crypto/envelope/aes_kw.go\<close>: the nested loops over the semiblocks, forwards in \<^verbatim>\<open>Wrap\<close> and backwards
  in \<^verbatim>\<open>Unwrap\<close>, with the counter on 64 bits. The block cipher is a parameter: its two directions for a key.
\<close>

unbundle bit_operations_syntax

section \<open>The operations\<close>

datatype envelope_error =
    ErrInvalidKEK
  | KW_ErrInvalidKey
  | ErrInvalidWrapped
  | ErrICVMismatch

record aes =
  aes_Encrypt :: "bytes \<Rightarrow> bytes \<Rightarrow> bytes"
  aes_Decrypt :: "bytes \<Rightarrow> bytes \<Rightarrow> bytes"

definition icv :: bytes where
  "icv = [0xA6, 0xA6, 0xA6, 0xA6, 0xA6, 0xA6, 0xA6, 0xA6]"

definition validateKEK :: "bytes \<Rightarrow> envelope_error + unit" where
  "validateKEK kek = (if length kek \<in> {16, 24, 32} then Inr () else Inl ErrInvalidKEK)"

definition validatePlaintextKey :: "bytes \<Rightarrow> envelope_error + unit" where
  "validatePlaintextKey key =
    (if length key < 16 then Inl KW_ErrInvalidKey
     else if length key mod 8 \<noteq> 0 then Inl KW_ErrInvalidKey
     else Inr ())"

definition validateWrappedKey :: "bytes \<Rightarrow> envelope_error + unit" where
  "validateWrappedKey key =
    (if length key < 24 then Inl ErrInvalidWrapped
     else if length key mod 8 \<noteq> 0 then Inl ErrInvalidWrapped
     else Inr ())"

text \<open>The byte at position \<open>7 - i\<close> is combined with byte \<open>i\<close> of the counter.\<close>

definition xorUint64 :: "bytes \<Rightarrow> u64 \<Rightarrow> bytes" where
  "xorUint64 b v = map (\<lambda>k. b ! k XOR ucast (drop_bit ((7 - k) * 8) v)) [0..<8]"

text \<open>The state of the loops: the register \<open>A\<close> and the semiblocks \<open>R\<close>.\<close>

definition wrap_step :: "aes \<Rightarrow> bytes \<Rightarrow> nat \<Rightarrow> nat \<Rightarrow> nat \<Rightarrow> bytes \<times> bytes list \<Rightarrow> bytes \<times> bytes list" where
  "wrap_step lib kek n j i st =
    (let (a, r) = st; out = aes_Encrypt lib kek (a @ r ! i); t = word_of_nat (j * n + i + 1)
     in (xorUint64 (take 8 out) t, r[i := drop 8 out]))"

definition unwrap_step :: "aes \<Rightarrow> bytes \<Rightarrow> nat \<Rightarrow> nat \<Rightarrow> nat \<Rightarrow> bytes \<times> bytes list \<Rightarrow> bytes \<times> bytes list" where
  "unwrap_step lib kek n j i st =
    (let (a, r) = st; t = word_of_nat (j * n + i + 1); out = aes_Decrypt lib kek (xorUint64 a t @ r ! i)
     in (take 8 out, r[i := drop 8 out]))"

text \<open>The rounds in the order of the loops.\<close>

definition rounds :: "nat \<Rightarrow> (nat \<times> nat) list" where
  "rounds n = concat (map (\<lambda>j. map (Pair j) [0..<n]) [0..<6])"

definition wrap_loop :: "aes \<Rightarrow> bytes \<Rightarrow> nat \<Rightarrow> bytes \<times> bytes list \<Rightarrow> bytes \<times> bytes list" where
  "wrap_loop lib kek n st = fold (\<lambda>(j, i). wrap_step lib kek n j i) (rounds n) st"

definition unwrap_loop :: "aes \<Rightarrow> bytes \<Rightarrow> nat \<Rightarrow> bytes \<times> bytes list \<Rightarrow> bytes \<times> bytes list" where
  "unwrap_loop lib kek n st =
    fold (\<lambda>(j, i). unwrap_step lib kek n j i) (concat (map (\<lambda>j. map (Pair j) (rev [0..<n])) (rev [0..<6]))) st"

definition semiblocks :: "bytes \<Rightarrow> nat \<Rightarrow> bytes list" where
  "semiblocks b n = map (\<lambda>i. take 8 (drop (i * 8) b)) [0..<n]"

definition Wrap :: "aes \<Rightarrow> bytes \<Rightarrow> bytes \<Rightarrow> envelope_error + bytes" where
  "Wrap lib kek plaintextKey =
    sbind (validateKEK kek) (\<lambda>_.
    sbind (validatePlaintextKey plaintextKey) (\<lambda>_.
      let n = length plaintextKey div 8;
          (a, r) = wrap_loop lib kek n (icv, semiblocks plaintextKey n)
      in Inr (a @ concat r)))"

definition Unwrap :: "aes \<Rightarrow> bytes \<Rightarrow> bytes \<Rightarrow> envelope_error + bytes" where
  "Unwrap lib kek wrappedKey =
    sbind (validateKEK kek) (\<lambda>_.
    sbind (validateWrappedKey wrappedKey) (\<lambda>_.
      let n = length wrappedKey div 8 - 1;
          (a, r) = unwrap_loop lib kek n (take 8 wrappedKey, semiblocks (drop 8 wrappedKey) n)
      in if a \<noteq> icv then Inl ErrICVMismatch else Inr (concat r)))"

section \<open>The loops are inverse to each other\<close>

text \<open>The documented behaviour of a block cipher for a key: both directions keep 16 bytes, and each inverts the other.\<close>

definition block_cipher :: "aes \<Rightarrow> bytes \<Rightarrow> bool" where
  "block_cipher lib kek \<longleftrightarrow>
    (\<forall>b. length b = 16 \<longrightarrow>
      length (aes_Encrypt lib kek b) = 16 \<and> length (aes_Decrypt lib kek b) = 16 \<and>
      aes_Decrypt lib kek (aes_Encrypt lib kek b) = b \<and> aes_Encrypt lib kek (aes_Decrypt lib kek b) = b)"

definition wf_state :: "nat \<Rightarrow> bytes \<times> bytes list \<Rightarrow> bool" where
  "wf_state n st \<longleftrightarrow> length (fst st) = 8 \<and> length (snd st) = n \<and> list_all (\<lambda>b. length b = 8) (snd st)"

lemma length_xorUint64 [simp]: "length (xorUint64 b v) = 8"
  by (simp add: xorUint64_def)

lemma xorUint64_twice: "length b = 8 \<Longrightarrow> xorUint64 (xorUint64 b v) v = b"
  by (rule nth_equalityI) (simp_all add: xorUint64_def xor.assoc)

lemma update_inverse: "i < length r \<Longrightarrow> r[i := x, i := r ! i] = r"
  by simp

lemma wrap_step_inverse:
  assumes "block_cipher lib kek" and "wf_state n st" and "i < n"
  shows "wf_state n (wrap_step lib kek n j i st)" and "unwrap_step lib kek n j i (wrap_step lib kek n j i st) = st"
proof -
  obtain a r where st: "st = (a, r)" by (cases st)
  define out where "out = aes_Encrypt lib kek (a @ r ! i)"
  have len: "length a = 8" "length r = n" "length (r ! i) = 8" "list_all (\<lambda>b. length b = 8) r"
    using assms(2,3) by (auto simp: wf_state_def st list_all_length)
  then have out: "length out = 16" "aes_Decrypt lib kek out = a @ r ! i"
    using assms(1) by (simp_all add: out_def block_cipher_def)
  then show "wf_state n (wrap_step lib kek n j i st)"
    using len assms(3) by (simp add: wrap_step_def st out_def [symmetric] wf_state_def list_all_length nth_list_update)
  show "unwrap_step lib kek n j i (wrap_step lib kek n j i st) = st"
    using out len assms(3) by (simp add: wrap_step_def unwrap_step_def st out_def [symmetric] xorUint64_twice)
qed

lemma unwrap_step_inverse:
  assumes "block_cipher lib kek" and "wf_state n st" and "i < n"
  shows "wf_state n (unwrap_step lib kek n j i st)" and "wrap_step lib kek n j i (unwrap_step lib kek n j i st) = st"
proof -
  obtain a r where st: "st = (a, r)" by (cases st)
  define t where "t = (word_of_nat (j * n + i + 1) :: u64)"
  define out where "out = aes_Decrypt lib kek (xorUint64 a t @ r ! i)"
  have len: "length a = 8" "length r = n" "length (r ! i) = 8" "list_all (\<lambda>b. length b = 8) r"
    using assms(2,3) by (auto simp: wf_state_def st list_all_length)
  then have out: "length out = 16" "aes_Encrypt lib kek out = xorUint64 a t @ r ! i"
    using assms(1) by (simp_all add: out_def block_cipher_def)
  have step: "unwrap_step lib kek n j i st = (take 8 out, r[i := drop 8 out])"
    by (simp only: unwrap_step_def st Let_def prod.case t_def out_def)
  show "wf_state n (unwrap_step lib kek n j i st)"
    using len out(1) assms(3) by (simp add: step wf_state_def list_all_length nth_list_update)
  have "wrap_step lib kek n j i (take 8 out, r[i := drop 8 out]) = (xorUint64 (xorUint64 a t) t, r[i := r ! i])"
    using out len assms(3) by (simp only: wrap_step_def Let_def prod.case t_def [symmetric]) simp
  then show "wrap_step lib kek n j i (unwrap_step lib kek n j i st) = st" using len(1) unfolding step by (simp add: st xorUint64_twice)
qed

text \<open>A loop whose steps have inverses is undone by the inverse steps in the opposite order.\<close>

lemma fold_inverse:
  assumes "\<And>x st. x \<in> set xs \<Longrightarrow> P st \<Longrightarrow> P (f x st) \<and> g x (f x st) = st" and "P st"
  shows "P (fold f xs st) \<and> fold g (rev xs) (fold f xs st) = st"
  using assms by (induction xs arbitrary: st) auto

lemma rounds_rev: "concat (map (\<lambda>j. map (Pair j) (rev [0..<n])) (rev [0..<6])) = rev (rounds n)"
  by (simp add: rounds_def rev_concat rev_map comp_def)

lemma rounds_index: "(j, i) \<in> set (rounds n) \<Longrightarrow> i < n"
  by (auto simp: rounds_def)

lemma loops_inverse:
  assumes "block_cipher lib kek" and "wf_state n st"
  shows "wf_state n (wrap_loop lib kek n st)" "unwrap_loop lib kek n (wrap_loop lib kek n st) = st"
    and "wf_state n (unwrap_loop lib kek n st)" "wrap_loop lib kek n (unwrap_loop lib kek n st) = st"
proof -
  have "wf_state n (wrap_loop lib kek n st) \<and> unwrap_loop lib kek n (wrap_loop lib kek n st) = st"
    unfolding wrap_loop_def unwrap_loop_def rounds_rev
    by (rule fold_inverse [of _ "wf_state n"]) (use wrap_step_inverse [OF assms(1)] rounds_index assms(2) in auto)
  then show "wf_state n (wrap_loop lib kek n st)" "unwrap_loop lib kek n (wrap_loop lib kek n st) = st" by blast+
  have "wf_state n (unwrap_loop lib kek n st) \<and>
      fold (\<lambda>(j, i). wrap_step lib kek n j i) (rev (rev (rounds n))) (unwrap_loop lib kek n st) = st"
    unfolding unwrap_loop_def rounds_rev
    by (rule fold_inverse [of _ "wf_state n"]) (use unwrap_step_inverse [OF assms(1)] rounds_index assms(2) in auto)
  then show "wf_state n (unwrap_loop lib kek n st)" "wrap_loop lib kek n (unwrap_loop lib kek n st) = st"
    by (simp_all add: wrap_loop_def)
qed

section \<open>Semiblocks\<close>

lemma semiblocks_Suc: "semiblocks b (Suc n) = take 8 b # semiblocks (drop 8 b) n"
  by (simp add: semiblocks_def upt_conv_Cons map_Suc_upt [symmetric] add.commute del: upt_Suc map_Suc_upt)

lemma concat_semiblocks: "length b = n * 8 \<Longrightarrow> concat (semiblocks b n) = b \<and> list_all (\<lambda>x. length x = 8) (semiblocks b n)"
  by (induction n arbitrary: b) (simp add: semiblocks_def, simp add: semiblocks_Suc)

lemma semiblocks_concat: "list_all (\<lambda>x. length x = 8) r \<Longrightarrow> semiblocks (concat r) (length r) = r"
  by (induction r) (simp_all add: semiblocks_Suc, simp add: semiblocks_def)

lemma length_concat_8: "list_all (\<lambda>x. length x = 8) r \<Longrightarrow> length (concat r) = length r * 8"
  by (induction r) auto

lemma length_semiblocks [simp]: "length (semiblocks b n) = n"
  by (simp add: semiblocks_def)

text \<open>A state of the loops as bytes, the register in front.\<close>

lemma wf_state_bytes: "wf_state n (a, r) \<Longrightarrow> length (a @ concat r) = 8 * (n + 1) \<and> semiblocks (concat r) n = r"
  using semiblocks_concat [of r] length_concat_8 [of r] by (simp add: wf_state_def)

lemma wf_state_semiblocks: "length a = 8 \<Longrightarrow> length b = n * 8 \<Longrightarrow> wf_state n (a, semiblocks b n)"
  using concat_semiblocks [of b n] by (simp add: wf_state_def)

section \<open>Properties\<close>

text \<open>C33: \<^verbatim>\<open>Unwrap\<close> accepts exactly what \<^verbatim>\<open>Wrap\<close> returns: for a cipher whose two directions are inverse, a wrapped key unwraps to the
  key, and any bytes that unwrap to a key are the wrapped form of that key.\<close>

theorem Unwrap_iff_Wrap:
  assumes "block_cipher lib kek"
  shows "Unwrap lib kek w = Inr k \<longleftrightarrow> Wrap lib kek k = Inr w"
proof
  assume w: "Wrap lib kek k = Inr w"
  define n where "n = length k div 8"
  have kek: "validateKEK kek = Inr ()" and k: "16 \<le> length k" "length k mod 8 = 0"
    using w by (auto simp: Wrap_def sbind_Inr_conv validatePlaintextKey_def split: if_splits)
  then have n: "length k = n * 8" "2 \<le> n" by (auto simp: n_def)
  obtain a r where ar: "wrap_loop lib kek n (icv, semiblocks k n) = (a, r)" by fastforce
  then have weq: "w = a @ concat r" using w by (auto simp: Wrap_def sbind_Inr_conv n_def [symmetric])
  have st: "wf_state n (icv, semiblocks k n)" using n by (intro wf_state_semiblocks) (simp_all add: icv_def)
  have wf: "wf_state n (a, r)" and inv: "unwrap_loop lib kek n (a, r) = (icv, semiblocks k n)"
    using loops_inverse(1,2) [OF assms st] by (simp_all add: ar)
  then have "length w = 8 * (n + 1)" "take 8 w = a" "semiblocks (drop 8 w) n = r"
    using wf_state_bytes [OF wf] by (simp_all add: weq wf_state_def)
  then show "Unwrap lib kek w = Inr k"
    using kek n inv concat_semiblocks [OF n(1)] by (simp add: Unwrap_def validateWrappedKey_def)
next
  assume k: "Unwrap lib kek w = Inr k"
  define n where "n = length w div 8 - 1"
  have kek: "validateKEK kek = Inr ()" and w: "24 \<le> length w" "length w mod 8 = 0"
    using k by (auto simp: Unwrap_def sbind_Inr_conv validateWrappedKey_def split: if_splits)
  then have n: "length w = 8 * (n + 1)" "2 \<le> n" by (auto simp: n_def)
  obtain a r where ar: "unwrap_loop lib kek n (take 8 w, semiblocks (drop 8 w) n) = (a, r)" by fastforce
  then have eq: "a = icv" "k = concat r"
    using k unfolding Unwrap_def Let_def n_def [symmetric] by (auto simp: sbind_Inr_conv split: if_splits)
  have st: "wf_state n (take 8 w, semiblocks (drop 8 w) n)" using n by (intro wf_state_semiblocks) simp_all
  have wf: "wf_state n (a, r)" and inv: "wrap_loop lib kek n (a, r) = (take 8 w, semiblocks (drop 8 w) n)"
    using loops_inverse(3,4) [OF assms st] by (simp_all add: ar)
  then have "length k = 8 * n" "semiblocks k n = r" using wf_state_bytes [OF wf] by (simp_all add: eq wf_state_def)
  moreover have "concat (semiblocks (drop 8 w) n) = drop 8 w" using n concat_semiblocks [of "drop 8 w" n] by simp
  ultimately show "Wrap lib kek k = Inr w"
    using kek n inv eq(1) by (simp add: Wrap_def validatePlaintextKey_def)
qed

text \<open>A concrete cipher: the two halves of the block change places.\<close>

definition demo_aes :: aes where
  "demo_aes = \<lparr>aes_Encrypt = (\<lambda>_ b. drop 8 b @ take 8 b), aes_Decrypt = (\<lambda>_ b. drop 8 b @ take 8 b)\<rparr>"

theorem Unwrap_iff_Wrap_witness:
  "\<exists>w. Wrap demo_aes (replicate 16 1) (replicate 16 2) = Inr w \<and> Unwrap demo_aes (replicate 16 1) w = Inr (replicate 16 2)"
proof -
  have "block_cipher demo_aes (replicate 16 1)" by (simp add: block_cipher_def demo_aes_def)
  from Unwrap_iff_Wrap [OF this] have "Unwrap demo_aes (replicate 16 1) w = Inr (replicate 16 2) \<longleftrightarrow>
      Wrap demo_aes (replicate 16 1) (replicate 16 2) = Inr w" for w .
  moreover have "\<exists>w. Wrap demo_aes (replicate 16 1) (replicate 16 2) = Inr w"
    by (simp add: Wrap_def validateKEK_def validatePlaintextKey_def split: prod.splits)
  ultimately show ?thesis by blast
qed

end
