(* ===== verification/Der.thy ===== *)
theory Der
  imports Keys
begin

text \<open>
  DER-encoded signatures, \<^verbatim>\<open>src/kms/der/der.go\<close>: parsing with the canonicity check, and normalisation to a low \<open>s\<close>. What the code
  uses of \<^verbatim>\<open>encoding/asn1\<close> is written out: the length octets with their minimality rules and their limit of 31 bits, elements
  of a known tag, integers, bit strings and object identifiers. An identifier octet in the multi-byte form names a tag above
  30, which the code never asks for, so it is refused like any other tag.
\<close>

section \<open>Elements\<close>

fun length_octets :: "nat \<Rightarrow> nat \<Rightarrow> bytes \<Rightarrow> (nat \<times> bytes) option" where
  "length_octets 0 acc b = Some (acc, b)"
| "length_octets (Suc k) acc [] = None"
| "length_octets (Suc k) acc (x # b) =
    (if acc \<ge> 2 ^ 23 then None
     else let n = acc * 256 + unat x in if n = 0 then None else length_octets k n b)"

fun der_length :: "bytes \<Rightarrow> (nat \<times> bytes) option" where
  "der_length [] = None"
| "der_length (x # b) =
    (if unat x < 128 then Some (unat x, b)
     else if unat x = 128 then None
     else (case length_octets (unat x - 128) 0 b of
         None \<Rightarrow> None
       | Some (n, r) \<Rightarrow> if n < 128 then None else Some (n, r)))"

fun der_element :: "byte \<Rightarrow> bytes \<Rightarrow> (bytes \<times> bytes) option" where
  "der_element tag [] = None"
| "der_element tag (t # b) =
    (if t \<noteq> tag then None
     else (case der_length b of
         None \<Rightarrow> None
       | Some (n, r) \<Rightarrow> if length r < n then None else Some (take n r, drop n r)))"

definition der_header :: "nat \<Rightarrow> bytes" where
  "der_header n = (if n < 128 then [word_of_nat n] else word_of_nat (128 + length (big_bytes n)) # big_bytes n)"

definition der_encode :: "byte \<Rightarrow> bytes \<Rightarrow> bytes" where
  "der_encode tag x = tag # der_header (length x) @ x"

section \<open>Integers\<close>

text \<open>\<^verbatim>\<open>checkInteger\<close> and \<^verbatim>\<open>parseBigInt\<close>; the encoder is only called on positive numbers.\<close>

definition der_int :: "bytes \<Rightarrow> int option" where
  "der_int b =
    (if b = [] then None
     else if length b > 1 \<and> (b ! 0 = 0 \<and> unat (b ! 1) < 128 \<or> b ! 0 = 0xff \<and> unat (b ! 1) \<ge> 128) then None
     else Some (if unat (b ! 0) \<ge> 128 then int (be_val b) - 256 ^ length b else int (be_val b)))"

definition der_int_bytes :: "nat \<Rightarrow> bytes" where
  "der_int_bytes n =
    (let b = big_bytes n in if b = [] then [0] else if unat (b ! 0) \<ge> 128 then 0 # b else b)"

section \<open>Signatures\<close>

datatype der_error = ErrInvalidDER

text \<open>\<^verbatim>\<open>asn1.Unmarshal\<close> into the two fields: elements after the second one inside the sequence are not looked at.\<close>

definition asn1_Unmarshal_sig :: "bytes \<Rightarrow> ((int \<times> int) \<times> bytes) option" where
  "asn1_Unmarshal_sig der =
    (case der_element 0x30 der of
       None \<Rightarrow> None
     | Some (body, rest) \<Rightarrow>
         (case der_element 0x02 body of
            None \<Rightarrow> None
          | Some (rb, body') \<Rightarrow>
              (case der_int rb of
                 None \<Rightarrow> None
               | Some r \<Rightarrow>
                   (case der_element 0x02 body' of
                      None \<Rightarrow> None
                    | Some (sb, _) \<Rightarrow> (case der_int sb of None \<Rightarrow> None | Some s \<Rightarrow> Some ((r, s), rest))))))"

definition asn1_Marshal_sig :: "nat \<Rightarrow> nat \<Rightarrow> bytes" where
  "asn1_Marshal_sig r s = der_encode 0x30 (der_encode 0x02 (der_int_bytes r) @ der_encode 0x02 (der_int_bytes s))"

definition ParseECDSASignature :: "bytes \<Rightarrow> der_error + bytes \<times> bytes" where
  "ParseECDSASignature derBytes =
    (if derBytes = [] then Inl ErrInvalidDER
     else (case asn1_Unmarshal_sig derBytes of
         None \<Rightarrow> Inl ErrInvalidDER
       | Some ((r, s), rest) \<Rightarrow>
           if rest \<noteq> [] then Inl ErrInvalidDER
           else if r < 0 \<or> s < 0 then Inl ErrInvalidDER
           else if r = 0 \<or> s = 0 then Inl ErrInvalidDER
           else if r \<ge> int secp256k1_N \<or> s \<ge> int secp256k1_N then Inl ErrInvalidDER
           else if asn1_Marshal_sig (nat r) (nat s) \<noteq> derBytes then Inl ErrInvalidDER
           else Inr (big_bytes (nat r), big_bytes (nat s))))"

definition der_secp256k1HalfN :: nat where
  "der_secp256k1HalfN = secp256k1_N div 2"

text \<open>The bytes of a difference are those of its magnitude.\<close>

definition NormalizeLowS :: "bytes \<Rightarrow> bytes \<times> bool" where
  "NormalizeLowS s =
    (let sInt = be_val s
     in if sInt > der_secp256k1HalfN then (big_bytes (nat \<bar>int secp256k1_N - int sInt\<bar>), True) else (s, False))"

section \<open>Length octets\<close>

lemma length_octets_Some:
  assumes "length_octets k acc b = Some (n, r)" and "acc < 2 ^ 31"
  shows "n < 2 ^ 31 \<and> (\<exists>c. length c = k \<and> b = c @ r \<and> n = acc * 256 ^ k + be_val c \<and> (acc = 0 \<longrightarrow> minimal c))"
  using assms
proof (induction k acc b rule: length_octets.induct)
  case (3 k acc x b)
  define m where "m = acc * 256 + unat x"
  have acc: "acc < 2 ^ 23" "m \<noteq> 0" and rec: "length_octets k m b = Some (n, r)"
    using "3.prems"(1) by (simp_all add: m_def Let_def split: if_splits)
  have m: "m < 2 ^ 31" using acc(1) unat_byte [of x] by (simp add: m_def)
  obtain c where c: "length c = k" "b = c @ r" "n = m * 256 ^ k + be_val c" "n < 2 ^ 31"
    using "3.IH" [OF acc(1) [unfolded not_le [symmetric]] m_def acc(2) rec m] by blast
  have "n = acc * 256 ^ Suc k + be_val (x # c)" by (simp add: c m_def be_val_Cons algebra_simps)
  moreover have "minimal (x # c)" if "acc = 0" using that acc(2) by (auto simp: m_def minimal_def)
  ultimately show ?case using c by (intro conjI exI [of _ "x # c"]) simp_all
qed (auto simp: minimal_def)

lemma length_octets_append:
  assumes "acc * 256 ^ length c + be_val c < 2 ^ 31" and "acc = 0 \<Longrightarrow> minimal c"
  shows "length_octets (length c) acc (c @ r) = Some (acc * 256 ^ length c + be_val c, r)"
  using assms
proof (induction c arbitrary: acc)
  case (Cons x c)
  have step: "(acc * 256 + unat x) * 256 ^ length c + be_val c = acc * 256 ^ length (x # c) + be_val (x # c)"
    by (simp add: be_val_Cons algebra_simps)
  have "acc * 256 \<le> acc * 256 ^ length (x # c)" by (intro mult_le_mono2) simp
  then have "acc * 256 < 2 ^ 31" using Cons.prems(1) by linarith
  then have small: "acc < 2 ^ 23" by simp
  have pos: "acc * 256 + unat x \<noteq> 0" using Cons.prems(2) by (auto simp: minimal_def unat_eq_0)
  have "length_octets (length c) (acc * 256 + unat x) (c @ r) = Some ((acc * 256 + unat x) * 256 ^ length c + be_val c, r)"
    by (rule Cons.IH) (use Cons.prems(1) pos in \<open>simp_all only: step not_False_eq_True\<close>)
  then show ?case using small pos step by simp
qed simp

lemma der_length_iff: "der_length b = Some (n, r) \<longleftrightarrow> n < 2 ^ 31 \<and> b = der_header n @ r"
proof
  assume b: "der_length b = Some (n, r)"
  then obtain x b' where x: "b = x # b'" by (cases b) auto
  show "n < 2 ^ 31 \<and> b = der_header n @ r"
  proof (cases "unat x < 128")
    case True
    then show ?thesis using b x by (auto simp: der_header_def)
  next
    case False
    then have oct: "length_octets (unat x - 128) 0 b' = Some (n, r)" "\<not> n < 128"
      using b x by (auto split: if_splits option.splits)
    then obtain c where c: "length c = unat x - 128" "b' = c @ r" "n = be_val c" "minimal c" "n < 2 ^ 31"
      using length_octets_Some [OF oct(1)] by auto
    have "big_bytes n = c" using c by (simp add: big_bytes_be_val)
    then show ?thesis using c oct(2) False x by (simp add: der_header_def)
  qed
next
  assume b: "n < 2 ^ 31 \<and> b = der_header n @ r"
  show "der_length b = Some (n, r)"
  proof (cases "n < 128")
    case True
    then show ?thesis using b by (simp add: der_header_def unat_of_nat_byte)
  next
    case False
    define c where "c = big_bytes n"
    have "length c \<le> 4" using b unfolding c_def by (intro length_big_bytes) simp
    then have u: "unat (word_of_nat (128 + length c) :: byte) = 128 + length c" by (intro unat_of_nat_byte) simp
    have "0 < length c" using False by (simp add: c_def)
    have "length_octets (length c) 0 (c @ r) = Some (n, r)"
      using length_octets_append [of 0 c r] b by (simp add: c_def)
    then show ?thesis using b False u \<open>0 < length c\<close> by (simp add: der_header_def c_def [symmetric])
  qed
qed

lemma der_element_iff:
  "der_element tag b = Some (x, r) \<longleftrightarrow> length x < 2 ^ 31 \<and> b = der_encode tag x @ r"
proof (cases b)
  case (Cons t b')
  have "der_element tag b = Some (x, r) \<longleftrightarrow>
      t = tag \<and> (\<exists>n q. der_length b' = Some (n, q) \<and> \<not> length q < n \<and> x = take n q \<and> r = drop n q)"
    using Cons by (auto split: option.splits)
  also have "\<dots> \<longleftrightarrow> t = tag \<and> length x < 2 ^ 31 \<and> b' = der_header (length x) @ x @ r"
    unfolding der_length_iff by (auto simp: not_less)
  finally show ?thesis using Cons by (auto simp: der_encode_def)
qed (simp add: der_encode_def)

section \<open>Canonical signatures\<close>

lemma der_int_bytes_inverse: "0 < n \<Longrightarrow> der_int (der_int_bytes n) = Some (int n)"
proof -
  assume "0 < n"
  then obtain x b where b: "big_bytes n = x # b" by (metis big_bytes_Nil less_not_refl3 neq_Nil_conv)
  then have x: "x \<noteq> 0" using minimal_big_bytes [of n] by (simp add: minimal_def)
  have val: "be_val (x # b) = n" by (simp add: b [symmetric])
  show ?thesis
  proof (cases "unat x \<ge> 128")
    case True
    then have "der_int_bytes n = 0 # x # b" by (simp add: der_int_bytes_def b)
    then show ?thesis using True val by (simp add: der_int_def be_val_Cons [of 0])
  next
    case False
    then have "der_int_bytes n = x # b" "x \<noteq> 0xff" by (auto simp: der_int_bytes_def b)
    then show ?thesis using False x val by (simp add: der_int_def)
  qed
qed

lemma length_der_int_bytes: "n < 256 ^ k \<Longrightarrow> 0 < k \<Longrightarrow> length (der_int_bytes n) \<le> Suc k"
  using length_big_bytes [of n k] by (simp add: der_int_bytes_def Let_def)

lemma length_der_encode: "length x < 128 \<Longrightarrow> length (der_encode tag x) = length x + 2"
  by (simp add: der_encode_def der_header_def)

lemma Unmarshal_Marshal_sig:
  assumes "0 < r" "0 < s" and "r < 256 ^ 32" "s < 256 ^ 32"
  shows "asn1_Unmarshal_sig (asn1_Marshal_sig r s) = Some ((int r, int s), [])"
proof -
  let ?r = "der_int_bytes r" and ?s = "der_int_bytes s"
  have len: "length ?r \<le> 33" "length ?s \<le> 33" using length_der_int_bytes [of _ 32] assms(3,4) by simp_all
  define body where "body = der_encode 0x02 ?r @ der_encode 0x02 ?s"
  have "length body < 2 ^ 31" using len by (simp add: body_def length_der_encode)
  then have "der_element 0x30 (asn1_Marshal_sig r s) = Some (body, [])"
    by (simp add: der_element_iff asn1_Marshal_sig_def body_def)
  moreover have "der_element 0x02 body = Some (?r, der_encode 0x02 ?s)" "der_element 0x02 (der_encode 0x02 ?s) = Some (?s, [])"
    using len by (simp_all add: der_element_iff body_def)
  ultimately show ?thesis using assms by (simp add: asn1_Unmarshal_sig_def der_int_bytes_inverse)
qed

lemma ParseECDSASignature_Inr:
  "ParseECDSASignature der = Inr (rb, sb) \<longleftrightarrow>
    (\<exists>r s. 0 < r \<and> r < secp256k1_N \<and> 0 < s \<and> s < secp256k1_N \<and>
      der = asn1_Marshal_sig r s \<and> rb = big_bytes r \<and> sb = big_bytes s)"
proof
  assume "ParseECDSASignature der = Inr (rb, sb)"
  then obtain r s where "asn1_Unmarshal_sig der = Some ((r, s), [])" "0 < r" "0 < s" "r < int secp256k1_N" "s < int secp256k1_N"
      "asn1_Marshal_sig (nat r) (nat s) = der" "rb = big_bytes (nat r)" "sb = big_bytes (nat s)"
    by (auto simp: ParseECDSASignature_def split: if_splits option.splits)
  then show "\<exists>r s. 0 < r \<and> r < secp256k1_N \<and> 0 < s \<and> s < secp256k1_N \<and>
      der = asn1_Marshal_sig r s \<and> rb = big_bytes r \<and> sb = big_bytes s"
    by (intro exI [of _ "nat r"] exI [of _ "nat s"]) auto
next
  assume "\<exists>r s. 0 < r \<and> r < secp256k1_N \<and> 0 < s \<and> s < secp256k1_N \<and>
      der = asn1_Marshal_sig r s \<and> rb = big_bytes r \<and> sb = big_bytes s"
  then obtain r s where rs: "0 < r" "r < secp256k1_N" "0 < s" "s < secp256k1_N" "der = asn1_Marshal_sig r s"
      "rb = big_bytes r" "sb = big_bytes s" by blast
  moreover have "asn1_Unmarshal_sig der = Some ((int r, int s), [])"
    using rs secp256k1_N_bound by (auto intro: Unmarshal_Marshal_sig)
  moreover have "der \<noteq> []" by (simp add: rs(5) asn1_Marshal_sig_def der_encode_def)
  ultimately show "ParseECDSASignature der = Inr (rb, sb)" by (simp add: ParseECDSASignature_def)
qed

section \<open>Properties\<close>

text \<open>C38: a signature is accepted exactly when it is the canonical encoding of two scalars between 1 and the group order minus 1, and
  the bytes returned are those scalars without leading zeros. No other byte string is accepted, so the encoding is not
  malleable.\<close>

theorem ParseECDSASignature_exact:
  "ParseECDSASignature der = Inr (rb, sb) \<longleftrightarrow>
    (\<exists>r s. 0 < r \<and> r < secp256k1_N \<and> 0 < s \<and> s < secp256k1_N \<and>
      der = asn1_Marshal_sig r s \<and> rb = big_bytes r \<and> sb = big_bytes s)"
  by (rule ParseECDSASignature_Inr)

text \<open>\<^verbatim>\<open>NormalizeLowS\<close> on the scalar of an accepted signature gives a non-zero scalar of the lower half that is \<open>s\<close> or its negation
  modulo the group order, tells which, and leaves its own result alone.\<close>

theorem NormalizeLowS_low:
  assumes "ParseECDSASignature der = Inr (rb, sb)" and "NormalizeLowS sb = (nb, flipped)"
  shows "0 < be_val nb \<and> \<not> IsOverHalfOrder (be_val nb) \<and> minimal nb \<and> NormalizeLowS nb = (nb, False) \<and>
    (flipped \<longleftrightarrow> IsOverHalfOrder (be_val sb)) \<and>
    (if flipped then be_val nb + be_val sb = secp256k1_N else nb = sb)"
proof -
  obtain s where s: "0 < s" "s < secp256k1_N" "sb = big_bytes s" using assms(1) unfolding ParseECDSASignature_Inr by blast
  have neg: "nat \<bar>int secp256k1_N - int s\<bar> = secp256k1_N - s" using s(2) by linarith
  show ?thesis
  proof (cases "s > secp256k1_N div 2")
    case True
    then have "nb = big_bytes (secp256k1_N - s)" "flipped"
      using assms(2) s neg by (auto simp: NormalizeLowS_def der_secp256k1HalfN_def Let_def)
    moreover have "secp256k1_N - s \<le> secp256k1_N div 2" using True by linarith
    ultimately show ?thesis using True s by (simp add: NormalizeLowS_def der_secp256k1HalfN_def IsOverHalfOrder_def Let_def)
  next
    case False
    then show ?thesis
      using assms(2) s by (auto simp: NormalizeLowS_def der_secp256k1HalfN_def IsOverHalfOrder_def Let_def)
  qed
qed

theorem NormalizeLowS_low_witness:
  "NormalizeLowS (big_bytes (secp256k1_N - 1)) = (big_bytes 1, True) \<and> NormalizeLowS (big_bytes 1) = (big_bytes 1, False)"
proof -
  have parse: "ParseECDSASignature (asn1_Marshal_sig 1 (secp256k1_N - 1)) = Inr (big_bytes 1, big_bytes (secp256k1_N - 1))"
    by (subst ParseECDSASignature_Inr, intro exI [of _ 1] exI [of _ "secp256k1_N - 1"]) (simp add: secp256k1_N_def)
  have norm: "NormalizeLowS (big_bytes (secp256k1_N - 1)) = (big_bytes 1, True)"
    by (simp add: NormalizeLowS_def der_secp256k1HalfN_def secp256k1_N_def)
  show ?thesis using NormalizeLowS_low [OF parse norm] norm by simp
qed

end
