(* ===== verification/Kms.thy ===== *)
theory Kms
  imports Der Jwk Ethereum
begin

text \<open>
  Remote signing keys, \<^verbatim>\<open>src/kms\<close>: public keys in the DER form of X.509 (\<^verbatim>\<open>pubkey.go\<close>), the search for the recovery identifier of a
  signature (\<^verbatim>\<open>recovery.go\<close>) and the adapter that hashes a message before it goes to the remote signer (\<^verbatim>\<open>signer.go\<close>,
  \<^verbatim>\<open>kms_signer.go\<close>). The remote signer is an interface, here a record of its answers; a cancelled context is an argument.
\<close>

section \<open>Object identifiers and bit strings\<close>

text \<open>\<^verbatim>\<open>parseBase128Int\<close> and \<^verbatim>\<open>parseObjectIdentifier\<close> of \<^verbatim>\<open>encoding/asn1\<close>.\<close>

fun base128 :: "nat \<Rightarrow> nat \<Rightarrow> bytes \<Rightarrow> (nat \<times> bytes) option" where
  "base128 acc shifted [] = None"
| "base128 acc shifted (x # b) =
    (if shifted = 5 then None
     else if shifted = 0 \<and> x = 0x80 then None
     else (let n = acc * 128 + unat x mod 128
           in if unat x < 128 then (if n > 2 ^ 31 - 1 then None else Some (n, b))
              else base128 n (Suc shifted) b))"

lemma base128_shorter: "base128 acc k b = Some (n, r) \<Longrightarrow> length r < length b"
  by (induction acc k b rule: base128.induct) (fastforce simp: Let_def split: if_splits)+

function oid_rest :: "bytes \<Rightarrow> nat list option" where
  "oid_rest b =
    (if b = [] then Some []
     else (case base128 0 0 b of
         None \<Rightarrow> None
       | Some (n, r) \<Rightarrow> (case oid_rest r of None \<Rightarrow> None | Some ns \<Rightarrow> Some (n # ns))))"
  by pat_completeness auto
termination by (relation "measure length") (auto dest: base128_shorter)

declare oid_rest.simps [simp del]

definition parse_oid :: "bytes \<Rightarrow> nat list option" where
  "parse_oid b =
    (if b = [] then None
     else (case base128 0 0 b of
         None \<Rightarrow> None
       | Some (v, r) \<Rightarrow>
           (case oid_rest r of
              None \<Rightarrow> None
            | Some ns \<Rightarrow> Some (if v < 80 then v div 40 # v mod 40 # ns else 2 # (v - 80) # ns))))"

text \<open>\<^verbatim>\<open>asn1.Unmarshal\<close> into an object identifier, and a bit string as its bits and its bytes.\<close>

definition asn1_Unmarshal_oid :: "bytes \<Rightarrow> (nat list \<times> bytes) option" where
  "asn1_Unmarshal_oid b =
    (case der_element 0x06 b of
       None \<Rightarrow> None
     | Some (x, rest) \<Rightarrow> (case parse_oid x of None \<Rightarrow> None | Some oid \<Rightarrow> Some (oid, rest)))"

definition parse_bit_string :: "bytes \<Rightarrow> (nat \<times> bytes) option" where
  "parse_bit_string b =
    (if b = [] then None
     else (let padding = unat (b ! 0)
           in if padding > 7 \<or> length b = 1 \<and> padding > 0 \<or> take_bit padding (last b) \<noteq> 0 then None
              else Some ((length b - 1) * 8 - padding, tl b)))"

section \<open>Public keys\<close>

datatype kms_error = ErrInvalidPublicKeyDER | ErrNoRecoveryID | ErrUnknownSignPath | KErrContext | KErrRemote

definition oidECPublicKey :: "nat list" where "oidECPublicKey = [1, 2, 840, 10045, 2, 1]"
definition oidEd25519 :: "nat list" where "oidEd25519 = [1, 3, 101, 112]"
definition oidP256 :: "nat list" where "oidP256 = [1, 2, 840, 10045, 3, 1, 7]"
definition oidSecp256k1 :: "nat list" where "oidSecp256k1 = [1, 3, 132, 0, 10]"
definition oidP384 :: "nat list" where "oidP384 = [1, 3, 132, 0, 34]"
definition ed25519KeySize :: nat where "ed25519KeySize = 32"

definition der_key :: "key_error + 'a \<Rightarrow> kms_error + 'a" where
  "der_key r = (case r of Inl _ \<Rightarrow> Inl ErrInvalidPublicKeyDER | Inr x \<Rightarrow> Inr x)"

definition parseEd25519PublicKey :: "bytes \<Rightarrow> kms_error + PublicKey" where
  "parseEd25519PublicKey pt =
    (if length pt \<noteq> ed25519KeySize then Inl ErrInvalidPublicKeyDER else der_key (ed25519_NewPublicKey pt))"

definition parseNISTPublicKey :: "Curve \<Rightarrow> HashAlg \<Rightarrow> bytes \<Rightarrow> kms_error + PublicKey" where
  "parseNISTPublicKey curve hash pt =
    (let size = (curve_BitSize curve + 7) div 8
     in if length pt \<noteq> 1 + 2 * size then Inl ErrInvalidPublicKeyDER
        else if pt ! 0 \<noteq> 0x04 then Inl ErrInvalidPublicKeyDER
        else (let x = be_val (take size (drop 1 pt)); y = be_val (drop (1 + size) pt)
              in if x \<ge> curve_P curve \<or> y \<ge> curve_P curve then Inl ErrInvalidPublicKeyDER
                 else if \<not> IsOnCurve curve x y then Inl ErrInvalidPublicKeyDER
                 else der_key (ecdsa_NewPublicKey (Some \<lparr>ec_curve = curve, ec_X = x, ec_Y = y\<rparr>) hash)))"

definition parseSecp256k1PublicKey :: "clib \<Rightarrow> bytes \<Rightarrow> kms_error + PublicKey" where
  "parseSecp256k1PublicKey lib pt =
    (if length pt \<noteq> 65 then Inl ErrInvalidPublicKeyDER
     else if pt ! 0 \<noteq> 0x04 then Inl ErrInvalidPublicKeyDER
     else (let x = take 32 (drop 1 pt); y = drop 33 pt; prefix = (if even (unat (y ! 31)) then 0x02 else 0x03)
           in sbind (der_key (secp256k1_NewPublicKey lib (prefix # x))) (\<lambda>pub.
                case pub of
                  PubSecp256k1 p \<Rightarrow> if BytesUncompressed p \<noteq> pt then Inl ErrInvalidPublicKeyDER else Inr pub
                | _ \<Rightarrow> Inl ErrInvalidPublicKeyDER)))"

definition parseECPublicKey :: "clib \<Rightarrow> nat list \<Rightarrow> bytes \<Rightarrow> kms_error + PublicKey" where
  "parseECPublicKey lib curveOID pt =
    (if curveOID = oidSecp256k1 then parseSecp256k1PublicKey lib pt
     else if curveOID = oidP256 then parseNISTPublicKey P256 SHA256 pt
     else if curveOID = oidP384 then parseNISTPublicKey P384 SHA384 pt
     else Inl ErrInvalidPublicKeyDER)"

text \<open>
  \<^verbatim>\<open>asn1.Unmarshal\<close> into the two fields: the content of the algorithm element, which the code requires to be a sequence, and
  the bit string. Elements after the second one inside the outer sequence are not looked at.
\<close>

definition asn1_Unmarshal_spki :: "bytes \<Rightarrow> ((bytes \<times> nat \<times> bytes) \<times> bytes) option" where
  "asn1_Unmarshal_spki der =
    (case der_element 0x30 der of
       None \<Rightarrow> None
     | Some (body, rest) \<Rightarrow>
         (case der_element 0x30 body of
            None \<Rightarrow> None
          | Some (alg, body') \<Rightarrow>
              (case der_element 0x03 body' of
                 None \<Rightarrow> None
               | Some (bs, _) \<Rightarrow>
                   (case parse_bit_string bs of None \<Rightarrow> None | Some (bits, pt) \<Rightarrow> Some ((alg, bits, pt), rest)))))"

definition ParsePublicKeyDER :: "clib \<Rightarrow> bytes \<Rightarrow> kms_error + PublicKey" where
  "ParsePublicKeyDER lib derBytes =
    (if derBytes = [] then Inl ErrInvalidPublicKeyDER
     else (case asn1_Unmarshal_spki derBytes of
         None \<Rightarrow> Inl ErrInvalidPublicKeyDER
       | Some ((alg, bits, pt), rest) \<Rightarrow>
           if rest \<noteq> [] then Inl ErrInvalidPublicKeyDER
           else if bits \<noteq> length pt * 8 then Inl ErrInvalidPublicKeyDER
           else (case asn1_Unmarshal_oid alg of
               None \<Rightarrow> Inl ErrInvalidPublicKeyDER
             | Some (algOID, algRest) \<Rightarrow>
                 if algOID = oidEd25519 then
                   (if algRest \<noteq> [] then Inl ErrInvalidPublicKeyDER else parseEd25519PublicKey pt)
                 else if algOID = oidECPublicKey then
                   (case asn1_Unmarshal_oid algRest of
                      None \<Rightarrow> Inl ErrInvalidPublicKeyDER
                    | Some (curveOID, paramsRest) \<Rightarrow>
                        if paramsRest \<noteq> [] then Inl ErrInvalidPublicKeyDER else parseECPublicKey lib curveOID pt)
                 else Inl ErrInvalidPublicKeyDER)))"

section \<open>Recovery identifiers\<close>

text \<open>The public key may be a nil pointer; a failed recovery is skipped.\<close>

fun recID_loop :: "ethlib \<Rightarrow> bytes \<Rightarrow> bytes \<Rightarrow> point \<Rightarrow> byte list \<Rightarrow> kms_error + byte" where
  "recID_loop lib sig digest pub [] = Inl ErrNoRecoveryID"
| "recID_loop lib sig digest pub (recID # ids) =
    (case RecoverPubKey lib sig digest recID of
       Inl _ \<Rightarrow> recID_loop lib sig digest pub ids
     | Inr recovered \<Rightarrow>
         if secp256k1_Equal (PubSecp256k1 recovered) (PubSecp256k1 pub) then Inr recID
         else recID_loop lib sig digest pub ids)"

definition ComputeRecoveryID :: "ethlib \<Rightarrow> bytes \<Rightarrow> bytes \<Rightarrow> point option \<Rightarrow> kms_error + byte" where
  "ComputeRecoveryID lib sig digest pub =
    (case pub of None \<Rightarrow> Inl ErrNoRecoveryID | Some p \<Rightarrow> recID_loop lib sig digest p [0, 1, 2, 3])"

section \<open>The signer\<close>

datatype SignPath = SignPathJOSE | SignPathEVM | SignPathOther int

record SignOptions =
  so_Path :: SignPath

record RemoteSigner =
  rs_Sign :: "bytes \<Rightarrow> SignOptions \<Rightarrow> kms_error + bytes"
  rs_PublicKey :: "kms_error + point"

record KMSSigner =
  ks_remote :: RemoteSigner
  ks_path :: SignPath

definition NewKMSSigner :: "RemoteSigner \<Rightarrow> SignPath \<Rightarrow> KMSSigner" where
  "NewKMSSigner remote path = \<lparr>ks_remote = remote, ks_path = path\<rparr>"

definition KMSSigner_PublicKey :: "KMSSigner \<Rightarrow> kms_error + point" where
  "KMSSigner_PublicKey s = rs_PublicKey (ks_remote s)"

definition KMSSigner_Sign :: "ethlib \<Rightarrow> bool \<Rightarrow> KMSSigner \<Rightarrow> bytes \<Rightarrow> kms_error + bytes" where
  "KMSSigner_Sign lib cancelled s digest =
    (if cancelled then Inl KErrContext
     else (case ks_path s of
         SignPathJOSE \<Rightarrow> rs_Sign (ks_remote s) (sha256_sum digest) \<lparr>so_Path = ks_path s\<rparr>
       | SignPathEVM \<Rightarrow> rs_Sign (ks_remote s) (Keccak256_Sum lib digest) \<lparr>so_Path = ks_path s\<rparr>
       | SignPathOther _ \<Rightarrow> Inl ErrUnknownSignPath))"

section \<open>Object identifiers have one encoding\<close>

definition high_bit :: "byte \<Rightarrow> byte" where
  "high_bit x = word_of_nat (128 + unat x mod 128)"

fun b128 :: "nat \<Rightarrow> bytes" where
  "b128 n = (if n < 128 then [word_of_nat n] else map high_bit (b128 (n div 128)) @ [word_of_nat (n mod 128)])"

declare b128.simps [simp del]

lemma unat_high_bit: "unat (high_bit x) = 128 + unat x mod 128"
  unfolding high_bit_def by (rule unat_of_nat_byte) simp

lemma high_bit_idem [simp]: "high_bit (high_bit x) = high_bit x"
  by (simp add: high_bit_def [of "high_bit x"] unat_high_bit) (simp add: high_bit_def)

lemma byte_low: "128 \<le> unat (x :: byte) \<Longrightarrow> unat x mod 128 = unat x - 128"
  using unat_byte [of x] by (simp add: le_mod_geq)

lemma high_bit_id: "128 \<le> unat x \<Longrightarrow> high_bit x = x"
proof -
  assume "128 \<le> unat x"
  then have "128 + unat x mod 128 = unat x" using byte_low [of x] by simp
  then show ?thesis by (simp only: high_bit_def unat_word_inverse)
qed

lemma b128_snoc: "0 < n \<Longrightarrow> d < 128 \<Longrightarrow> b128 (n * 128 + d) = map high_bit (b128 n) @ [word_of_nat d]"
  by (subst b128.simps) simp

lemma base128_encoding:
  assumes "base128 acc k b = Some (n, r)" and "acc = 0 \<longleftrightarrow> k = 0"
  shows "\<exists>c. b = c @ r \<and> b128 n = (if acc = 0 then [] else map high_bit (b128 acc)) @ c"
  using assms
proof (induction acc k b rule: base128.induct)
  case (2 acc k x b)
  define m where "m = acc * 128 + unat x mod 128"
  have x: "\<not> (k = 0 \<and> x = 0x80)" "k \<noteq> 5" using "2.prems"(1) by (auto split: if_splits)
  have m: "b128 m = (if acc = 0 then [] else map high_bit (b128 acc)) @ [word_of_nat (unat x mod 128)]"
    by (simp add: m_def b128_snoc) (simp add: b128.simps)
  show ?case
  proof (cases "unat x < 128")
    case True
    then have "n = m" "r = b" using "2.prems"(1) x by (auto simp: m_def Let_def split: if_splits)
    then show ?thesis using True m by (intro exI [of _ "[x]"]) simp
  next
    case False
    have "unat x \<noteq> 128" if "k = 0" using x(1) that by (metis unat_word_inverse of_nat_numeral)
    then have pos: "m \<noteq> 0" using "2.prems"(2) False byte_low [of x] by (auto simp: m_def)
    have rec: "base128 m (Suc k) b = Some (n, r)" using "2.prems"(1) x False by (auto simp: m_def Let_def split: if_splits)
    obtain c where c: "b = c @ r" "b128 n = map high_bit (b128 m) @ c"
      using "2.IH" [OF x(2) x(1) m_def False rec] pos by auto
    have "high_bit (word_of_nat (unat x mod 128)) = x"
      using False high_bit_id [of x] by (simp add: high_bit_def unat_of_nat_byte)
    then show ?thesis using c m by (intro exI [of _ "x # c"]) auto
  qed
qed simp

lemma oid_rest_encoding: "oid_rest b = Some ns \<Longrightarrow> b = concat (map b128 ns)"
proof (induction b arbitrary: ns rule: oid_rest.induct)
  case (1 b)
  show ?case
  proof (cases "b = []")
    case False
    then obtain n r ms where o: "base128 0 0 b = Some (n, r)" "oid_rest r = Some ms" "ns = n # ms"
      using "1.prems" by (auto simp: oid_rest.simps [of b] split: option.splits)
    have "r = concat (map b128 ms)" using "1.IH" [OF False o(1) refl o(2)] .
    then show ?thesis using base128_encoding [OF o(1)] o(3) by auto
  qed (use "1.prems" in \<open>simp add: oid_rest.simps\<close>)
qed

lemma parse_oid_encoding: "parse_oid b = Some (u # v # ns) \<Longrightarrow> b = b128 (40 * u + v) @ concat (map b128 ns)"
  using base128_encoding [of 0 0 b] oid_rest_encoding
  by (fastforce simp: parse_oid_def split: if_splits option.splits)

section \<open>The accepted encodings\<close>

fun oid_bytes :: "nat list \<Rightarrow> bytes" where
  "oid_bytes (u # v # ns) = b128 (40 * u + v) @ concat (map b128 ns)"
| "oid_bytes _ = []"

lemmas known_oid_defs = oidECPublicKey_def oidEd25519_def oidP256_def oidSecp256k1_def oidP384_def

definition known_oids :: "nat list list" where
  "known_oids = [oidECPublicKey, oidEd25519, oidP256, oidSecp256k1, oidP384]"

lemma oid_bytes_known:
  "oid_bytes oidECPublicKey = [42, 134, 72, 206, 61, 2, 1]" "oid_bytes oidEd25519 = [43, 101, 112]"
  "oid_bytes oidP256 = [42, 134, 72, 206, 61, 3, 1, 7]" "oid_bytes oidSecp256k1 = [43, 129, 4, 0, 10]"
  "oid_bytes oidP384 = [43, 129, 4, 0, 34]"
  by (simp_all add: known_oid_defs b128.simps high_bit_def)

lemma parse_oid_known:
  "parse_oid [42, 134, 72, 206, 61, 2, 1] = Some oidECPublicKey" "parse_oid [43, 101, 112] = Some oidEd25519"
  "parse_oid [42, 134, 72, 206, 61, 3, 1, 7] = Some oidP256" "parse_oid [43, 129, 4, 0, 10] = Some oidSecp256k1"
  "parse_oid [43, 129, 4, 0, 34] = Some oidP384"
  by (simp_all add: known_oid_defs parse_oid_def oid_rest.simps)

lemma known_oid:
  assumes "oid \<in> set known_oids"
  shows "parse_oid b = Some oid \<longleftrightarrow> b = oid_bytes oid" "length (oid_bytes oid) < 128"
proof -
  have o: "parse_oid (oid_bytes oid) = Some oid" "length (oid_bytes oid) < 128" "length oid > 1"
    using assms by (auto simp: known_oids_def oid_bytes_known parse_oid_known) (auto simp: known_oid_defs)
  from o(3) obtain u v ns where oid: "oid = u # v # ns" by (cases oid rule: oid_bytes.cases) auto
  have "b = oid_bytes oid" if "parse_oid b = Some oid"
    using parse_oid_encoding that unfolding oid oid_bytes.simps by blast
  then show "parse_oid b = Some oid \<longleftrightarrow> b = oid_bytes oid" using o(1) by blast
  show "length (oid_bytes oid) < 128" using o by simp
qed

lemma Unmarshal_oid_known:
  assumes "oid \<in> set known_oids"
  shows "asn1_Unmarshal_oid b = Some (oid, rest) \<longleftrightarrow> b = der_encode 0x06 (oid_bytes oid) @ rest"
proof -
  have "asn1_Unmarshal_oid b = Some (oid, rest) \<longleftrightarrow> (\<exists>x. der_element 0x06 b = Some (x, rest) \<and> parse_oid x = Some oid)"
    by (auto simp: asn1_Unmarshal_oid_def split: option.splits)
  then show ?thesis using known_oid [OF assms] by (auto simp: der_element_iff)
qed

lemma whole_bytes: "parse_bit_string bs = Some (length pt * 8, pt) \<longleftrightarrow> bs = 0 # pt"
proof (cases bs)
  case (Cons p q)
  have "unat p = 0 \<longleftrightarrow> p = 0" by (rule unat_eq_0)
  then show ?thesis using Cons by (cases q) (auto simp: parse_bit_string_def Let_def)
qed (simp add: parse_bit_string_def)

fun key_oids :: "PublicKey \<Rightarrow> nat list list" where
  "key_oids (PubEd25519 _) = [oidEd25519]"
| "key_oids (PubSecp256k1 _) = [oidECPublicKey, oidSecp256k1]"
| "key_oids (PubEcdsa (Some k) _) = [oidECPublicKey, if ec_curve k = P256 then oidP256 else oidP384]"
| "key_oids _ = []"

fun key_point :: "PublicKey \<Rightarrow> bytes" where
  "key_point (PubEd25519 k) = k"
| "key_point (PubSecp256k1 p) = BytesUncompressed p"
| "key_point (PubEcdsa (Some k) _) =
    (let n = curve_BitSize (ec_curve k) div 8 in 0x04 # be_bytes n (ec_X k) @ be_bytes n (ec_Y k))"
| "key_point _ = []"

fun key_ok :: "clib \<Rightarrow> PublicKey \<Rightarrow> bool" where
  "key_ok lib (PubEd25519 k) \<longleftrightarrow> length k = 32"
| "key_ok lib (PubSecp256k1 p) \<longleftrightarrow> lib_secp_ParsePubKey lib (secp256k1_Bytes p) = Some p"
| "key_ok lib (PubEcdsa (Some k) hash) \<longleftrightarrow>
    (ec_curve k, hash) \<in> {(P256, SHA256), (P384, SHA384)} \<and> IsOnCurve (ec_curve k) (ec_X k) (ec_Y k)"
| "key_ok lib _ \<longleftrightarrow> False"

lemma curve_P_fits: "c \<noteq> CurveOther \<Longrightarrow> curve_P c < 256 ^ (curve_BitSize c div 8)"
  by (cases c) simp_all

lemma parseNIST_Inr:
  assumes "(c, hash) \<in> {(P256, SHA256), (P384, SHA384)}"
  shows "parseNISTPublicKey c hash pt = Inr key \<longleftrightarrow>
    (\<exists>x y. IsOnCurve c x y \<and> key = PubEcdsa (Some \<lparr>ec_curve = c, ec_X = x, ec_Y = y\<rparr>) hash \<and> pt = key_point key)"
proof -
  define n where "n = curve_BitSize c div 8"
  have n: "(curve_BitSize c + 7) div 8 = n" using assms by (auto simp: n_def)
  have new: "der_key (ecdsa_NewPublicKey (Some \<lparr>ec_curve = c, ec_X = x, ec_Y = y\<rparr>) hash) =
      Inr (PubEcdsa (Some \<lparr>ec_curve = c, ec_X = x, ec_Y = y\<rparr>) hash)" for x y
    using assms by (auto simp: der_key_def ecdsa_NewPublicKey_def validateCurveHash_def)
  have fits: "x < 256 ^ n" "y < 256 ^ n" if "IsOnCurve c x y" for x y
    using that curve_P_fits [of c] assms by (auto simp: IsOnCurve_def n_def intro: less_trans)
  have parse: "parseNISTPublicKey c hash pt = Inr key \<longleftrightarrow>
      length pt = 1 + 2 * n \<and> pt ! 0 = 0x04 \<and> IsOnCurve c (be_val (take n (drop 1 pt))) (be_val (drop (1 + n) pt)) \<and>
      key = PubEcdsa (Some \<lparr>ec_curve = c, ec_X = be_val (take n (drop 1 pt)), ec_Y = be_val (drop (1 + n) pt)\<rparr>) hash"
    unfolding parseNISTPublicKey_def Let_def n new by (auto simp: IsOnCurve_def)
  show ?thesis
  proof
    assume p: "parseNISTPublicKey c hash pt = Inr key"
    then have len: "length pt = 1 + 2 * n" by (simp add: parse)
    then have "length (take n (drop 1 pt)) = n" "length (drop (1 + n) pt) = n" by simp_all
    then have "be_bytes n (be_val (take n (drop 1 pt))) = take n (drop 1 pt)" "be_bytes n (be_val (drop (1 + n) pt)) = drop (1 + n) pt"
      by (metis be_bytes_be_val)+
    moreover have "pt = pt ! 0 # take n (drop 1 pt) @ drop (1 + n) pt"
      using len by (cases pt) (simp_all add: drop_Suc)
    ultimately show "\<exists>x y. IsOnCurve c x y \<and> key = PubEcdsa (Some \<lparr>ec_curve = c, ec_X = x, ec_Y = y\<rparr>) hash \<and> pt = key_point key"
      using p unfolding parse by (auto simp: n_def Let_def)
  next
    assume "\<exists>x y. IsOnCurve c x y \<and> key = PubEcdsa (Some \<lparr>ec_curve = c, ec_X = x, ec_Y = y\<rparr>) hash \<and> pt = key_point key"
    then obtain x y where xy: "IsOnCurve c x y" "key = PubEcdsa (Some \<lparr>ec_curve = c, ec_X = x, ec_Y = y\<rparr>) hash" "pt = key_point key"
      by blast
    then have "pt = 0x04 # be_bytes n x @ be_bytes n y" by (simp add: n_def Let_def)
    then show "parseNISTPublicKey c hash pt = Inr key"
      unfolding parse using xy(1,2) fits [OF xy(1)] by (simp add: be_val_be_bytes)
  qed
qed

lemma parseEd25519_Inr: "parseEd25519PublicKey pt = Inr key \<longleftrightarrow> length pt = 32 \<and> key = PubEd25519 pt"
  by (auto simp: parseEd25519PublicKey_def ed25519KeySize_def ed25519_NewPublicKey_def der_key_def)

lemma even_last_byte: "0 < k \<Longrightarrow> even (unat (last (be_bytes k n))) \<longleftrightarrow> even n"
proof -
  assume "0 < k"
  then obtain j where "k = Suc j" by (cases k) auto
  then have "last (be_bytes k n) = word_of_nat n" by (simp add: be_bytes_def last_map last_rev del: upt_Suc)
  moreover have "even (n mod 256) \<longleftrightarrow> even n" by (rule dvd_mod_iff) simp
  ultimately show ?thesis by (simp add: unat_of_nat)
qed

lemma parseSecp256k1_Inr:
  "parseSecp256k1PublicKey lib pt = Inr key \<longleftrightarrow>
    (\<exists>p. lib_secp_ParsePubKey lib (secp256k1_Bytes p) = Some p \<and> key = PubSecp256k1 p \<and> pt = BytesUncompressed p)"
proof -
  define prefix :: byte where "prefix = (if even (unat (drop 33 pt ! 31)) then 0x02 else 0x03)"
  have parse: "parseSecp256k1PublicKey lib pt = Inr key \<longleftrightarrow> length pt = 65 \<and> pt ! 0 = 0x04 \<and>
      (\<exists>p. lib_secp_ParsePubKey lib (prefix # take 32 (drop 1 pt)) = Some p \<and> key = PubSecp256k1 p \<and> pt = BytesUncompressed p)"
    unfolding parseSecp256k1PublicKey_def Let_def prefix_def [symmetric]
    by (auto simp: sbind_Inr_conv der_key_def secp256k1_NewPublicKey_def split: option.splits)
  have "length pt = 65 \<and> pt ! 0 = 0x04 \<and> prefix # take 32 (drop 1 pt) = secp256k1_Bytes p" if pt: "pt = BytesUncompressed p" for p
  proof -
    have "drop 33 pt = be_bytes 32 (snd p)" by (simp add: pt BytesUncompressed_def)
    moreover have "be_bytes 32 (snd p) ! 31 = last (be_bytes 32 (snd p))"
      using last_conv_nth [of "be_bytes 32 (snd p)"] by (simp flip: length_0_conv)
    ultimately show ?thesis
      using even_last_byte [of 32 "snd p"] by (simp add: prefix_def secp256k1_Bytes_def) (simp add: pt BytesUncompressed_def)
  qed
  then show ?thesis unfolding parse by auto
qed

lemma key_ok_cases:
  assumes "key_ok lib key"
  obtains (Ed25519) k where "key = PubEd25519 k" "length k = 32"
  | (Secp256k1) p where "key = PubSecp256k1 p" "lib_secp_ParsePubKey lib (secp256k1_Bytes p) = Some p"
  | (Nist) c hash x y where "key = PubEcdsa (Some \<lparr>ec_curve = c, ec_X = x, ec_Y = y\<rparr>) hash"
      "(c, hash) \<in> {(P256, SHA256), (P384, SHA384)}" "IsOnCurve c x y"
  using assms
proof (cases "(lib, key)" rule: key_ok.cases)
  case (3 _ k hash)
  then show ?thesis using assms Nist [of "ec_curve k" "ec_X k" "ec_Y k" hash] by simp
qed (use assms that in auto)

lemma oids_distinct: "distinct known_oids"
  by (simp add: known_oids_def known_oid_defs)

lemma parseEC_Inr:
  "parseECPublicKey lib oid pt = Inr key \<longleftrightarrow> key_ok lib key \<and> key_oids key = [oidECPublicKey, oid] \<and> pt = key_point key"
proof
  assume "parseECPublicKey lib oid pt = Inr key"
  then show "key_ok lib key \<and> key_oids key = [oidECPublicKey, oid] \<and> pt = key_point key"
    by (auto simp: parseECPublicKey_def parseSecp256k1_Inr parseNIST_Inr split: if_splits)
next
  assume k: "key_ok lib key \<and> key_oids key = [oidECPublicKey, oid] \<and> pt = key_point key"
  then show "parseECPublicKey lib oid pt = Inr key"
    using oids_distinct k
    by (auto simp: parseECPublicKey_def parseSecp256k1_Inr parseNIST_Inr known_oids_def elim!: key_ok_cases split: if_splits)
qed

definition key_algorithm :: "PublicKey \<Rightarrow> bytes" where
  "key_algorithm key = concat (map (\<lambda>oid. der_encode 0x06 (oid_bytes oid)) (key_oids key))"

definition spki_body :: "PublicKey \<Rightarrow> bytes \<Rightarrow> bytes" where
  "spki_body key surplus = der_encode 0x30 (key_algorithm key) @ der_encode 0x03 (0 # key_point key) @ surplus"

lemma der_encode_longer: "length x < length (der_encode tag x)"
  by (simp add: der_encode_def)

lemma Unmarshal_spki_whole:
  "asn1_Unmarshal_spki der = Some ((alg, length pt * 8, pt), []) \<longleftrightarrow>
    (\<exists>surplus. let body = der_encode 0x30 alg @ der_encode 0x03 (0 # pt) @ surplus
      in length body < 2 ^ 31 \<and> der = der_encode 0x30 body)" (is "?l \<longleftrightarrow> ?r")
proof
  assume ?l
  then obtain body bs body' surplus where e: "der_element 0x30 der = Some (body, [])" "der_element 0x30 body = Some (alg, body')"
      "der_element 0x03 body' = Some (bs, surplus)" "parse_bit_string bs = Some (length pt * 8, pt)"
    by (auto simp: asn1_Unmarshal_spki_def split: option.splits)
  then have "bs = 0 # pt" by (simp only: whole_bytes)
  then show ?r using e(1-3) unfolding der_element_iff by (intro exI [of _ surplus]) (simp add: Let_def)
next
  assume ?r
  then obtain surplus where r: "length (der_encode 0x30 alg @ der_encode 0x03 (0 # pt) @ surplus) < 2 ^ 31"
      "der = der_encode 0x30 (der_encode 0x30 alg @ der_encode 0x03 (0 # pt) @ surplus)"
    by (auto simp: Let_def)
  then have "length alg < 2 ^ 31" "length (0 # pt) < 2 ^ 31"
    using der_encode_longer [of alg "0x30"] der_encode_longer [of "0 # pt" "0x03"] by simp_all
  then have "der_element 0x30 (der_encode 0x30 alg @ der_encode 0x03 (0 # pt) @ surplus) = Some (alg, der_encode 0x03 (0 # pt) @ surplus)"
      "der_element 0x03 (der_encode 0x03 (0 # pt) @ surplus) = Some (0 # pt, surplus)"
    by (simp_all only: der_element_iff simp_thms)
  moreover have "der_element 0x30 der = Some (der_encode 0x30 alg @ der_encode 0x03 (0 # pt) @ surplus, [])"
    using r by (simp only: der_element_iff append_Nil2 simp_thms)
  moreover have "parse_bit_string (0 # pt) = Some (length pt * 8, pt)" by (simp only: whole_bytes)
  ultimately show ?l by (simp add: asn1_Unmarshal_spki_def)
qed

lemma algorithm_key:
  "(case asn1_Unmarshal_oid alg of
      None \<Rightarrow> Inl ErrInvalidPublicKeyDER
    | Some (algOID, algRest) \<Rightarrow>
        if algOID = oidEd25519 then (if algRest \<noteq> [] then Inl ErrInvalidPublicKeyDER else parseEd25519PublicKey pt)
        else if algOID = oidECPublicKey then
          (case asn1_Unmarshal_oid algRest of
             None \<Rightarrow> Inl ErrInvalidPublicKeyDER
           | Some (curveOID, paramsRest) \<Rightarrow>
               if paramsRest \<noteq> [] then Inl ErrInvalidPublicKeyDER else parseECPublicKey lib curveOID pt)
        else Inl ErrInvalidPublicKeyDER) = Inr key \<longleftrightarrow>
    key_ok lib key \<and> alg = key_algorithm key \<and> pt = key_point key" (is "?parse = Inr key \<longleftrightarrow> ?spec")
proof -
  have ne: "oidECPublicKey \<noteq> oidEd25519" and known: "oidECPublicKey \<in> set known_oids" "oidEd25519 \<in> set known_oids"
    using oids_distinct by (auto simp: known_oids_def)
  have "?parse = Inr key \<longleftrightarrow>
      asn1_Unmarshal_oid alg = Some (oidEd25519, []) \<and> parseEd25519PublicKey pt = Inr key \<or>
      (\<exists>rest oid. asn1_Unmarshal_oid alg = Some (oidECPublicKey, rest) \<and> asn1_Unmarshal_oid rest = Some (oid, []) \<and>
        parseECPublicKey lib oid pt = Inr key)"
    using ne by (auto split: option.splits if_splits)
  moreover have curve: "asn1_Unmarshal_oid rest = Some (oid, []) \<and> parseECPublicKey lib oid pt = Inr key \<longleftrightarrow>
      rest = der_encode 0x06 (oid_bytes oid) \<and> key_ok lib key \<and> key_oids key = [oidECPublicKey, oid] \<and> pt = key_point key"
    for rest oid
  proof -
    have "key_oids key = [oidECPublicKey, oid] \<Longrightarrow> oid \<in> set known_oids"
      by (cases key rule: key_oids.cases) (auto simp: known_oids_def split: if_splits)
    then show ?thesis unfolding parseEC_Inr using Unmarshal_oid_known [of oid rest "[]"] by (auto simp only: append_Nil2)
  qed
  ultimately have parse: "?parse = Inr key \<longleftrightarrow>
      alg = der_encode 0x06 (oid_bytes oidEd25519) \<and> length pt = 32 \<and> key = PubEd25519 pt \<or>
      (\<exists>oid. alg = der_encode 0x06 (oid_bytes oidECPublicKey) @ der_encode 0x06 (oid_bytes oid) \<and>
        key_ok lib key \<and> key_oids key = [oidECPublicKey, oid] \<and> pt = key_point key)"
    unfolding parseEd25519_Inr Unmarshal_oid_known [OF known(1)] Unmarshal_oid_known [OF known(2)] append_Nil2 curve by blast
  show ?thesis
  proof (cases "key_ok lib key")
    case True
    then show ?thesis unfolding parse by (cases rule: key_ok_cases) (auto simp: key_algorithm_def)
  qed (use parse in auto)
qed

section \<open>The recovery search\<close>

definition recovers_to :: "ethlib \<Rightarrow> bytes \<Rightarrow> bytes \<Rightarrow> point \<Rightarrow> byte \<Rightarrow> bool" where
  "recovers_to lib sig digest pub i \<longleftrightarrow>
    (\<exists>p. RecoverPubKey lib sig digest i = Inr p \<and> secp256k1_Bytes p = secp256k1_Bytes pub)"

lemma recID_loop_find:
  "recID_loop lib sig digest pub ids =
    (case find (recovers_to lib sig digest pub) ids of None \<Rightarrow> Inl ErrNoRecoveryID | Some i \<Rightarrow> Inr i)"
  by (induction ids) (auto simp: recovers_to_def secp256k1_Equal_def split: sum.splits)

lemma byte_below_4: "(i :: byte) < 4 \<longleftrightarrow> i \<in> {0, 1, 2, 3}"
proof
  assume "i < 4"
  then have "unat i < 4" by (simp add: word_less_nat_alt)
  then have "unat i \<in> {0, 1, 2, 3}" by auto
  then show "i \<in> {0, 1, 2, 3}" by (auto simp: word_unat_eq_iff)
qed auto

lemma recovers_below_4: "recovers_to lib sig digest pub i \<Longrightarrow> i < 4"
  by (auto simp: recovers_to_def RecoverPubKey_def word_less_nat_alt word_le_nat_alt split: if_splits)

section \<open>Properties\<close>

text \<open>C39: \<^verbatim>\<open>ParsePublicKeyDER\<close> accepts exactly one encoding of the algorithm and the point of each admissible key: an Ed25519 key of 32
  bytes, a point the curve package accepts on secp256k1, or a point on P-256 or P-384 bound to its hash. But it accepts any
  bytes after the two elements inside the outer sequence, so the encoding of a key is not unique.\<close>

theorem ParsePublicKeyDER_exact:
  "ParsePublicKeyDER lib der = Inr key \<longleftrightarrow>
    key_ok lib key \<and> (\<exists>surplus. length (spki_body key surplus) < 2 ^ 31 \<and> der = der_encode 0x30 (spki_body key surplus))"
proof -
  have "ParsePublicKeyDER lib der = Inr key \<longleftrightarrow>
      der \<noteq> [] \<and> (\<exists>alg pt. asn1_Unmarshal_spki der = Some ((alg, length pt * 8, pt), []) \<and>
        key_ok lib key \<and> alg = key_algorithm key \<and> pt = key_point key)"
    unfolding algorithm_key [symmetric, of lib key] ParsePublicKeyDER_def
    by (auto split: option.splits if_splits)
  then show ?thesis unfolding Unmarshal_spki_whole by (auto simp: Let_def spki_body_def der_encode_def)
qed

text \<open>\<^verbatim>\<open>ComputeRecoveryID\<close> returns the smallest identifier that recovers the key in its compressed form, and fails exactly when no
  byte at all does: the four it tries are all that can.\<close>

theorem ComputeRecoveryID_exact:
  "(ComputeRecoveryID lib sig digest (Some pub) = Inr i \<longleftrightarrow>
     recovers_to lib sig digest pub i \<and> (\<nexists>j. j < i \<and> recovers_to lib sig digest pub j)) \<and>
   (ComputeRecoveryID lib sig digest (Some pub) = Inl ErrNoRecoveryID \<longleftrightarrow> (\<nexists>j. recovers_to lib sig digest pub j))"
proof -
  let ?R = "recovers_to lib sig digest pub"
  have small: "?R j \<Longrightarrow> j \<in> {0, 1, 2, 3}" for j using recovers_below_4 byte_below_4 by blast
  have id: "ComputeRecoveryID lib sig digest (Some pub) =
      (if ?R 0 then Inr 0 else if ?R 1 then Inr 1 else if ?R 2 then Inr 2 else if ?R 3 then Inr 3 else Inl ErrNoRecoveryID)"
    by (simp add: ComputeRecoveryID_def recID_loop_find)
  have "ComputeRecoveryID lib sig digest (Some pub) = Inr i \<longleftrightarrow> ?R i \<and> (\<forall>j \<in> {0, 1, 2, 3}. ?R j \<longrightarrow> \<not> j < i)"
    unfolding id using small [of i] by (auto simp: word_less_nat_alt split: if_splits)
  moreover have "ComputeRecoveryID lib sig digest (Some pub) = Inl ErrNoRecoveryID \<longleftrightarrow> (\<forall>j \<in> {0, 1, 2, 3}. \<not> ?R j)"
    unfolding id by (auto split: if_splits)
  ultimately show ?thesis using small by blast
qed

end
