(* ===== verification/Didpkh.thy ===== *)
theory Didpkh
  imports Did Ethereum
begin

text \<open>
  Resolution of did:pkh identifiers, \<^verbatim>\<open>src/identity/didpkh/didpkh.go\<close>: CAIP-10 account identifiers of the namespace eip155 and
  the document they stand for. The account address is checked by a third implementation of the address spelling rules,
  which is compared with the one of \<^verbatim>\<open>Ethereum.thy\<close>.
\<close>

section \<open>Account identifiers\<close>

datatype pkh_error =
    ErrWrongMethod
  | ErrDIDURLNotSupported
  | ErrInvalidComponentCount
  | ErrUnsupportedNamespace
  | ErrInvalidChainReference
  | ErrMalformedAddress
  | ErrChecksumMismatch

text \<open>\<^verbatim>\<open>strings.Split\<close> at a colon; \<^verbatim>\<open>strings.ToLower\<close> and \<^verbatim>\<open>strings.ToUpper\<close> on text without bytes above 127.\<close>

fun split_colon :: "string \<Rightarrow> string list" where
  "split_colon [] = [[]]"
| "split_colon (c # s) =
    (if c = CHR '':'' then [] # split_colon s
     else (case split_colon s of [] \<Rightarrow> [[c]] | x # xs \<Rightarrow> (c # x) # xs))"

definition ascii_lower :: "string \<Rightarrow> string" where
  "ascii_lower = map (\<lambda>c. if is_upper c then char_of ((of_char c :: nat) + 32) else c)"

definition ascii_upper :: "string \<Rightarrow> string" where
  "ascii_upper = map (\<lambda>c. if is_lower c then char_of ((of_char c :: nat) - 32) else c)"

definition validChainReference :: "string \<Rightarrow> bool" where
  "validChainReference reference \<longleftrightarrow>
    \<not> (reference = [] \<or> length reference > 1 \<and> reference ! 0 = CHR ''0'') \<and>
    list_all (\<lambda>c. \<not> (c < CHR ''0'' \<or> c > CHR ''9'')) reference"

definition validateAddress :: "ethlib \<Rightarrow> string \<Rightarrow> pkh_error + unit" where
  "validateAddress lib address =
    (if length address \<noteq> 42 \<or> take 2 address \<noteq> ''0x'' then Inl ErrMalformedAddress
     else (let payload = drop 2 address
           in if \<not> list_all is_hexdig payload then Inl ErrMalformedAddress
              else if payload = ascii_lower payload \<or> payload = ascii_upper payload then Inr ()
              else if address \<noteq> ChecksumAddress lib address then Inl ErrChecksumMismatch
              else Inr ()))"

definition ParseAccountID :: "ethlib \<Rightarrow> string \<Rightarrow> pkh_error + string \<times> string" where
  "ParseAccountID lib s =
    (if length (filter (\<lambda>c. c = CHR '':'') s) \<noteq> 2 then Inl ErrInvalidComponentCount
     else (let parts = split_colon s; namespace = parts ! 0; reference = parts ! 1; account = parts ! 2
           in if namespace \<noteq> ''eip155'' then Inl ErrUnsupportedNamespace
              else if \<not> validChainReference reference then Inl ErrInvalidChainReference
              else sbind (validateAddress lib account) (\<lambda>_. Inr (namespace @ '':'' @ reference, account))))"

section \<open>Documents\<close>

definition DocumentFor :: "ethlib \<Rightarrow> DID \<Rightarrow> pkh_error + Document" where
  "DocumentFor lib d =
    (if did_path d \<noteq> [] \<or> did_query d \<noteq> [] \<or> did_fragment d \<noteq> [] \<or> did_String d \<noteq> [] \<and> \<not> IsDID (did_String d)
     then Inl ErrDIDURLNotSupported
     else if did_method d \<noteq> ''pkh'' then Inl ErrWrongMethod
     else sbind (ParseAccountID lib (did_methodSpecificID d)) (\<lambda>_.
       let id = did_String d
       in Inr \<lparr>doc_ID = id,
               doc_VerificationMethod =
                 [\<lparr>vm_ID = id @ ''#blockchainAccountId'', vm_Type = ''EcdsaSecp256k1RecoveryMethod2020'', vm_Controller = id,
                   vm_BlockchainAccountId = did_methodSpecificID d, vm_PublicKeyJWK = [], vm_PublicKeyMultibase = []\<rparr>],
               doc_Service = []\<rparr>))"

definition Resolver_Resolve :: "ethlib \<Rightarrow> pkh_error Resolver" where
  "Resolver_Resolve lib d = (case DocumentFor lib d of Inl e \<Rightarrow> Inl e | Inr doc \<Rightarrow> Inr (Some doc))"

section \<open>Splitting\<close>

lemma split_colon_single: "CHR '':'' \<notin> set s \<Longrightarrow> split_colon s = [s]"
  by (induction s) auto

lemma split_colon_append: "CHR '':'' \<notin> set a \<Longrightarrow> split_colon (a @ CHR '':'' # s) = a # split_colon s"
  by (induction a) auto

lemma two_colons:
  assumes "length (filter (\<lambda>c. c = CHR '':'') s) = 2"
  obtains a b c where "s = a @ '':'' @ b @ '':'' @ c" "split_colon s = [a, b, c]"
proof -
  define P :: "char \<Rightarrow> bool" where "P = (\<lambda>c. c \<noteq> CHR '':'')"
  have ex: "\<exists>u. dropWhile P t = CHR '':'' # u \<and> t = takeWhile P t @ CHR '':'' # u \<and>
      length (filter (\<lambda>c. c = CHR '':'') u) = n" if n: "length (filter (\<lambda>c. c = CHR '':'') t) = Suc n" for t n
  proof (cases "dropWhile P t")
    case Nil
    then have "t = takeWhile P t" by (metis append.right_neutral takeWhile_dropWhile_id)
    then have "\<forall>c \<in> set t. c \<noteq> CHR '':''" by (metis P_def set_takeWhileD)
    then show ?thesis using n by (simp add: filter_False)
  next
    case (Cons x u)
    have x: "x = CHR '':''" by (metis Cons P_def hd_dropWhile list.distinct(1) list.sel(1))
    have t: "t = takeWhile P t @ CHR '':'' # u" using takeWhile_dropWhile_id [of P t] Cons x by metis
    have "filter (\<lambda>c. c = CHR '':'') (takeWhile P t) = []" by (auto simp: filter_empty_conv P_def dest: set_takeWhileD)
    then have "length (filter (\<lambda>c. c = CHR '':'') t) = Suc (length (filter (\<lambda>c. c = CHR '':'') u))" by (subst t) simp
    then show ?thesis using n Cons x t by simp
  qed
  obtain u where u: "s = takeWhile P s @ CHR '':'' # u" "length (filter (\<lambda>c. c = CHR '':'') u) = 1"
    using ex [of s 1] assms by auto
  obtain v where v: "u = takeWhile P u @ CHR '':'' # v" "length (filter (\<lambda>c. c = CHR '':'') v) = 0"
    using ex [of u 0] u(2) by auto
  have none: "CHR '':'' \<notin> set (takeWhile P t)" for t by (auto simp: P_def dest: set_takeWhileD)
  have "CHR '':'' \<notin> set v" using v(2) by (auto simp: filter_empty_conv)
  then have "split_colon s = [takeWhile P s, takeWhile P u, v]"
    using none u(1) v(1) by (metis split_colon_append split_colon_single)
  moreover have "s = takeWhile P s @ '':'' @ takeWhile P u @ '':'' @ v" using u(1) v(1) by simp
  ultimately show ?thesis using that by blast
qed

section \<open>Addresses\<close>

definition address_spellings :: "ethlib \<Rightarrow> bytes \<Rightarrow> string set" where
  "address_spellings lib a = {hex_EncodeToString a, map up (hex_EncodeToString a), drop 2 (checksumAddress lib a)}"

lemma from_hex_hexdig: "is_hexdig c \<longleftrightarrow> from_hex c \<noteq> None"
  by (auto simp: from_hex_def is_hexdig_def is_num_def)

lemma hex_Decode_hexdig: "even (length s) \<Longrightarrow> list_all is_hexdig s \<longleftrightarrow> (\<exists>a. hex_DecodeString s = Some a)"
  by (induction s rule: hex_DecodeString.induct) (auto simp: from_hex_hexdig split: option.splits)

lemma of_char_shift:
  assumes "0 < n" "n \<le> 32" and "32 < (of_char c :: nat)"
  shows "char_of ((of_char c :: nat) + n) \<noteq> c" "char_of ((of_char c :: nat) - n) \<noteq> c"
proof -
  define x where "x = (of_char c :: nat)"
  have x: "x < 256" "32 < x" using assms by (simp_all add: x_def)
  have "(x + n) mod 256 = (if x + n < 256 then x + n else x + n - 256)" using assms x by (simp add: mod_if)
  then have "(x + n) mod 256 \<noteq> x" using assms by (simp split: if_splits)
  moreover have "(x - n) mod 256 = x - n" using x by simp
  then have "(x - n) mod 256 \<noteq> x" using assms x by linarith
  ultimately have "((of_char c :: nat) + n) mod 256 \<noteq> of_char c" "((of_char c :: nat) - n) mod 256 \<noteq> of_char c"
    by (simp_all add: x_def)
  then show "char_of ((of_char c :: nat) + n) \<noteq> c" "char_of ((of_char c :: nat) - n) \<noteq> c" by (metis of_char_of)+
qed

lemma ascii_lower_hex: "list_all is_hexdig s \<Longrightarrow> s = ascii_lower s \<longleftrightarrow> list_all (\<lambda>c. \<not> hex_capital c) s"
proof -
  have "c = (if is_upper c then char_of ((of_char c :: nat) + 32) else c) \<longleftrightarrow> \<not> hex_capital c" if "is_hexdig c" for c
    using that of_char_shift [of 32 c] by (auto simp: char_class_defs hex_capital_def less_eq_char_def)
  then show "list_all is_hexdig s \<Longrightarrow> ?thesis" by (induction s) (simp_all add: ascii_lower_def)
qed

lemma ascii_upper_hex: "list_all is_hexdig s \<Longrightarrow> s = ascii_upper s \<longleftrightarrow> list_all (\<lambda>c. \<not> hex_letter c) s"
proof -
  have "c = (if is_lower c then char_of ((of_char c :: nat) - 32) else c) \<longleftrightarrow> \<not> hex_letter c" if "is_hexdig c" for c
    using that of_char_shift [of 32 c] by (auto simp: char_class_defs hex_letter_def less_eq_char_def)
  then show "list_all is_hexdig s \<Longrightarrow> ?thesis" by (induction s) (simp_all add: ascii_upper_def)
qed

lemma checksum_spells: "length a = 20 \<Longrightarrow> list_all2 spells (drop 2 (checksumAddress lib a)) (hex_EncodeToString a)"
  by (auto simp: checksumAddress_def Let_def list_all2_conv_all_nth spells_def up_def)

lemma checksum_text: "''0x'' @ drop 2 (checksumAddress lib a) = checksumAddress lib a"
  by (simp add: checksumAddress_def Let_def)

lemma ChecksumAddress_decoded:
  assumes "hex_DecodeString t = Some a" and "length a = 20"
  shows "ChecksumAddress lib (''0x'' @ t) = checksumAddress lib a"
proof -
  have "take 2 t \<noteq> ''0X''"
  proof
    assume "take 2 t = ''0X''"
    then obtain u where "t = CHR ''0'' # CHR ''X'' # u"
      by (metis append_Cons append_Nil append_take_drop_id)
    then show False using assms(1) by (simp add: from_hex_def less_eq_char_def split: option.splits)
  qed
  then show ?thesis using assms by (simp add: ChecksumAddress_def trim_prefix_def numeral_2_eq_2)
qed

lemma validateAddress_Inr:
  "validateAddress lib s = Inr () \<longleftrightarrow> (\<exists>a t. length a = 20 \<and> t \<in> address_spellings lib a \<and> s = ''0x'' @ t)"
proof (cases "\<exists>t a. s = ''0x'' @ t \<and> hex_DecodeString t = Some a \<and> length a = 20")
  case True
  then obtain t a where t: "s = ''0x'' @ t" "hex_DecodeString t = Some a" "length a = 20" by blast
  have sp: "list_all2 spells t (hex_EncodeToString a)" using t(2) by (simp add: hex_Decode_spells)
  have len: "length t = 40" using list_all2_lengthD [OF sp] t(3) by simp
  have hex: "list_all is_hexdig t" using t(2) len hex_Decode_hexdig [of t] by auto
  have "validateAddress lib s = Inr () \<longleftrightarrow>
      list_all (\<lambda>c. \<not> hex_capital c) t \<or> list_all (\<lambda>c. \<not> hex_letter c) t \<or> s = checksumAddress lib a"
    using t len hex ChecksumAddress_decoded [OF t(2,3), of lib]
    by (simp add: validateAddress_def Let_def ascii_lower_hex ascii_upper_hex)
  moreover have "s = checksumAddress lib a \<longleftrightarrow> t = drop 2 (checksumAddress lib a)"
    using t(1) checksum_text [of lib a] by (metis same_append_eq)
  ultimately have "validateAddress lib s = Inr () \<longleftrightarrow> t \<in> address_spellings lib a"
    using spells_lower [OF sp] spells_upper [OF sp] hex_lower [of a] hex_upper [of a] by (auto simp: address_spellings_def)
  moreover have "b = a" if "length b = 20" "t \<in> address_spellings lib b" for b
  proof -
    have "list_all2 spells t (hex_EncodeToString b)"
      using that checksum_spells [OF that(1), of lib]
      by (auto simp: address_spellings_def list_all2_conv_all_nth spells_def)
    then show ?thesis using t(2) by (metis hex_Decode_spells option.inject)
  qed
  ultimately show ?thesis using t(1,3) by auto
next
  case False
  have "hex_DecodeString t = Some a" if "length a = 20" "t \<in> address_spellings lib a" for t a
    using that checksum_spells [OF that(1), of lib]
    by (auto simp: address_spellings_def hex_Decode_spells list_all2_conv_all_nth spells_def)
  then have "\<nexists>a t. length a = 20 \<and> t \<in> address_spellings lib a \<and> s = ''0x'' @ t" using False by blast
  moreover have "validateAddress lib s \<noteq> Inr ()"
  proof
    assume v: "validateAddress lib s = Inr ()"
    then have s: "length s = 42" "take 2 s = ''0x''" "list_all is_hexdig (drop 2 s)"
      by (auto simp: validateAddress_def Let_def split: if_splits)
    then obtain a where a: "hex_DecodeString (drop 2 s) = Some a" using hex_Decode_hexdig [of "drop 2 s"] by auto
    then have "length a = 20" using s(1) by (auto simp: hex_Decode_spells dest: list_all2_lengthD)
    then show False using False a s(2) by (metis append_take_drop_id)
  qed
  ultimately show ?thesis by blast
qed

lemma spellings_hexdig: "length a = 20 \<Longrightarrow> t \<in> address_spellings lib a \<Longrightarrow> list_all is_hexdig t \<and> length t = 40"
  using validateAddress_Inr [of lib "''0x'' @ t"] by (auto simp: validateAddress_def Let_def split: if_splits)

section \<open>Accounts\<close>

definition account_text :: "string \<Rightarrow> string \<Rightarrow> string" where
  "account_text ref t = ''eip155:'' @ ref @ '':0x'' @ t"

lemma no_colon:
  "validChainReference ref \<Longrightarrow> CHR '':'' \<notin> set ref" "list_all is_hexdig t \<Longrightarrow> CHR '':'' \<notin> set t"
  by (auto simp: validChainReference_def list_all_iff char_class_defs less_char_def less_eq_char_def)

lemma ParseAccountID_text:
  assumes "validChainReference ref" and "length a = 20" and "t \<in> address_spellings lib a"
  shows "ParseAccountID lib (account_text ref t) = Inr (''eip155:'' @ ref, ''0x'' @ t)"
proof -
  have ref: "CHR '':'' \<notin> set ref" and t: "CHR '':'' \<notin> set (''0x'' @ t)"
    using no_colon assms(1) spellings_hexdig [OF assms(2,3)] by auto
  have acc: "account_text ref t = ''eip155'' @ CHR '':'' # ref @ CHR '':'' # ''0x'' @ t" by (simp add: account_text_def)
  have "split_colon (account_text ref t) = [''eip155'', ref, ''0x'' @ t]"
    unfolding acc using ref t split_colon_append [of "''eip155''"] split_colon_append [OF ref] split_colon_single [OF t]
    by simp
  moreover have "filter (\<lambda>c. c = CHR '':'') ref = []" "filter (\<lambda>c. c = CHR '':'') t = []"
    using ref t by (auto simp: filter_empty_conv)
  then have "length (filter (\<lambda>c. c = CHR '':'') (account_text ref t)) = 2" by (simp add: account_text_def)
  moreover have "validateAddress lib (''0x'' @ t) = Inr ()" using assms(2,3) validateAddress_Inr by blast
  ultimately show ?thesis using assms(1) by (simp add: ParseAccountID_def)
qed

lemma ParseAccountID_Inr:
  "ParseAccountID lib s = Inr r \<longleftrightarrow>
    (\<exists>ref a t. validChainReference ref \<and> length a = 20 \<and> t \<in> address_spellings lib a \<and> s = account_text ref t \<and>
      r = (''eip155:'' @ ref, ''0x'' @ t))"
proof
  assume p: "ParseAccountID lib s = Inr r"
  then have "length (filter (\<lambda>c. c = CHR '':'') s) = 2" by (auto simp: ParseAccountID_def split: if_splits)
  then obtain x y z where s: "s = x @ '':'' @ y @ '':'' @ z" and sp: "split_colon s = [x, y, z]" by (rule two_colons)
  have "x = ''eip155''" "validChainReference y" "validateAddress lib z = Inr ()" "r = (''eip155:'' @ y, z)"
    using p sp by (auto simp: ParseAccountID_def sbind_Inr_conv split: if_splits)
  then show "\<exists>ref a t. validChainReference ref \<and> length a = 20 \<and> t \<in> address_spellings lib a \<and> s = account_text ref t \<and>
      r = (''eip155:'' @ ref, ''0x'' @ t)"
    using s by (fastforce simp: validateAddress_Inr account_text_def)
qed (use ParseAccountID_text in force)

lemma escaped_ok_plain: "list_all (\<lambda>c. P c \<and> c \<noteq> CHR ''%'') s \<Longrightarrow> escaped_ok P s"
  by (induction s) auto

lemma account_syntax:
  assumes "validChainReference ref" and "length a = 20" and "t \<in> address_spellings lib a"
  shows "did_syntax ''pkh'' (account_text ref t) [] None None"
proof -
  have t: "list_all is_hexdig t" "length t = 40" using spellings_hexdig [OF assms(2,3)] by auto
  have r: "list_all is_num ref"
    using assms(1) by (auto simp: validChainReference_def list_all_iff is_num_def not_less)
  have "list_all (\<lambda>c. msid_char c \<and> c \<noteq> CHR ''%'') ref" "list_all (\<lambda>c. msid_char c \<and> c \<noteq> CHR ''%'') t"
    using t(1) r by (auto simp: list_all_iff char_class_defs less_eq_char_def)
  then have "list_all (\<lambda>c. msid_char c \<and> c \<noteq> CHR ''%'') (account_text ref t)"
    by (simp add: account_text_def char_class_defs)
  moreover have "last (account_text ref t) \<noteq> CHR '':''"
  proof -
    have "t \<noteq> []" using t(2) by auto
    then have "last (account_text ref t) \<in> set t" by (simp add: account_text_def)
    then show ?thesis using no_colon(2) [OF t(1)] by metis
  qed
  ultimately show ?thesis
    by (simp add: did_syntax_def escaped_ok_plain method_char_def is_lower_def account_text_def)
qed

definition pkh_document :: "string \<Rightarrow> string \<Rightarrow> Document" where
  "pkh_document did account =
    \<lparr>doc_ID = did,
     doc_VerificationMethod =
       [\<lparr>vm_ID = did @ ''#blockchainAccountId'', vm_Type = ''EcdsaSecp256k1RecoveryMethod2020'', vm_Controller = did,
         vm_BlockchainAccountId = account, vm_PublicKeyJWK = [], vm_PublicKeyMultibase = []\<rparr>],
     doc_Service = []\<rparr>"

lemma DocumentFor_Inr:
  "DocumentFor lib d = Inr doc \<longleftrightarrow>
    did_path d = [] \<and> did_query d = [] \<and> did_fragment d = [] \<and> (did_original d = [] \<or> IsDID (did_original d)) \<and>
    did_method d = ''pkh'' \<and> (\<exists>r. ParseAccountID lib (did_methodSpecificID d) = Inr r) \<and>
    doc = pkh_document (did_original d) (did_methodSpecificID d)"
  by (auto simp: DocumentFor_def did_String_def sbind_Inr_conv pkh_document_def Let_def)

section \<open>Properties\<close>

text \<open>C40: parsing a DID and resolving it succeeds exactly on the texts \<^verbatim>\<open>did:pkh:eip155:<chain>:0x<address>\<close> where the chain is a
  decimal number without leading zeros and the address is spelled in small letters, in capitals or with its checksum;
  the document then has the one verification method with that account, and keeps the spelling.\<close>

theorem did_pkh_resolution_exact:
  "(\<exists>d. did_Parse s = Inr d \<and> Resolver_Resolve lib d = Inr (Some doc)) \<longleftrightarrow>
    (\<exists>ref a t. validChainReference ref \<and> length a = 20 \<and> t \<in> address_spellings lib a \<and>
      s = ''did:pkh:'' @ account_text ref t \<and> doc = pkh_document s (account_text ref t))"
proof -
  have res: "Resolver_Resolve lib d = Inr (Some doc) \<longleftrightarrow> DocumentFor lib d = Inr doc" for d
    by (auto simp: Resolver_Resolve_def split: sum.splits)
  show ?thesis
  proof
    assume "\<exists>d. did_Parse s = Inr d \<and> Resolver_Resolve lib d = Inr (Some doc)"
    then obtain d where d: "did_parse s = Inr d" "DocumentFor lib d = Inr doc" by (auto simp: res did_Parse_def)
    then obtain m x p q f where s: "did_syntax m x p q f" "s = did_unparse m x p q f" by (metis parse_inverse)
    then have eq: "d = did_of m x p q f" using d(1) did_parse_unparse by force
    have "did_original d = s" "s \<noteq> []" by (simp_all add: eq did_of_def s(2) did_unparse_def)
    then have nourl: "\<not> did_isURL d" using d by (auto simp: DocumentFor_Inr IsDID_def)
    then have "p = []" "q = None" "f = None" by (simp_all add: eq did_of_def)
    moreover from this have "m = ''pkh''" "\<exists>r. ParseAccountID lib x = Inr r" "doc = pkh_document s x"
      using d(2) by (simp_all add: DocumentFor_Inr eq did_of_def s(2))
    ultimately show "\<exists>ref a t. validChainReference ref \<and> length a = 20 \<and> t \<in> address_spellings lib a \<and>
        s = ''did:pkh:'' @ account_text ref t \<and> doc = pkh_document s (account_text ref t)"
      using s(2) by (fastforce simp: ParseAccountID_Inr did_unparse_def tail_part_defs)
  next
    assume "\<exists>ref a t. validChainReference ref \<and> length a = 20 \<and> t \<in> address_spellings lib a \<and>
        s = ''did:pkh:'' @ account_text ref t \<and> doc = pkh_document s (account_text ref t)"
    then obtain ref a t where a: "validChainReference ref" "length a = 20" "t \<in> address_spellings lib a"
        "s = ''did:pkh:'' @ account_text ref t" "doc = pkh_document s (account_text ref t)" by blast
    have s: "s = did_unparse ''pkh'' (account_text ref t) [] None None" by (simp add: a(4) did_unparse_def tail_part_defs)
    define d where "d = did_of ''pkh'' (account_text ref t) [] None None"
    have d: "did_parse s = Inr d" using did_parse_unparse [OF account_syntax [OF a(1-3)]] by (simp add: s d_def)
    have "did_original d = s" by (simp add: d_def did_of_def s)
    then have "DocumentFor lib d = Inr doc"
      using ParseAccountID_text [OF a(1-3)] d a(5) by (simp add: DocumentFor_Inr IsDID_def) (simp add: d_def did_of_def)
    then show "\<exists>d. did_Parse s = Inr d \<and> Resolver_Resolve lib d = Inr (Some doc)" using d by (auto simp: res did_Parse_def)
  qed
qed

end
