(* ===== verification/Spec2Isabelle.thy ===== *)
theory Spec2Isabelle
  imports Merkle_Consistency Rlp Delegation Attestation Commitment Verification Binder Wallet_Roundtrip ChainCommitment KeyWrap Kms Didpkh
begin

text \<open>
  \<^bold>\<open>A verification development of the trust library.\<close>

  The program (\<^verbatim>\<open>src/\<close>, Go) issues and verifies signed statements. An authority grants capabilities within a scope and a
  period; delegation narrows it from hop to hop; an attestation exercises a capability over a claim and its evidence and is
  signed. The engine of \<^verbatim>\<open>src/verification\<close> checks an attestation against its chain of authorities, its keys, its provenance
  trace and, where there is one, a commitment: a Merkle tree over canonical hashes whose root may be anchored on an Ethereum
  chain. Below these lie canonical JSON, hashes, keys and signatures; beside them the chain packages (RLP, ABI, transactions,
  typed data, broadcasting) and the key-management packages.

  \<^bold>\<open>How the model reads.\<close> Every operation is a function at the top level of its theory, named as in the code, with a prefix
  where two packages use the same name. A struct is a record, an enumeration or an error sentinel a datatype, a byte slice a
  list of 8-bit words, a string its bytes. An \<^verbatim>\<open>int\<close> that a caller chooses is an integer with Go's wrap-around, a \<^verbatim>\<open>uint64\<close> a
  64-bit word, a \<^verbatim>\<open>*big.Int\<close> an optional integer, any other nil pointer \<open>None\<close>. An operation that fails returns a sum; \<open>sbind\<close> is
  the early return. A panic is a value of the result type. A loop whose end depends on its input is a partial function into
  options, where \<open>None\<close> means that it does not return. Only the order and kind of errors is modelled, not their texts.

  Code outside the repository is an argument: the curve and signature primitives (\<open>clib\<close>), Keccak-256 and recoverable
  signatures (\<open>ethlib\<close>), the third-party JWK package (\<open>jwx\<close>), AES (\<open>aes\<close>), the answers of a node (\<open>rpc_client\<close>, \<open>Provider\<close>), a
  remote signer, the clock, the CBOR encoder. Theorems that need something of it say so in a hypothesis and have a witness with
  a concrete instance. The standard library is modelled as far as the code uses it.

  \<^bold>\<open>The theories.\<close>

  \<^item> \<^verbatim>\<open>Prelude\<close>: machine types, sequencing of results, big-endian numbers, and the interface of an encoder with its decoder (the
    locales \<open>codec\<close> and \<open>canonical_codec\<close>). \<^verbatim>\<open>GoText\<close>, \<^verbatim>\<open>GoTime\<close>, \<^verbatim>\<open>Float64\<close>, \<^verbatim>\<open>Ec\<close>: UTF-8, hexadecimal and base64, instants and
    RFC 3339, IEEE doubles with shortest printing, curve points.

  \<^item> \<^verbatim>\<open>Sha256\<close> (\<^verbatim>\<open>crypto/hash\<close>), \<^verbatim>\<open>Keys\<close> (\<^verbatim>\<open>crypto/ed25519\<close>, \<^verbatim>\<open>ecdsa\<close>, \<^verbatim>\<open>secp256k1\<close>, \<^verbatim>\<open>rsa\<close>), \<^verbatim>\<open>Signature\<close> (\<^verbatim>\<open>signature\<close>): the
    digest, the key wrappers, the algorithm registry. Verification never crosses algorithms; the scalars of secp256k1 are
    reduced, so an overflowing one is accepted.

  \<^item> \<^verbatim>\<open>Canonical\<close> (\<^verbatim>\<open>canonical\<close>): JSON canonicalisation over the tree \<^verbatim>\<open>encoding/json\<close> yields, and the canonical hash.

  \<^item> \<^verbatim>\<open>Merkle\<close>, \<^verbatim>\<open>Merkle_Rfc\<close>, \<^verbatim>\<open>Merkle_Inclusion\<close>, \<^verbatim>\<open>Merkle_Subtree\<close>, \<^verbatim>\<open>Merkle_Consistency\<close> (\<^verbatim>\<open>merkle/tree.go\<close>): the tree equals RFC
    6962; inclusion and consistency verification accept what the prover makes and bind the leaf and the old root unless two
    listed inputs collide; a consistency check returns exactly for sizes up to \<open>2 ^ 62\<close>; the size counter wraps at the maximal
    \<^verbatim>\<open>uint64\<close>.

  \<^item> \<^verbatim>\<open>Authority\<close>, \<^verbatim>\<open>Delegation\<close>, \<^verbatim>\<open>Claim\<close>, \<^verbatim>\<open>Evidence\<close>, \<^verbatim>\<open>Attestation\<close>, \<^verbatim>\<open>Commitment\<close> (the packages of the same names): validation,
    hashes, signing. Each dimension of an authority is an instance of the locale \<open>granting\<close>, which gives containment along
    whole chains; signed objects share \<open>signed_object\<close>; commitments use the tree through \<open>position_binding\<close>.

  \<^item> \<^verbatim>\<open>Did\<close>, \<^verbatim>\<open>Didpkh\<close>, \<^verbatim>\<open>Jwk\<close>, \<^verbatim>\<open>Binder\<close> (\<^verbatim>\<open>identity/did\<close>, \<^verbatim>\<open>identity/didpkh\<close>, \<^verbatim>\<open>identity/jwk/jwk.go\<close>, \<^verbatim>\<open>verification/binder*.go\<close>):
    the DID parser equals its grammar, did:pkh resolution is characterised through it, a parsed or bound key has the algorithm
    it claims, and an off-curve key makes the engine panic.

  \<^item> \<^verbatim>\<open>Provenance\<close>, \<^verbatim>\<open>Verification\<close> (\<^verbatim>\<open>verification\<close>): the trace and the thirteen checks. The loop over the checks refines a
    recursive specification; a valid result is characterised by declarative conditions and implies that nothing escalates.

  \<^item> \<^verbatim>\<open>Rlp\<close>, \<^verbatim>\<open>Abi\<close>, \<^verbatim>\<open>Ethereum\<close>, \<^verbatim>\<open>Wallet\<close>, \<^verbatim>\<open>Wallet_Roundtrip\<close>, \<^verbatim>\<open>Eip712\<close>, \<^verbatim>\<open>Broadcast\<close>, \<^verbatim>\<open>ChainCommitment\<close> (\<^verbatim>\<open>chain/*\<close> and
    \<^verbatim>\<open>crypto/secp256k1/{recovery,address}.go\<close>): the decoders accept exactly the canonical encodings, what is signed decodes to
    itself, waiting for a receipt returns exactly when something happens, an anchored proof is accepted online exactly when
    the chain confirms it, and offline from any signer.

  \<^item> \<^verbatim>\<open>KeyWrap\<close>, \<^verbatim>\<open>Der\<close>, \<^verbatim>\<open>Kms\<close> (\<^verbatim>\<open>crypto/envelope/aes_kw.go\<close>, \<^verbatim>\<open>kms/der\<close>, \<^verbatim>\<open>kms\<close>): unwrapping inverts wrapping and nothing else
    unwraps; signatures in DER are accepted in one encoding only, public keys with any surplus after the key; the search for
    a recovery identifier finds the least one.

  \<^bold>\<open>Bounds.\<close> There is no fuel. Recursion is structural or has a measure; the loops of \<^verbatim>\<open>largestPow2LessThan\<close>, of the consistency
  prover and verifier and of \<^verbatim>\<open>WaitForReceipt\<close> are partial functions, and when they return is proved. The limits in statements are the
  code's: nesting and input size of RLP, \<open>2 ^ 63\<close> for ABI offsets, \<open>2 ^ 31\<close> for DER lengths, \<open>2 ^ 62\<close> for tree sizes. Lengths of
  slices in memory are natural numbers, as no slice reaches \<open>2 ^ 63\<close> bytes.

  \<^bold>\<open>Not modelled.\<close> Reading JSON or CBOR text into trees (\<^verbatim>\<open>encoding/json\<close> and a third-party CBOR package): operations start from the
  tree. JWS and COSE messages (\<^verbatim>\<open>identity/jwk/jws.go\<close>, \<^verbatim>\<open>cose.go\<close>) and the EAT encodings of attestations, which are built on them:
  wrappers of third-party packages. X.509, HPKE, AEAD, HKDF and random generation: adapters around the standard library or
  third-party code. The HTTP client of \<^verbatim>\<open>chain/rpc\<close>: network input and output. The packages under \<^verbatim>\<open>auth\<close>: interfaces for a web
  service, token claims over \<^verbatim>\<open>encoding/json\<close> and password hashing from third parties. The command line prints a text.
  BLAKE3 and SHA-3 are one-line adapters of other packages.
\<close>

end
